(* ===== verification/Prelude.thy ===== *)
theory Prelude
  imports
    Main
    "HOL-Library.Word"
    "HOL-Library.Char_ord"
    "HOL-Library.List_Lexorder"
    "HOL-Library.Sublist"
begin

text \<open>
  Shared vocabulary of the NovaCache development: the machine integers of the C++
  sources, bytes as characters, exceptions as values, and the three interfaces the
  components are written against:
  \<^item> \<open>codec\<close> (and \<open>strict_codec\<close>): a writer and a reader of byte strings that invert each
    other, the contract of the helpers of \<^verbatim>\<open>include/novacache/persistence/binary.hpp\<close>;
  \<^item> \<open>run_invariant\<close>: a step function with an invariant that every step keeps;
  \<^item> \<open>dictionary\<close>: the contract of \<^verbatim>\<open>std::unordered_map\<close>, provided here by association
    lists whose order stands for the (unspecified) iteration order of the container.
\<close>

unbundle bit_operations_syntax

section \<open>Machine integers, bytes and exceptions\<close>

type_synonym u8 = "8 word"
type_synonym u16 = "16 word"
type_synonym u32 = "32 word"
type_synonym u64 = "64 word"

text \<open>\<^verbatim>\<open>std::int64_t\<close> is a 64-bit word read through \<^term>\<open>sint\<close>.\<close>

type_synonym i64 = "64 word"

text \<open>
  The exceptions the sources throw, with the text given to the exception object.
  \<open>Undefined_behaviour\<close> stands for a call outside a library precondition.
\<close>

datatype exn =
    Runtime_error string
  | Invalid_argument string
  | System_error string
  | Length_error string
  | Undefined_behaviour string

type_synonym 'a result = "exn + 'a"

text \<open>Sequencing of computations that may throw.\<close>

definition bindE :: "'a result \<Rightarrow> ('a \<Rightarrow> 'b result) \<Rightarrow> 'b result" where
  "bindE m f = (case m of Inl e \<Rightarrow> Inl e | Inr x \<Rightarrow> f x)"

lemma bindE_simps [simp]:
  "bindE (Inl e) f = Inl e"
  "bindE (Inr x) f = f x"
  by (simp_all add: bindE_def)

lemma bindE_eq_Inr [simp]:
  "bindE m f = Inr y \<longleftrightarrow> (\<exists>x. m = Inr x \<and> f x = Inr y)"
  by (cases m) simp_all

lemma bindE_eq_Inl:
  "bindE m f = Inl e \<longleftrightarrow> m = Inl e \<or> (\<exists>x. m = Inr x \<and> f x = Inl e)"
  by (cases m) simp_all

lemma bindE_cong [fundef_cong]:
  "m = m' \<Longrightarrow> (\<And>x. m' = Inr x \<Longrightarrow> f x = f' x) \<Longrightarrow> bindE m f = bindE m' f'"
  by (cases m') simp_all

text \<open>A \<^verbatim>\<open>char\<close> of a \<^verbatim>\<open>std::string\<close> and the \<^verbatim>\<open>std::uint8_t\<close> with the same bits.\<close>

definition byte_char :: "u8 \<Rightarrow> char" where
  "byte_char b = char_of (unat b)"

definition char_byte :: "char \<Rightarrow> u8" where
  "char_byte c = of_nat (of_char c)"

named_theorems byte_simps \<open>bytes, words and their casts\<close>

lemma char_byte_byte_char [simp, byte_simps]: "char_byte (byte_char b) = b"
proof -
  have "unat b < 256" using unsigned_less [of b] by simp
  then show ?thesis by (simp add: char_byte_def byte_char_def)
qed

lemma byte_char_char_byte [simp, byte_simps]: "byte_char (char_byte c) = c"
  by (simp add: char_byte_def byte_char_def unat_of_nat)

lemma char_byte_inject [simp]: "char_byte c = char_byte d \<longleftrightarrow> c = d"
  using byte_char_char_byte by metis

lemma and_255 [byte_simps]: "(v :: 'a::len word) AND 0xff = take_bit 8 v"
  by (simp add: take_bit_eq_mask mask_numeral)

lemma join_take_bits [byte_simps]:
  "take_bit n (v :: 'a::len word) OR push_bit n (take_bit m (drop_bit n v)) = take_bit (n + m) v"
  by (rule bit_word_eqI) (auto simp: bit_simps)

lemma unat_of_nat_small:
  "n < 2 ^ LENGTH('a) \<Longrightarrow> unat (of_nat n :: 'a::len word) = n"
  by (simp add: unat_of_nat take_bit_nat_eq_self)

lemma word_less_inc: "(x :: 'a::len word) \<noteq> - 1 \<Longrightarrow> x < x + 1"
  by (meson inc_less_eq_triv_imp not_le)

lemma unat_inc: "unat (x :: 'a::len word) + 1 < 2 ^ LENGTH('a) \<Longrightarrow> unat (x + 1) = unat x + 1"
  using unat_of_nat_small [where 'a = 'a, of "unat x + 1"] by (simp add: add.commute)

lemma i64_nonneg:
  assumes "0 \<le> sint (w :: i64)"
  shows "int (unat w) = sint w"
proof -
  have "uint w = take_bit 64 (sint w)" using uint_sint [of w] by simp
  also have "\<dots> = sint w"
    using assms sint_lt [of w] by (simp add: take_bit_int_eq_self)
  finally show ?thesis by simp
qed

lemma i64_nonneg_bound: "\<not> sint (w :: i64) < 0 \<Longrightarrow> unat w < 9223372036854775808"
proof -
  assume "\<not> sint w < 0"
  moreover have "sint w < 9223372036854775808" using sint_lt [of w] by simp
  ultimately show ?thesis using i64_nonneg [of w] by linarith
qed

section \<open>Lists\<close>

lemma proper_prefix_length: "strict_prefix p s \<Longrightarrow> length p < length s"
  by (rule prefix_length_less)

text \<open>A proper prefix of a concatenation ends inside the first part or inside the second.\<close>

lemma strict_prefix_append_cases:
  assumes "strict_prefix p (a @ b)"
  obtains "strict_prefix p a" | q where "p = a @ q" and "strict_prefix q b"
  using assms unfolding strict_prefix_def
  by (cases "p = a") (auto simp: prefix_append)

lemma strict_prefix_take_append:
  "strict_prefix w (drop n xs) \<Longrightarrow> strict_prefix (take n xs @ w) xs"
  unfolding strict_prefix_def by (metis append_take_drop_id same_append_eq same_prefix_prefix)

lemma take_append_exact [simp]: "n = length xs \<Longrightarrow> take n (xs @ ys) = xs"
  by simp

lemma drop_append_exact [simp]: "n = length xs \<Longrightarrow> drop n (xs @ ys) = ys"
  by simp

lemma length_concat_member: "x \<in> set xs \<Longrightarrow> length (f x) \<le> length (concat (map f xs))"
  by (induction xs) auto

text \<open>A prefix of a concatenation of chunks is a number of whole chunks and a torn one.\<close>

lemma prefix_chunks:
  "prefix f (concat (map e xs)) \<Longrightarrow>
   \<exists>k torn. k \<le> length xs \<and> f = concat (map e (take k xs)) @ torn \<and>
     (if k = length xs then torn = [] else strict_prefix torn (e (xs ! k)))"
proof (induction xs arbitrary: f)
  case Nil
  then show ?case by simp
next
  case (Cons x xs)
  show ?case
  proof (cases "strict_prefix f (e x)")
    case True
    then show ?thesis by (intro exI [of _ 0] exI [of _ f]) simp
  next
    case False
    then obtain f' where f': "f = e x @ f'" "prefix f' (concat (map e xs))"
      using Cons.prems by (auto simp: prefix_append strict_prefix_def)
    then obtain k torn where "k \<le> length xs" "f' = concat (map e (take k xs)) @ torn"
        "if k = length xs then torn = [] else strict_prefix torn (e (xs ! k))"
      using Cons.IH by blast
    then show ?thesis
      using f'(1) by (intro exI [of _ "Suc k"] exI [of _ torn]) simp
  qed
qed

lemma in_concat_nth: "x \<in> set (concat xss) \<longleftrightarrow> (\<exists>i < length xss. x \<in> set (xss ! i))"
  unfolding set_concat UN_iff by (metis in_set_conv_nth)

lemma takeWhile_all_append:
  "(\<forall>x \<in> set xs. P x) \<Longrightarrow> \<not> P y \<Longrightarrow> takeWhile P (xs @ y # ys) = xs"
  by (induction xs) auto

lemma distinct_map_fst_unique:
  "distinct (map fst xs) \<Longrightarrow> (k, a) \<in> set xs \<Longrightarrow> (k, b) \<in> set xs \<Longrightarrow> a = b"
  by (metis map_of_is_SomeI option.inject)

section \<open>Writers and readers\<close>

text \<open>
  A reader takes its input and returns the value with the rest of the input, or throws.
  \<open>read_times\<close> is the loop \<^verbatim>\<open>for (index = 0; index < count; ++index) push_back(read(input))\<close>.
\<close>

type_synonym 'a reader = "string \<Rightarrow> ('a \<times> string) result"

fun read_times :: "'a reader \<Rightarrow> nat \<Rightarrow> 'a list reader" where
  "read_times rd 0 input = Inr ([], input)"
| "read_times rd (Suc n) input =
     bindE (rd input) (\<lambda>(x, rest).
       bindE (read_times rd n rest) (\<lambda>(xs, rest'). Inr (x # xs, rest')))"

locale codec =
  fixes enc :: "'a \<Rightarrow> string"
    and dec :: "'a reader"
    and ok :: "'a \<Rightarrow> bool"
  assumes dec_enc: "ok x \<Longrightarrow> dec (enc x @ r) = Inr (x, r)"
begin

lemma dec_enc_nil: "ok x \<Longrightarrow> dec (enc x) = Inr (x, [])"
  using dec_enc [of x "[]"] by simp

lemma enc_prefix_free:
  assumes "ok x" and "ok y" and "enc x @ r = enc y @ s"
  shows "x = y \<and> r = s"
proof -
  have "dec (enc y @ s) = Inr (x, r)"
    using dec_enc [OF assms(1), of r] unfolding assms(3) .
  then show ?thesis by (simp add: dec_enc [OF assms(2)])
qed

lemma enc_inject: "ok x \<Longrightarrow> ok y \<Longrightarrow> enc x = enc y \<longleftrightarrow> x = y"
  using enc_prefix_free [of x y "[]" "[]"] by auto

lemma read_times_enc:
  "list_all ok xs \<Longrightarrow> read_times dec (length xs) (concat (map enc xs) @ r) = Inr (xs, r)"
  by (induction xs) (simp_all add: dec_enc)

end

text \<open>A strict codec also rejects every proper prefix of an encoding.\<close>

locale strict_codec = codec +
  assumes dec_truncated: "ok x \<Longrightarrow> strict_prefix p (enc x) \<Longrightarrow> \<exists>e. dec p = Inl e"
begin

lemma read_times_truncated:
  "list_all ok xs \<Longrightarrow> strict_prefix p (concat (map enc xs)) \<Longrightarrow>
   \<exists>e. read_times dec (length xs) p = Inl e"
proof (induction xs arbitrary: p)
  case Nil
  then show ?case by simp
next
  case (Cons x xs)
  then have okx: "ok x" and okxs: "list_all ok xs" by simp_all
  show ?case
  proof (cases "strict_prefix p (enc x)")
    case True
    then obtain e where "dec p = Inl e" using dec_truncated [OF okx] by blast
    then show ?thesis by simp
  next
    case False
    with Cons.prems(2) obtain q where p: "p = enc x @ q"
      and "strict_prefix q (concat (map enc xs))"
      by (auto elim: strict_prefix_append_cases)
    then obtain e where "read_times dec (length xs) q = Inl e"
      using Cons.IH [OF okxs] by blast
    then show ?thesis by (simp add: p dec_enc [OF okx])
  qed
qed

end

section \<open>Runs and invariants\<close>

locale run_invariant =
  fixes step :: "'s \<Rightarrow> 'e \<Rightarrow> 's"
    and inv :: "'s \<Rightarrow> bool"
    and guard :: "'e \<Rightarrow> bool"
  assumes step_inv: "inv s \<Longrightarrow> guard e \<Longrightarrow> inv (step s e)"
begin

lemma run_inv: "inv s \<Longrightarrow> list_all guard es \<Longrightarrow> inv (foldl step s es)"
  by (induction es arbitrary: s) (simp_all add: step_inv)

end

section \<open>Histories and simulation\<close>

text \<open>The replies of a sequence of operations, and the state after it.\<close>

fun replies :: "('s \<Rightarrow> 'o \<Rightarrow> 'r \<times> 's) \<Rightarrow> 's \<Rightarrow> 'o list \<Rightarrow> 'r list \<times> 's" where
  "replies step s [] = ([], s)"
| "replies step s (op # ops) =
     (case step s op of (r, s') \<Rightarrow> (case replies step s' ops of (rs, s'') \<Rightarrow> (r # rs, s'')))"

lemma replies_Cons:
  "fst (replies step s (op # ops)) = fst (step s op) # fst (replies step (snd (step s op)) ops)"
  "snd (replies step s (op # ops)) = snd (replies step (snd (step s op)) ops)"
  by (simp_all split: prod.split)

text \<open>
  A concrete system simulates an abstract one on the histories admitted from a time: every
  operation gives the same reply and keeps the states related.
\<close>

locale simulation =
  fixes cstep :: "'s \<Rightarrow> 'o \<Rightarrow> 'r \<times> 's"
    and astep :: "'a \<Rightarrow> 'o \<Rightarrow> 'r \<times> 'a"
    and rel :: "'t \<Rightarrow> 's \<Rightarrow> 'a \<Rightarrow> bool"
    and admits :: "'t \<Rightarrow> 'o list \<Rightarrow> bool"
    and time :: "'t \<Rightarrow> 'o \<Rightarrow> 't"
  assumes admits_rest: "admits t (op # ops) \<Longrightarrow> admits (time t op) ops"
    and same_reply: "rel t s a \<Longrightarrow> admits t (op # ops) \<Longrightarrow> fst (cstep s op) = fst (astep a op)"
    and rel_step: "rel t s a \<Longrightarrow> admits t (op # ops) \<Longrightarrow>
      rel (time t op) (snd (cstep s op)) (snd (astep a op))"
begin

lemma replies_agree:
  "rel t s a \<Longrightarrow> admits t ops \<Longrightarrow>
   fst (replies cstep s ops) = fst (replies astep a ops) \<and>
   rel (foldl time t ops) (snd (replies cstep s ops)) (snd (replies astep a ops))"
proof (induction ops arbitrary: t s a)
  case Nil
  then show ?case by simp
next
  case (Cons op ops)
  then show ?case
    using Cons.IH [OF rel_step [OF Cons.prems] admits_rest [OF Cons.prems(2)]]
      same_reply [OF Cons.prems]
    by (simp add: replies_Cons del: replies.simps)
qed

end

section \<open>Dictionaries\<close>

text \<open>
  The part of \<^verbatim>\<open>std::unordered_map\<close> the sources use. \<open>entries\<close> lists the bindings in
  iteration order.
\<close>

locale dictionary =
  fixes find :: "'k \<Rightarrow> 'm \<Rightarrow> 'v option"
    and store :: "'k \<Rightarrow> 'v \<Rightarrow> 'm \<Rightarrow> 'm"
    and erase :: "'k \<Rightarrow> 'm \<Rightarrow> 'm"
    and entries :: "'m \<Rightarrow> ('k \<times> 'v) list"
    and wf :: "'m \<Rightarrow> bool"
  assumes find_store: "wf m \<Longrightarrow> find j (store k v m) = (if j = k then Some v else find j m)"
    and find_erase: "wf m \<Longrightarrow> find j (erase k m) = (if j = k then None else find j m)"
    and wf_store: "wf m \<Longrightarrow> wf (store k v m)"
    and wf_erase: "wf m \<Longrightarrow> wf (erase k m)"
    and find_entries: "wf m \<Longrightarrow> find k m = Some v \<longleftrightarrow> (k, v) \<in> set (entries m)"
    and distinct_entries: "wf m \<Longrightarrow> distinct (map fst (entries m))"
begin

lemma entries_store:
  "wf m \<Longrightarrow> set (entries (store k v m)) = insert (k, v) {b \<in> set (entries m). fst b \<noteq> k}"
  by (auto simp flip: find_entries simp: find_store wf_store split: if_splits)

lemma entries_erase:
  "wf m \<Longrightarrow> set (entries (erase k m)) = {b \<in> set (entries m). fst b \<noteq> k}"
  by (auto simp flip: find_entries simp: find_erase wf_erase split: if_splits)

lemma keys_store: "wf m \<Longrightarrow> fst ` set (entries (store k v m)) = insert k (fst ` set (entries m))"
  by (auto simp: entries_store image_iff)

lemma keys_erase: "wf m \<Longrightarrow> fst ` set (entries (erase k m)) = fst ` set (entries m) - {k}"
  by (auto simp: entries_erase image_iff)

end

text \<open>
  \<^verbatim>\<open>find\<close>, \<^verbatim>\<open>erase(iterator)\<close>, and the two ways of storing: assignment through an iterator
  keeps the position of the binding, \<^verbatim>\<open>emplace\<close> adds one that was absent.
\<close>

fun um_find :: "'k \<Rightarrow> ('k \<times> 'v) list \<Rightarrow> 'v option" where
  "um_find k [] = None"
| "um_find k ((j, v) # m) = (if j = k then Some v else um_find k m)"

fun um_erase :: "'k \<Rightarrow> ('k \<times> 'v) list \<Rightarrow> ('k \<times> 'v) list" where
  "um_erase k [] = []"
| "um_erase k ((j, v) # m) = (if j = k then m else (j, v) # um_erase k m)"

fun um_store :: "'k \<Rightarrow> 'v \<Rightarrow> ('k \<times> 'v) list \<Rightarrow> ('k \<times> 'v) list" where
  "um_store k v [] = [(k, v)]"
| "um_store k v ((j, w) # m) = (if j = k then (j, v) # m else (j, w) # um_store k v m)"

definition um_wf :: "('k \<times> 'v) list \<Rightarrow> bool" where
  "um_wf m = distinct (map fst m)"

lemma um_find_map_of: "um_find k m = map_of m k"
  by (induction k m rule: um_find.induct) simp_all

lemma um_find_None: "um_find k m = None \<longleftrightarrow> k \<notin> fst ` set m"
  by (simp add: um_find_map_of map_of_eq_None_iff)

lemma um_wf_Cons: "um_wf ((k, v) # m) \<longleftrightarrow> um_find k m = None \<and> um_wf m"
  by (simp add: um_wf_def um_find_None)

lemma set_um_erase: "um_wf m \<Longrightarrow> set (um_erase k m) = {b \<in> set m. fst b \<noteq> k}"
  by (induction k m rule: um_erase.induct) (force simp: um_wf_def)+

lemma um_find_erase_None: "um_find j m = None \<Longrightarrow> um_find j (um_erase k m) = None"
  by (induction k m rule: um_erase.induct) (auto split: if_splits)

lemma um_keys_store: "set (map fst (um_store k v m)) = insert k (set (map fst m))"
  by (induction k v m rule: um_store.induct) auto

lemma um_find_store: "um_find j (um_store k v m) = (if j = k then Some v else um_find j m)"
  by (induction k v m rule: um_store.induct) auto

lemma um_store_store [simp]: "um_store k v (um_store k w m) = um_store k v m"
  by (induction k w m rule: um_store.induct) auto

lemma um_wf_Nil [simp]: "um_wf []"
  by (simp add: um_wf_def)

interpretation um: dictionary um_find um_store um_erase "\<lambda>m. m" um_wf
proof
  fix m :: "('k \<times> 'v) list" and j k :: 'k and v :: 'v
  assume wf: "um_wf m"
  show "um_find j (um_store k v m) = (if j = k then Some v else um_find j m)"
    by (rule um_find_store)
  show "um_find j (um_erase k m) = (if j = k then None else um_find j m)"
    using wf by (induction k m rule: um_erase.induct) (auto simp: um_wf_Cons)
  show "um_wf (um_store k v m)"
    using wf by (induction k v m rule: um_store.induct)
      (auto simp: um_wf_def um_keys_store [unfolded set_map])
  show "um_wf (um_erase k m)"
    using wf by (induction k m rule: um_erase.induct)
      (auto simp: um_wf_Cons um_find_erase_None)
  show "um_find k m = Some v \<longleftrightarrow> (k, v) \<in> set m"
    using wf by (simp add: um_find_map_of um_wf_def)
  show "distinct (map fst m)"
    using wf by (simp add: um_wf_def)
qed

lemmas um_facts = um.find_store um.find_erase um.wf_store um.wf_erase

text \<open>A weight summed over the bindings follows every update.\<close>

definition um_sum :: "('v \<Rightarrow> 'n::comm_monoid_add) \<Rightarrow> ('k \<times> 'v) list \<Rightarrow> 'n" where
  "um_sum w m = sum_list (map (w \<circ> snd) m)"

lemma um_sum_simps [simp]:
  "um_sum w [] = 0"
  "um_sum w ((k, v) # m) = w v + um_sum w m"
  "um_sum w (m @ m') = um_sum w m + um_sum w m'"
  by (simp_all add: um_sum_def)

lemma um_sum_concat: "sum_list (map (um_sum w) ms) = um_sum w (concat ms)"
  by (induction ms) simp_all

lemma um_sum_erase:
  fixes w :: "'v \<Rightarrow> 'n::ab_group_add"
  shows "um_find k m = Some v \<Longrightarrow> um_sum w (um_erase k m) = um_sum w m - w v"
  by (induction k m rule: um_erase.induct) (auto simp: algebra_simps split: if_splits)

lemma um_sum_store:
  fixes w :: "'v \<Rightarrow> 'n::ab_group_add"
  shows "um_sum w (um_store k v m) =
    um_sum w m + w v - (case um_find k m of None \<Rightarrow> 0 | Some u \<Rightarrow> w u)"
  by (induction k v m rule: um_store.induct) (auto simp: algebra_simps split: option.splits)

lemma um_sum_replace:
  fixes w :: "'v \<Rightarrow> nat"
  shows "um_find k m = Some u \<Longrightarrow> um_sum w (um_store k v m) + w u = um_sum w m + w v"
  by (induction k v m rule: um_store.induct) (auto split: if_splits)

lemma um_sum_erase_le:
  fixes w :: "'v \<Rightarrow> nat"
  shows "um_sum w (um_erase k m) \<le> um_sum w m"
  by (induction k m rule: um_erase.induct) (auto split: if_splits)

lemma um_erase_shorter: "um_find k m = Some v \<Longrightarrow> length (um_erase k m) < length m"
  by (induction k m rule: um_erase.induct) (auto split: if_splits)

lemma um_erase_absent: "um_find k m = None \<Longrightarrow> um_erase k m = m"
  by (induction k m rule: um_erase.induct) (auto split: if_splits)

lemma um_wf_filter [simp]: "um_wf m \<Longrightarrow> um_wf (filter P m)"
  by (simp add: um_wf_def distinct_map_filter)

lemma um_find_filter:
  "um_wf m \<Longrightarrow> um_find k (filter P m) =
    (case um_find k m of None \<Rightarrow> None | Some v \<Rightarrow> if P (k, v) then Some v else None)"
  by (induction m) (auto simp: um_wf_def um_find_map_of map_of_eq_None_iff split: option.splits)

end
