(* ===== verification/Binary.thy ===== *)
theory Binary
  imports Prelude
begin

text \<open>
  The little-endian writers and readers of \<^verbatim>\<open>include/novacache/persistence/binary.hpp\<close>.
  A writer appends to the string it is given; a reader returns the value and the input
  left after \<^verbatim>\<open>remove_prefix\<close>, or throws when the input is too short. Every pair is a
  \<open>strict_codec\<close>: reading inverts writing, and a truncated encoding is always rejected.
\<close>

section \<open>Writers\<close>

definition bytes_u16 :: "u16 \<Rightarrow> string" where
  "bytes_u16 value = map byte_char [ucast (value AND 0xff), ucast (drop_bit 8 value AND 0xff)]"

definition bytes_u32 :: "u32 \<Rightarrow> string" where
  "bytes_u32 value = map byte_char
     [ucast (value AND 0xff), ucast (drop_bit 8 value AND 0xff),
      ucast (drop_bit 16 value AND 0xff), ucast (drop_bit 24 value AND 0xff)]"

definition bytes_u64 :: "u64 \<Rightarrow> string" where
  "bytes_u64 value = map byte_char
     [ucast (value AND 0xff), ucast (drop_bit 8 value AND 0xff),
      ucast (drop_bit 16 value AND 0xff), ucast (drop_bit 24 value AND 0xff),
      ucast (drop_bit 32 value AND 0xff), ucast (drop_bit 40 value AND 0xff),
      ucast (drop_bit 48 value AND 0xff), ucast (drop_bit 56 value AND 0xff)]"

definition append_u8 :: "string \<Rightarrow> u8 \<Rightarrow> string" where
  "append_u8 out value = out @ [byte_char value]"

definition append_u16 :: "string \<Rightarrow> u16 \<Rightarrow> string" where
  "append_u16 out value = out @ bytes_u16 value"

definition append_u32 :: "string \<Rightarrow> u32 \<Rightarrow> string" where
  "append_u32 out value = out @ bytes_u32 value"

definition append_u64 :: "string \<Rightarrow> u64 \<Rightarrow> string" where
  "append_u64 out value = out @ bytes_u64 value"

text \<open>\<^verbatim>\<open>static_cast<std::uint64_t>\<close> of a signed 64-bit integer keeps the bits.\<close>

definition append_i64 :: "string \<Rightarrow> i64 \<Rightarrow> string" where
  "append_i64 out value = append_u64 out value"

definition append_bytes :: "string \<Rightarrow> string \<Rightarrow> string" where
  "append_bytes out value = append_u32 out (of_nat (length value)) @ value"

section \<open>Readers\<close>

definition read_u8 :: "u8 reader" where
  "read_u8 input =
     (if length input < 1 then Inl (Runtime_error ''truncated input while reading u8'')
      else Inr (char_byte (input ! 0), drop 1 input))"

definition read_u16 :: "u16 reader" where
  "read_u16 input =
     (if length input < 2 then Inl (Runtime_error ''truncated input while reading u16'')
      else Inr (ucast (char_byte (input ! 0)) OR push_bit 8 (ucast (char_byte (input ! 1))),
                drop 2 input))"

definition read_u32 :: "u32 reader" where
  "read_u32 input =
     (if length input < 4 then Inl (Runtime_error ''truncated input while reading u32'')
      else Inr (ucast (char_byte (input ! 0)) OR
                push_bit 8 (ucast (char_byte (input ! 1))) OR
                push_bit 16 (ucast (char_byte (input ! 2))) OR
                push_bit 24 (ucast (char_byte (input ! 3))),
                drop 4 input))"

definition read_u64 :: "u64 reader" where
  "read_u64 input =
     (if length input < 8 then Inl (Runtime_error ''truncated input while reading u64'')
      else Inr (foldl (\<lambda>value index. value OR
                         push_bit (8 * index) (ucast (char_byte (input ! index))))
                      0 [0, 1, 2, 3, 4, 5, 6, 7],
                drop 8 input))"

definition read_i64 :: "i64 reader" where
  "read_i64 input = read_u64 input"

definition read_bytes :: "string reader" where
  "read_bytes input =
     bindE (read_u32 input) (\<lambda>(len, rest).
       if length rest < unat len
       then Inl (Runtime_error ''truncated input while reading bytes'')
       else Inr (take (unat len) rest, drop (unat len) rest))"

section \<open>The writers and readers are strict codecs\<close>

lemma length_bytes [simp]:
  "length (bytes_u16 h) = 2" "length (bytes_u32 w) = 4" "length (bytes_u64 d) = 8"
  by (simp_all add: bytes_u16_def bytes_u32_def bytes_u64_def)

lemma append_i64_eq_u64: "append_i64 = append_u64" and read_i64_eq_u64: "read_i64 = read_u64"
  by (simp_all add: fun_eq_iff append_i64_def read_i64_def)

lemmas append_defs =
  append_u8_def append_u16_def append_u32_def append_u64_def append_i64_def append_bytes_def

lemmas word_join = byte_simps unsigned_ucast_eq or.assoc [symmetric] take_bit_word_eq_self

text \<open>The bytes a writer adds do not depend on what is already in the string.\<close>

lemma append_out:
  "append_u8 out b = out @ append_u8 [] b"
  "append_u16 out h = out @ append_u16 [] h"
  "append_u32 out w = out @ append_u32 [] w"
  "append_u64 out d = out @ append_u64 [] d"
  "append_i64 out d = out @ append_i64 [] d"
  "append_bytes out s = out @ append_bytes [] s"
  by (simp_all add: append_defs)

text \<open>A reader that only looks at the length first rejects every shorter input.\<close>

lemma short_reads:
  "length p < 1 \<Longrightarrow> \<exists>e. read_u8 p = Inl e"
  "length p < 2 \<Longrightarrow> \<exists>e. read_u16 p = Inl e"
  "length p < 4 \<Longrightarrow> \<exists>e. read_u32 p = Inl e"
  "length p < 8 \<Longrightarrow> \<exists>e. read_u64 p = Inl e"
  by (simp_all add: read_u8_def read_u16_def read_u32_def read_u64_def)

interpretation u8: strict_codec "append_u8 []" read_u8 "\<lambda>_. True"
  by unfold_locales
    (simp add: append_u8_def read_u8_def,
     use short_reads(1) proper_prefix_length in \<open>fastforce simp: append_u8_def\<close>)

interpretation u16: strict_codec "append_u16 []" read_u16 "\<lambda>_. True"
proof
  fix x r
  show "read_u16 (append_u16 [] x @ r) = Inr (x, r)"
    by (simp add: append_u16_def bytes_u16_def read_u16_def word_join)
next
  fix x p
  assume "strict_prefix p (append_u16 [] x)"
  then have "length p < 2" by (drule_tac proper_prefix_length) (simp add: append_u16_def)
  then show "\<exists>e. read_u16 p = Inl e" by (rule short_reads)
qed

interpretation u32: strict_codec "append_u32 []" read_u32 "\<lambda>_. True"
proof
  fix x r
  show "read_u32 (append_u32 [] x @ r) = Inr (x, r)"
    by (simp add: append_u32_def bytes_u32_def read_u32_def word_join)
next
  fix x p
  assume "strict_prefix p (append_u32 [] x)"
  then have "length p < 4" by (drule_tac proper_prefix_length) (simp add: append_u32_def)
  then show "\<exists>e. read_u32 p = Inl e" by (rule short_reads)
qed

interpretation u64: strict_codec "append_u64 []" read_u64 "\<lambda>_. True"
proof
  fix x r
  show "read_u64 (append_u64 [] x @ r) = Inr (x, r)"
    by (simp add: append_u64_def bytes_u64_def read_u64_def word_join)
next
  fix x p
  assume "strict_prefix p (append_u64 [] x)"
  then have "length p < 8" by (drule_tac proper_prefix_length) (simp add: append_u64_def)
  then show "\<exists>e. read_u64 p = Inl e" by (rule short_reads)
qed

interpretation i64: strict_codec "append_i64 []" read_i64 "\<lambda>_. True"
  unfolding append_i64_eq_u64 read_i64_eq_u64 by unfold_locales

text \<open>A byte string is written with a 32-bit length in front of it.\<close>

definition fits_u32 :: "'a list \<Rightarrow> bool" where
  "fits_u32 xs \<longleftrightarrow> length xs < 2 ^ 32"

lemma unat_length_u32: "fits_u32 xs \<Longrightarrow> unat (of_nat (length xs) :: u32) = length xs"
  by (rule unat_of_nat_small) (simp add: fits_u32_def)

lemma append_bytes_Nil: "append_bytes [] s = append_u32 [] (of_nat (length s)) @ s"
  by (simp add: append_bytes_def)

interpretation bytes: strict_codec "append_bytes []" read_bytes fits_u32
proof
  fix x r :: string
  assume "fits_u32 x"
  then show "read_bytes (append_bytes [] x @ r) = Inr (x, r)"
    by (simp add: append_bytes_Nil read_bytes_def u32.dec_enc unat_length_u32)
next
  fix x p :: string
  assume ok: "fits_u32 x" and pre: "strict_prefix p (append_bytes [] x)"
  from pre [unfolded append_bytes_Nil] show "\<exists>e. read_bytes p = Inl e"
  proof (cases rule: strict_prefix_append_cases)
    case 1
    then show ?thesis using u32.dec_truncated by (fastforce simp: read_bytes_def)
  next
    case (2 q)
    then show ?thesis
      using proper_prefix_length by (simp add: read_bytes_def u32.dec_enc unat_length_u32 [OF ok])
  qed
qed

end
