(* ===== verification/Crc32.thy ===== *)
theory Crc32
  imports Binary
begin

text \<open>
  The checksum of \<^verbatim>\<open>src/persistence/crc32.cpp\<close>: the 256-entry table, the byte loop over
  it, and the two entry points. The lemmas relate the table-driven loop to the bit-by-bit
  definition of the reflected CRC-32, and show that the checksum detects every corruption
  confined to four consecutive bytes.
\<close>

section \<open>The source\<close>

definition crc_bit :: "u32 \<Rightarrow> u32" where
  "crc_bit crc = (if crc AND 1 \<noteq> 0 then 0xEDB88320 XOR drop_bit 1 crc else drop_bit 1 crc)"

definition crc_entry :: "u32 \<Rightarrow> u32" where
  "crc_entry index = (crc_bit ^^ 8) index"

definition crc_table :: "u32 list" where
  "crc_table = map (\<lambda>index. crc_entry (of_nat index)) [0..<256]"

definition crc_byte :: "u32 \<Rightarrow> char \<Rightarrow> u32" where
  "crc_byte crc byte =
     (let index = ucast (crc XOR ucast (char_byte byte)) :: u8
      in crc_table ! unat index XOR drop_bit 8 crc)"

definition crc32_update :: "u32 \<Rightarrow> string \<Rightarrow> u32" where
  "crc32_update crc data = NOT (foldl crc_byte (NOT crc) data)"

definition crc32 :: "string \<Rightarrow> u32" where
  "crc32 data = crc32_update 0 data"

section \<open>The bit-by-bit reference\<close>

definition crc_byte_ref :: "u32 \<Rightarrow> char \<Rightarrow> u32" where
  "crc_byte_ref crc byte = (crc_bit ^^ 8) (crc XOR ucast (char_byte byte))"

definition crc32_ref :: "string \<Rightarrow> u32" where
  "crc32_ref data = NOT (foldl crc_byte_ref (NOT 0) data)"

lemma crc_bit_odd: "crc_bit x = (if bit x 0 then 0xEDB88320 XOR drop_bit 1 x else drop_bit 1 x)"
  by (auto simp: crc_bit_def and_one_eq bit_0 odd_iff_mod_2_eq_one)

lemma crc_bit_xor: "crc_bit (x XOR y) = crc_bit x XOR crc_bit y"
  by (simp add: crc_bit_odd bit_simps xor.assoc xor.left_commute drop_bit_xor)

lemma crc_bit_0: "crc_bit 0 = 0"
  by (simp add: crc_bit_def)

lemma crc_bits_xor: "(crc_bit ^^ n) (x XOR y) = (crc_bit ^^ n) x XOR (crc_bit ^^ n) y"
  by (induction n) (simp_all add: crc_bit_xor)

lemma crc_bits_shift: "take_bit n x = 0 \<Longrightarrow> (crc_bit ^^ n) x = drop_bit n x"
proof (induction n)
  case 0
  then show ?case by simp
next
  case (Suc n)
  have "\<not> bit x n"
    using Suc.prems by (metis bit_take_bit_iff bit_0_eq bot_apply bot_bool_def lessI)
  moreover have "take_bit n x = 0"
    using Suc.prems by (metis take_bit_of_0 take_bit_take_bit min_def le_SucI le_refl)
  ultimately show ?case
    using Suc.IH by (simp add: crc_bit_odd bit_simps drop_bit_drop_bit)
qed

lemma crc_bits_split:
  "(crc_bit ^^ n) x = (crc_bit ^^ n) (take_bit n x) XOR drop_bit n x"
proof -
  let ?hi = "push_bit n (drop_bit n x)"
  have "x = take_bit n x XOR ?hi"
    by (rule bit_word_eqI) (auto simp: bit_simps)
  then have "(crc_bit ^^ n) x = (crc_bit ^^ n) (take_bit n x) XOR (crc_bit ^^ n) ?hi"
    by (metis crc_bits_xor)
  moreover have "(crc_bit ^^ n) ?hi = drop_bit n ?hi"
    by (rule crc_bits_shift) (simp add: take_bit_push_bit)
  moreover have "drop_bit n ?hi = drop_bit n x"
    by (rule bit_word_eqI) (auto simp: bit_simps dest: bit_imp_le_length)
  ultimately show ?thesis by simp
qed

lemma crc_table_nth: "crc_table ! unat (b :: u8) = crc_entry (ucast b)"
proof -
  have "unat b < 256" using unsigned_less [of b] by simp
  then show ?thesis by (simp add: crc_table_def)
qed

lemma crc_byte_eq_ref: "crc_byte = crc_byte_ref"
proof (intro ext)
  fix crc :: u32 and byte :: char
  let ?x = "crc XOR ucast (char_byte byte)"
  have lo: "ucast (ucast ?x :: u8) = take_bit 8 ?x"
    by (simp add: unsigned_ucast_eq)
  have hi: "drop_bit 8 (ucast (char_byte byte) :: u32) = 0"
    by (rule bit_word_eqI) (auto simp: bit_simps dest: bit_imp_le_length)
  show "crc_byte crc byte = crc_byte_ref crc byte"
    using crc_bits_split [of 8 ?x]
    by (simp add: crc_byte_def crc_byte_ref_def crc_table_nth crc_entry_def lo hi)
qed

lemma crc32_unfold: "crc32 data = NOT (foldl crc_byte_ref (NOT 0) data)"
  by (simp add: crc32_def crc32_update_def crc_byte_eq_ref)

section \<open>Detection of corrupted bytes\<close>

lemma xor_eq_0: "x XOR y = 0 \<longleftrightarrow> x = (y :: 'a::len word)"
  by (auto intro!: bit_word_eqI simp: bit_eq_iff bit_simps)

lemma xor_cancel:
  fixes x y z :: "'a::len word"
  shows "x XOR y = x XOR z \<longleftrightarrow> y = z" "y XOR x = z XOR x \<longleftrightarrow> y = z"
  by (auto simp: bit_eq_iff bit_simps)

lemma crc_bit_eq_0: "crc_bit x = 0 \<longleftrightarrow> x = 0"
proof
  assume z: "crc_bit x = 0"
  have "bit (0xEDB88320 :: u32) 31" by simp
  then have "bit (crc_bit x) 31 = bit x 0"
    by (auto simp: crc_bit_odd bit_simps dest: bit_imp_le_length)
  with z have "\<not> bit x 0" by simp
  with z have "drop_bit 1 x = 0" by (simp add: crc_bit_odd)
  with \<open>\<not> bit x 0\<close> show "x = 0"
    by (metis bits_ident add.right_neutral add.left_neutral bit_0 even_iff_mod_2_eq_zero
        push_bit_of_0 take_bit_Suc_0 One_nat_def take_bit_0)
qed (simp add: crc_bit_0)

lemma crc_bits_inject: "(crc_bit ^^ n) x = (crc_bit ^^ n) y \<longleftrightarrow> x = y"
proof -
  have z: "(crc_bit ^^ n) w = 0 \<longleftrightarrow> w = 0" for w
    by (induction n) (simp_all add: crc_bit_eq_0)
  have "(crc_bit ^^ n) x = (crc_bit ^^ n) y \<longleftrightarrow> (crc_bit ^^ n) (x XOR y) = 0"
    by (simp add: crc_bits_xor xor_eq_0)
  also have "\<dots> \<longleftrightarrow> x = y" by (simp add: z xor_eq_0)
  finally show ?thesis .
qed

text \<open>
  Up to four bytes are absorbed as one little-endian word: feeding them one after the
  other is the same as adding the word and stepping all its bits.
\<close>

fun pack :: "string \<Rightarrow> u32" where
  "pack [] = 0"
| "pack (c # w) = ucast (char_byte c) XOR push_bit 8 (pack w)"

lemma pack_bit_bound: "bit (pack w) n \<Longrightarrow> n < 8 * length w"
proof (induction w arbitrary: n)
  case Nil
  then show ?case by simp
next
  case (Cons c w)
  then show ?case
    using bit_imp_le_length [of "char_byte c" n] Cons.IH [of "n - 8"]
    by (fastforce simp: bit_simps)
qed

lemma drop_push_pack: "length w < 4 \<Longrightarrow> drop_bit 8 (push_bit 8 (pack w)) = pack w"
  by (rule bit_word_eqI) (use pack_bit_bound in \<open>fastforce simp: bit_simps\<close>)

lemma crc_bytes_pack:
  "length w \<le> 4 \<Longrightarrow> foldl crc_byte_ref s w = (crc_bit ^^ (8 * length w)) (s XOR pack w)"
proof (induction w arbitrary: s)
  case Nil
  then show ?case by simp
next
  case (Cons c w)
  let ?x = "s XOR ucast (char_byte c)" and ?p = "push_bit 8 (pack w)"
  have "(crc_bit ^^ 8) (?x XOR ?p) = (crc_bit ^^ 8) ?x XOR pack w"
    using Cons.prems drop_push_pack [of w]
    by (simp add: crc_bits_xor crc_bits_shift [of 8 ?p] take_bit_push_bit)
  then show ?case
    using Cons funpow_add [of "8 * length w" 8 crc_bit]
    by (simp add: crc_byte_ref_def add.commute xor.assoc)
qed

lemma pack_inject:
  "length w = length w' \<Longrightarrow> length w \<le> 4 \<Longrightarrow> pack w = pack w' \<Longrightarrow> w = w'"
proof (induction w w' rule: list_induct2)
  case Nil
  then show ?case by simp
next
  case (Cons c w d w')
  have lo: "ucast (pack (b # v)) = char_byte b" for b v
    by (rule bit_word_eqI) (auto simp: bit_simps)
  have "c = d" using lo [of c w] lo [of d w'] Cons.prems(2) by simp
  moreover have "push_bit 8 (pack w) = push_bit 8 (pack w')"
    using Cons.prems(2) \<open>c = d\<close> by (simp add: xor_cancel)
  from arg_cong [OF this, of "drop_bit 8"] have "pack w = pack w'"
    using Cons.prems(1) Cons.hyps by (simp add: drop_push_pack)
  ultimately show ?case using Cons by simp
qed

lemma crc_bytes_inject: "foldl crc_byte_ref s ys = foldl crc_byte_ref t ys \<longleftrightarrow> s = t"
  by (induction ys arbitrary: s t) (simp_all add: crc_byte_ref_def crc_bits_inject xor_cancel)

lemma crc32_burst:
  assumes "length w = length w'" and "length w \<le> 4" and "w \<noteq> w'"
  shows "crc32 (xs @ w @ ys) \<noteq> crc32 (xs @ w' @ ys)"
proof
  let ?s = "foldl crc_byte_ref (NOT 0) xs"
  assume "crc32 (xs @ w @ ys) = crc32 (xs @ w' @ ys)"
  then have "foldl crc_byte_ref ?s w = foldl crc_byte_ref ?s w'"
    by (simp add: crc32_unfold crc_bytes_inject)
  then have "?s XOR pack w = ?s XOR pack w'"
    using assms(1,2) by (simp add: crc_bytes_pack crc_bits_inject)
  then have "pack w = pack w'"
    by (simp add: xor_cancel)
  then show False using assms pack_inject by blast
qed

section \<open>Properties\<close>

text \<open>
  C16: the table-driven checksum of the source computes the bit-by-bit reflected CRC-32
  (polynomial 0xEDB88320, initial value and final complement of all ones).
\<close>

theorem crc32_eq_ref: "crc32 data = crc32_ref data"
  by (simp add: crc32_unfold crc32_ref_def)

text \<open>
  C17: the checksum detects every corruption confined to at most four consecutive bytes:
  two inputs that differ inside such a window, and only there, have different checksums.
\<close>

theorem crc32_detects_burst:
  assumes "length w = length w'" and "length w \<le> 4" and "w \<noteq> w'"
  shows "crc32 (xs @ w @ ys) \<noteq> crc32 (xs @ w' @ ys)"
  using assms by (rule crc32_burst)

theorem crc32_detects_burst_witness:
  "crc32 (''1234'' @ ''5678'' @ ''9'') \<noteq> crc32 (''1234'' @ ''0678'' @ ''9'')"
  by (rule crc32_detects_burst) simp_all

text \<open>The published check value of CRC-32, evaluated in the kernel.\<close>

lemma crc_bits_8:
  "(crc_bit ^^ 8) x =
     crc_bit (crc_bit (crc_bit (crc_bit (crc_bit (crc_bit (crc_bit (crc_bit x)))))))"
  by (simp add: numeral_eq_Suc)

lemma crc32_check_value: "crc32 ''123456789'' = 0xCBF43926"
proof -
  have "foldl crc_byte_ref 0xFFFFFFFF ''123456789'' = 0x340BC6D9"
    by (simp add: crc_byte_ref_def crc_bits_8 crc_bit_def char_byte_def)
  moreover have "NOT 0 = (0xFFFFFFFF :: u32)" "NOT (0x340BC6D9 :: u32) = 0xCBF43926"
    by simp_all
  ultimately show ?thesis by (simp only: crc32_unfold)
qed

end
