(* ===== verification/Charconv.thy ===== *)
theory Charconv
  imports Prelude
begin

text \<open>
  The two functions of \<^verbatim>\<open><charconv>\<close> the sources call: \<^verbatim>\<open>std::from_chars\<close> and
  \<^verbatim>\<open>std::to_chars\<close> on integers in base ten. \<open>from_chars\<close> takes the bounds of the integer
  type; a minus sign is part of the pattern for signed types only, a plus sign or white
  space never is. It returns the error code, the text from \<^verbatim>\<open>result.ptr\<close> on and the value
  (the initial zero of the caller's variable when the conversion fails).
\<close>

datatype errc = Ec_ok | Ec_invalid_argument | Ec_result_out_of_range

definition is_digit :: "char \<Rightarrow> bool" where
  "is_digit c \<longleftrightarrow> CHR ''0'' \<le> c \<and> c \<le> CHR ''9''"

definition digit_value :: "char \<Rightarrow> nat" where
  "digit_value c = of_char c - 48"

definition dec_value :: "string \<Rightarrow> nat" where
  "dec_value digits = foldl (\<lambda>acc c. 10 * acc + digit_value c) 0 digits"

definition from_chars :: "int \<Rightarrow> int \<Rightarrow> string \<Rightarrow> errc \<times> string \<times> int" where
  "from_chars lo hi txt =
     (let neg = (lo < 0 \<and> txt \<noteq> [] \<and> hd txt = CHR ''-'');
          body = (if neg then tl txt else txt);
          digits = takeWhile is_digit body;
          rest = dropWhile is_digit body;
          value = (if neg then - int (dec_value digits) else int (dec_value digits))
      in if digits = [] then (Ec_invalid_argument, txt, 0)
         else if value < lo \<or> hi < value then (Ec_result_out_of_range, rest, 0)
         else (Ec_ok, rest, value))"

abbreviation int64_min :: int where "int64_min \<equiv> - (2 ^ 63)"

abbreviation int64_max :: int where "int64_max \<equiv> 2 ^ 63 - 1"

fun show_nat :: "nat \<Rightarrow> string" where
  "show_nat n = (if n < 10 then [char_of (48 + n)]
                 else show_nat (n div 10) @ [char_of (48 + n mod 10)])"

declare show_nat.simps [simp del]

definition show_int :: "int \<Rightarrow> string" where
  "show_int v = (if v < 0 then CHR ''-'' # show_nat (nat (- v)) else show_nat (nat v))"

text \<open>\<^verbatim>\<open>std::to_chars\<close> into a buffer of the given size; \<open>None\<close> is \<^verbatim>\<open>errc::value_too_large\<close>.\<close>

definition to_chars :: "nat \<Rightarrow> int \<Rightarrow> string option" where
  "to_chars buf v = (if length (show_int v) \<le> buf then Some (show_int v) else None)"

text \<open>Equations that evaluate the printers on numerals.\<close>

lemmas show_eval = show_int_def show_nat.simps char_of_def bit_0

section \<open>Printing and reading invert each other\<close>

lemma digit_char:
  assumes "d < 10"
  shows "is_digit (char_of (48 + d :: nat))" "digit_value (char_of (48 + d :: nat)) = d"
  using assms by (simp_all add: is_digit_def digit_value_def less_eq_char_def)

lemma show_nat_digits: "c \<in> set (show_nat n) \<Longrightarrow> is_digit c"
proof (induction n rule: show_nat.induct)
  case (1 n)
  then show ?case by (subst (asm) show_nat.simps) (auto split: if_splits simp: digit_char)
qed

lemma show_nat_not_Nil [simp]: "show_nat n \<noteq> []"
  by (subst show_nat.simps) simp

lemma dec_value_show_nat: "dec_value (show_nat n) = n"
proof (induction n rule: show_nat.induct)
  case (1 n)
  show ?case
  proof (cases "n < 10")
    case True
    then show ?thesis by (subst show_nat.simps) (simp add: dec_value_def digit_char)
  next
    case False
    then show ?thesis
      using 1 by (subst show_nat.simps) (simp add: dec_value_def digit_char)
  qed
qed

lemma length_show_nat: "n < 10 ^ Suc k \<Longrightarrow> length (show_nat n) \<le> Suc k"
proof (induction k arbitrary: n)
  case 0
  then show ?case by (subst show_nat.simps) simp
next
  case (Suc k)
  then have "n div 10 < 10 ^ Suc k" by (simp add: less_mult_imp_div_less)
  then have "length (show_nat (n div 10)) \<le> Suc k" by (rule Suc.IH)
  then show ?case by (subst show_nat.simps) simp
qed

lemma takeWhile_show_nat:
  "rest = [] \<or> \<not> is_digit (hd rest) \<Longrightarrow> takeWhile is_digit (show_nat n @ rest) = show_nat n"
  by (cases rest) (auto simp: takeWhile_append2 show_nat_digits takeWhile_eq_all_conv)

lemma dropWhile_show_nat:
  "rest = [] \<or> \<not> is_digit (hd rest) \<Longrightarrow> dropWhile is_digit (show_nat n @ rest) = rest"
  by (cases rest) (auto simp: dropWhile_append2 show_nat_digits dropWhile_eq_Nil_conv)

lemma hd_show_nat: "is_digit (hd (show_nat n))"
  by (rule show_nat_digits [of _ n]) simp

lemma takeWhile_show_nat_all [simp]:
  "takeWhile is_digit (show_nat n) = show_nat n" "dropWhile is_digit (show_nat n) = []"
  using takeWhile_show_nat [of "[]" n] dropWhile_show_nat [of "[]" n] by simp_all

lemma not_digit_signs: "\<not> is_digit (CHR ''-'')" "\<not> is_digit (CHR ''+'')"
  by (simp_all add: is_digit_def)

lemma show_int_not_Nil [simp]: "show_int v \<noteq> []"
  by (simp add: show_int_def)

lemma hd_show_int: "hd (show_int v) \<noteq> CHR ''+''"
  using hd_show_nat [of "nat v"] not_digit_signs(2) by (auto simp: show_int_def)

lemma show_int_chars: "c \<in> set (show_int v) \<Longrightarrow> is_digit c \<or> c = CHR ''-''"
  by (auto simp: show_int_def show_nat_digits split: if_splits)

lemma from_chars_show_int:
  assumes "lo \<le> v" and "v \<le> hi"
  shows "from_chars lo hi (show_int v) = (Ec_ok, [], v)"
  using assms hd_show_nat [of "nat v"] not_digit_signs(1)
  by (auto simp: from_chars_def show_int_def dec_value_show_nat Let_def intro: show_nat_digits)

lemma length_show_int_i64:
  assumes "int64_min \<le> v" and "v < 2 ^ 64"
  shows "length (show_int v) \<le> 20"
proof (cases "v < 0")
  case True
  then have "nat (- v) < 10 ^ Suc 18" using assms by simp
  then show ?thesis using True length_show_nat [of "nat (- v)" 18] by (simp add: show_int_def)
next
  case False
  then have "nat v < 10 ^ Suc 19" using assms by simp
  then show ?thesis using False length_show_nat [of "nat v" 19] by (simp add: show_int_def)
qed

text \<open>The 32-byte buffers of the sources are large enough for every 64-bit integer.\<close>

lemma to_chars_i64: "to_chars 32 (sint (v :: i64)) = Some (show_int (sint v))"
  using length_show_int_i64 [of "sint v"] sint_ge [of v] sint_lt [of v] by (simp add: to_chars_def)

lemma to_chars_size: "n < 2 ^ 64 \<Longrightarrow> to_chars 32 (int n) = Some (show_int (int n))"
  using length_show_int_i64 [of "int n"] by (simp add: to_chars_def)

end
