(* ===== verification/Encoder.thy ===== *)
theory Encoder
  imports Charconv
begin

text \<open>
  RESP2 values (\<^verbatim>\<open>include/novacache/protocol/resp_value.hpp\<close>) and their encoder
  (\<^verbatim>\<open>src/protocol/encoder.cpp\<close>). Encoding appends to an output string and throws when a
  simple string or an error contains a carriage return or a line feed. \<open>wire\<close> is the byte
  string of a value as the protocol documents it; the encoder produces exactly it.
\<close>

section \<open>RESP values\<close>

datatype resp_value =
    SimpleString string
  | Error string
  | Integer i64
  | BulkString "string option"
  | Array "resp_value list option"

abbreviation CR :: char where "CR \<equiv> CHR 0x0D"

abbreviation LF :: char where "LF \<equiv> CHR 0x0A"

abbreviation crlf :: string where "crlf \<equiv> [CR, LF]"

section \<open>The encoder\<close>

definition append_number :: "i64 \<Rightarrow> string \<Rightarrow> string result" where
  "append_number value out =
     (case to_chars 32 (sint value) of
        None \<Rightarrow> Inl (Runtime_error ''failed to encode RESP integer'')
      | Some digits \<Rightarrow> Inr (out @ digits))"

definition append_size :: "nat \<Rightarrow> string \<Rightarrow> string result" where
  "append_size value out =
     (case to_chars 32 (int value) of
        None \<Rightarrow> Inl (Runtime_error ''failed to encode RESP length'')
      | Some digits \<Rightarrow> Inr (out @ digits))"

definition append_line :: "char \<Rightarrow> string \<Rightarrow> string \<Rightarrow> string result" where
  "append_line prefx value out =
     (if list_ex (\<lambda>c. c = CR \<or> c = LF) value
      then Inl (Invalid_argument ''RESP line values cannot contain CR or LF'')
      else Inr (out @ [prefx] @ value @ crlf))"

fun append_encoded :: "resp_value \<Rightarrow> string \<Rightarrow> string result"
  and append_items :: "resp_value list \<Rightarrow> string \<Rightarrow> string result"
where
  "append_encoded (SimpleString value) out = append_line (CHR ''+'') value out"
| "append_encoded (Error value) out = append_line (CHR ''-'') value out"
| "append_encoded (Integer value) out =
     bindE (append_number value (out @ '':'')) (\<lambda>out. Inr (out @ crlf))"
| "append_encoded (BulkString None) out = Inr (out @ ''$-1'' @ crlf)"
| "append_encoded (BulkString (Some value)) out =
     bindE (append_size (length value) (out @ ''$''))
       (\<lambda>out. Inr (out @ crlf @ value @ crlf))"
| "append_encoded (Array None) out = Inr (out @ ''*-1'' @ crlf)"
| "append_encoded (Array (Some items)) out =
     bindE (append_size (length items) (out @ ''*''))
       (\<lambda>out. append_items items (out @ crlf))"
| "append_items [] out = Inr out"
| "append_items (item # items) out =
     bindE (append_encoded item out) (\<lambda>out. append_items items out)"

definition encode :: "resp_value \<Rightarrow> string result" where
  "encode value = append_encoded value []"

section \<open>What is encoded\<close>

definition line_safe :: "string \<Rightarrow> bool" where
  "line_safe s \<longleftrightarrow> CR \<notin> set s \<and> LF \<notin> set s"

fun wire :: "resp_value \<Rightarrow> string" where
  "wire (SimpleString s) = ''+'' @ s @ crlf"
| "wire (Error s) = ''-'' @ s @ crlf"
| "wire (Integer v) = '':'' @ show_int (sint v) @ crlf"
| "wire (BulkString None) = ''$-1'' @ crlf"
| "wire (BulkString (Some s)) = ''$'' @ show_nat (length s) @ crlf @ s @ crlf"
| "wire (Array None) = ''*-1'' @ crlf"
| "wire (Array (Some vs)) = ''*'' @ show_nat (length vs) @ crlf @ concat (map wire vs)"

text \<open>
  A value the encoder accepts: no line break inside a line value, and no string or array
  longer than a \<^verbatim>\<open>std::size_t\<close> can count.
\<close>

fun encodable :: "resp_value \<Rightarrow> bool" where
  "encodable (SimpleString s) = line_safe s"
| "encodable (Error s) = line_safe s"
| "encodable (Integer v) = True"
| "encodable (BulkString None) = True"
| "encodable (BulkString (Some s)) = (length s < 2 ^ 64)"
| "encodable (Array None) = True"
| "encodable (Array (Some vs)) = (length vs < 2 ^ 64 \<and> (\<forall>v \<in> set vs. encodable v))"

lemma line_safe_list_ex: "list_ex (\<lambda>c. c = CR \<or> c = LF) s \<longleftrightarrow> \<not> line_safe s"
  by (auto simp: list_ex_iff line_safe_def)

lemma append_size_ok: "n < 2 ^ 64 \<Longrightarrow> append_size n out = Inr (out @ show_nat n)"
  by (simp add: append_size_def to_chars_size show_int_def)

lemma append_number_ok: "append_number v out = Inr (out @ show_int (sint v))"
  by (simp add: append_number_def to_chars_i64)

lemma append_encoded_ok:
  "encodable v \<Longrightarrow> append_encoded v out = Inr (out @ wire v)"
  "\<forall>v \<in> set vs. encodable v \<Longrightarrow> append_items vs out = Inr (out @ concat (map wire vs))"
proof (induction v out and vs out rule: append_encoded_append_items.induct)
  case (7 items out)
  then show ?case by (simp add: append_size_ok)
qed (simp_all add: append_line_def line_safe_list_ex append_number_ok append_size_ok)

lemma append_encoded_fails:
  "append_encoded v out = Inl e \<Longrightarrow> \<not> encodable v"
  using append_encoded_ok(1) by fastforce

text \<open>Sizes of in-memory strings and arrays always fit a \<^verbatim>\<open>std::size_t\<close>.\<close>

fun sized :: "resp_value \<Rightarrow> bool" where
  "sized (BulkString (Some s)) = (length s < 2 ^ 64)"
| "sized (Array (Some vs)) = (length vs < 2 ^ 64 \<and> (\<forall>v \<in> set vs. sized v))"
| "sized _ = True"

lemma encoded_encodable:
  "sized v \<Longrightarrow> append_encoded v out = Inr r \<Longrightarrow> encodable v"
  "\<forall>v \<in> set vs. sized v \<Longrightarrow> append_items vs out = Inr r \<Longrightarrow> \<forall>v \<in> set vs. encodable v"
proof (induction v out and vs out arbitrary: r and r
    rule: append_encoded_append_items.induct)
  case (7 items out)
  then show ?case by (simp add: append_size_ok)
qed (auto simp: append_line_def line_safe_list_ex split: if_splits)

section \<open>Properties\<close>

text \<open>
  C21: for every value whose sizes fit \<^verbatim>\<open>std::size_t\<close>, the encoder succeeds exactly when no
  simple string or error in the value contains a line break, and then it returns the bytes
  of the protocol.
\<close>

theorem encode_correct:
  assumes "sized v"
  shows "encode v = Inr out \<longleftrightarrow> encodable v \<and> out = wire v"
  using append_encoded_ok(1) [of v "[]"] encoded_encodable(1) [OF assms, of "[]"]
  by (auto simp: encode_def)

theorem encode_correct_witness:
  "sized (Array (Some [BulkString (Some ''GET''), Integer 7])) \<and>
   encode (Array (Some [BulkString (Some ''GET''), Integer 7])) =
     Inr (''*2'' @ crlf @ ''$3'' @ crlf @ ''GET'' @ crlf @ '':7'' @ crlf)"
  using encode_correct [of "Array (Some [BulkString (Some ''GET''), Integer 7])"
      "''*2'' @ crlf @ ''$3'' @ crlf @ ''GET'' @ crlf @ '':7'' @ crlf"]
  by (simp add: show_eval)

end
