(* ===== verification/Parser.thy ===== *)
theory Parser
  imports Encoder
begin

text \<open>
  The incremental RESP2 parser (\<^verbatim>\<open>src/protocol/parser.cpp\<close>): the line reader, one function
  per RESP type, and the \<^verbatim>\<open>Parser\<close> object with its buffer. \<open>parse_value\<close> and \<open>parse_array\<close>
  are mutually recursive as in the source; they terminate because the nesting depth is
  checked against \<open>max_depth\<close> before any element is parsed.
\<close>

section \<open>Results and limits\<close>

datatype parse_status = Complete | Incomplete | Malformed | Oversized | Too_deep

record parser_limits =
  max_bulk_size :: nat
  max_array_size :: nat
  max_depth :: nat
  max_buffer_size :: nat

definition default_limits :: parser_limits where
  "default_limits =
     \<lparr>max_bulk_size = 8 * 1024 * 1024, max_array_size = 1024, max_depth = 32,
      max_buffer_size = 16 * 1024 * 1024\<rparr>"

record line_result =
  lr_status :: parse_status
  lr_value :: string
  lr_next :: nat
  lr_message :: string

record value_result =
  vr_status :: parse_status
  vr_value :: "resp_value option"
  vr_consumed :: nat
  vr_message :: string

abbreviation line_incomplete :: line_result where
  "line_incomplete \<equiv> \<lparr>lr_status = Incomplete, lr_value = [], lr_next = 0, lr_message = []\<rparr>"

abbreviation line_malformed :: "string \<Rightarrow> line_result" where
  "line_malformed msg \<equiv> \<lparr>lr_status = Malformed, lr_value = [], lr_next = 0, lr_message = msg\<rparr>"

abbreviation value_incomplete :: value_result where
  "value_incomplete \<equiv>
     \<lparr>vr_status = Incomplete, vr_value = None, vr_consumed = 0, vr_message = []\<rparr>"

abbreviation value_failed :: "parse_status \<Rightarrow> string \<Rightarrow> value_result" where
  "value_failed status msg \<equiv>
     \<lparr>vr_status = status, vr_value = None, vr_consumed = 0, vr_message = msg\<rparr>"

abbreviation value_complete :: "resp_value \<Rightarrow> nat \<Rightarrow> value_result" where
  "value_complete v n \<equiv>
     \<lparr>vr_status = Complete, vr_value = Some v, vr_consumed = n, vr_message = []\<rparr>"

section \<open>Lines and integers\<close>

function read_line_at :: "string \<Rightarrow> nat \<Rightarrow> nat \<Rightarrow> line_result" where
  "read_line_at input start index =
     (if index < length input then
        if input ! index = LF then
          line_malformed ''line feed without preceding carriage return''
        else if input ! index \<noteq> CR then read_line_at input start (index + 1)
        else if index + 1 = length input then line_incomplete
        else if input ! (index + 1) \<noteq> LF then
          line_malformed ''carriage return not followed by line feed''
        else \<lparr>lr_status = Complete, lr_value = take (index - start) (drop start input),
              lr_next = index + 2, lr_message = []\<rparr>
      else line_incomplete)"
  by pat_completeness auto
termination
  by (relation "measure (\<lambda>(input, start, index). length input - index)") auto

declare read_line_at.simps [simp del]

definition read_line :: "string \<Rightarrow> nat \<Rightarrow> line_result" where
  "read_line input start = read_line_at input start start"

text \<open>\<^verbatim>\<open>parse_integer\<close> returns \<^verbatim>\<open>false\<close> (here \<open>None\<close>) or stores the value.\<close>

definition parse_integer :: "string \<Rightarrow> i64 option" where
  "parse_integer txt =
     (if txt = [] \<or> hd txt = CHR ''+'' then None
      else case from_chars int64_min int64_max txt of
             (ec, ptr, value) \<Rightarrow>
               if ec = Ec_ok \<and> ptr = [] then Some (word_of_int value) else None)"

section \<open>Values\<close>

definition parse_line_value :: "string \<Rightarrow> bool \<Rightarrow> value_result" where
  "parse_line_value input is_error =
     (let line = read_line input 1 in
      if lr_status line \<noteq> Complete then value_failed (lr_status line) (lr_message line)
      else if is_error then value_complete (Error (lr_value line)) (lr_next line)
      else value_complete (SimpleString (lr_value line)) (lr_next line))"

definition parse_resp_integer :: "string \<Rightarrow> value_result" where
  "parse_resp_integer input =
     (let line = read_line input 1 in
      if lr_status line \<noteq> Complete then value_failed (lr_status line) (lr_message line)
      else case parse_integer (lr_value line) of
             None \<Rightarrow> value_failed Malformed ''invalid or overflowing integer''
           | Some value \<Rightarrow> value_complete (Integer value) (lr_next line))"

text \<open>The payload of a bulk string of \<open>sz\<close> bytes that starts at position \<open>start\<close>.\<close>

definition bulk_payload :: "string \<Rightarrow> nat \<Rightarrow> nat \<Rightarrow> value_result" where
  "bulk_payload input start sz =
     (if sz > length input - start then value_incomplete
      else let payload_end = start + sz in
        if payload_end = length input then value_incomplete
        else if input ! payload_end \<noteq> CR then
          value_failed Malformed ''bulk payload lacks terminating CRLF''
        else if payload_end + 1 = length input then value_incomplete
        else if input ! (payload_end + 1) \<noteq> LF then
          value_failed Malformed ''bulk payload lacks terminating CRLF''
        else value_complete (BulkString (Some (take sz (drop start input)))) (payload_end + 2))"

definition parse_bulk :: "string \<Rightarrow> parser_limits \<Rightarrow> value_result" where
  "parse_bulk input limits =
     (let line = read_line input 1 in
      if lr_status line \<noteq> Complete then value_failed (lr_status line) (lr_message line)
      else case parse_integer (lr_value line) of
        None \<Rightarrow> value_failed Malformed ''invalid or overflowing bulk length''
      | Some len \<Rightarrow>
          if sint len = -1 then value_complete (BulkString None) (lr_next line)
          else if sint len < 0 then value_failed Malformed ''illegal negative bulk length''
          else if unat len > max_bulk_size limits then
            value_failed Oversized ''bulk string exceeds configured limit''
          else if unat len > 2 ^ 64 - 1 then
            value_failed Oversized ''bulk string length is not representable''
          else bulk_payload input (lr_next line) (unat len))"

text \<open>
  The element loop of \<^verbatim>\<open>parse_array\<close>: \<open>n\<close> elements are left, \<open>values\<close> are parsed and
  \<open>consumed\<close> bytes are behind.
\<close>

fun parse_items ::
  "(string \<Rightarrow> value_result) \<Rightarrow> string \<Rightarrow> nat \<Rightarrow> resp_value list \<Rightarrow> nat \<Rightarrow> value_result"
where
  "parse_items pv input 0 values consumed = value_complete (Array (Some values)) consumed"
| "parse_items pv input (Suc n) values consumed =
     (let item = pv (drop consumed input) in
      if vr_status item \<noteq> Complete then value_failed (vr_status item) (vr_message item)
      else parse_items pv input n (values @ [the (vr_value item)])
             (consumed + vr_consumed item))"

function parse_value :: "string \<Rightarrow> nat \<Rightarrow> parser_limits \<Rightarrow> value_result"
  and parse_array :: "string \<Rightarrow> nat \<Rightarrow> parser_limits \<Rightarrow> value_result"
where
  "parse_value input depth limits =
     (if input = [] then value_incomplete
      else if hd input = CHR ''+'' then parse_line_value input False
      else if hd input = CHR ''-'' then parse_line_value input True
      else if hd input = CHR '':'' then parse_resp_integer input
      else if hd input = CHR ''$'' then parse_bulk input limits
      else if hd input = CHR ''*'' then parse_array input depth limits
      else value_failed Malformed ''unknown RESP type prefix'')"
| "parse_array input depth limits =
     (let line = read_line input 1 in
      if lr_status line \<noteq> Complete then value_failed (lr_status line) (lr_message line)
      else case parse_integer (lr_value line) of
        None \<Rightarrow> value_failed Malformed ''invalid or overflowing array length''
      | Some len \<Rightarrow>
          if sint len < -1 then value_failed Malformed ''illegal negative array length''
          else if depth \<ge> max_depth limits then
            value_failed Too_deep ''array nesting exceeds configured limit''
          else if sint len = -1 then value_complete (Array None) (lr_next line)
          else if unat len > max_array_size limits then
            value_failed Oversized ''array exceeds configured element limit''
          else if unat len > 2 ^ 64 - 1 then
            value_failed Oversized ''array length is not representable''
          else parse_items (\<lambda>s. parse_value s (depth + 1) limits) input (unat len) []
                 (lr_next line))"
  by pat_completeness auto
termination
  by (relation "measure (\<lambda>x. case x of
        Inl (input, depth, limits) \<Rightarrow> 2 * (max_depth limits - depth) + 1
      | Inr (input, depth, limits) \<Rightarrow> 2 * (max_depth limits - depth))") auto

declare parse_value.simps [simp del] parse_array.simps [simp del]

section \<open>The parser object\<close>

record parser =
  limits :: parser_limits
  buffer :: string
  buffer_oversized :: bool

record parse_result =
  pr_status :: parse_status
  pr_value :: "resp_value option"
  pr_message :: string

definition new_parser :: "parser_limits \<Rightarrow> parser" where
  "new_parser l = \<lparr>limits = l, buffer = [], buffer_oversized = False\<rparr>"

definition parser_feed :: "parser \<Rightarrow> string \<Rightarrow> parse_status \<times> parser" where
  "parser_feed p bytes =
     (if buffer_oversized p then (Oversized, p)
      else if length (buffer p) > max_buffer_size (limits p) \<or>
              length bytes > max_buffer_size (limits p) - length (buffer p)
      then (Oversized, p\<lparr>buffer_oversized := True\<rparr>)
      else (Incomplete, p\<lparr>buffer := buffer p @ bytes\<rparr>))"

definition parser_next :: "parser \<Rightarrow> parse_result \<times> parser" where
  "parser_next p =
     (if buffer_oversized p
      then (\<lparr>pr_status = Oversized, pr_value = None,
             pr_message = ''parser buffer exceeds configured limit''\<rparr>, p)
      else let result = parse_value (buffer p) 0 (limits p);
               public_result = \<lparr>pr_status = vr_status result, pr_value = vr_value result,
                                pr_message = vr_message result\<rparr>
           in (public_result,
               if vr_status result = Complete
               then p\<lparr>buffer := drop (vr_consumed result) (buffer p)\<rparr> else p))"

definition parser_reset :: "parser \<Rightarrow> parser" where
  "parser_reset p = p\<lparr>buffer := [], buffer_oversized := False\<rparr>"

definition buffered_bytes :: "parser \<Rightarrow> nat" where
  "buffered_bytes p = length (buffer p)"

end
