(* ===== verification/Parser_Laws.thy ===== *)
theory Parser_Laws
  imports Parser
begin

text \<open>
  What the parser promises: it consumes only bytes it has, every value it returns respects
  the configured limits, a verdict other than \<^emph>\<open>incomplete\<close> never changes when more bytes
  arrive, and it inverts the encoder. The last two give independence from the way the
  byte stream is cut into chunks, proved once in the locale \<open>incremental\<close>.
\<close>

section \<open>Lines\<close>

lemma read_line_at_stable:
  "lr_status (read_line_at s st i) \<noteq> Incomplete \<Longrightarrow> st \<le> i \<Longrightarrow>
   read_line_at (s @ t) st i = read_line_at s st i"
proof (induction s st i rule: read_line_at.induct)
  case (1 s st i)
  show ?case
    using 1 by (subst (1 2) read_line_at.simps, subst (asm) (2) read_line_at.simps)
      (auto simp: nth_append split: if_splits)
qed

lemma read_line_at_bounds:
  "lr_status (read_line_at s st i) = Complete \<Longrightarrow> st \<le> i \<Longrightarrow>
   \<exists>k. i \<le> k \<and> k + 2 \<le> length s \<and> (\<forall>j. i \<le> j \<and> j < k \<longrightarrow> s ! j \<noteq> CR \<and> s ! j \<noteq> LF) \<and>
     read_line_at s st i = \<lparr>lr_status = Complete, lr_value = take (k - st) (drop st s),
       lr_next = k + 2, lr_message = []\<rparr>"
proof (induction s st i rule: read_line_at.induct)
  case (1 s st i)
  show ?case
  proof (cases "i < length s \<and> s ! i \<noteq> LF \<and> s ! i \<noteq> CR")
    case True
    then have eq: "read_line_at s st i = read_line_at s st (i + 1)"
      by (subst read_line_at.simps) simp
    then obtain k where k: "i + 1 \<le> k" "k + 2 \<le> length s"
      "\<forall>j. i + 1 \<le> j \<and> j < k \<longrightarrow> s ! j \<noteq> CR \<and> s ! j \<noteq> LF"
      "read_line_at s st (i + 1) = \<lparr>lr_status = Complete, lr_value = take (k - st) (drop st s),
         lr_next = k + 2, lr_message = []\<rparr>"
      using 1 True by auto
    then have "\<forall>j. i \<le> j \<and> j < k \<longrightarrow> s ! j \<noteq> CR \<and> s ! j \<noteq> LF"
      using True by (metis Suc_eq_plus1 le_SucE le_antisym not_less_eq_eq)
    then show ?thesis using k eq by (intro exI [of _ k]) simp
  next
    case False
    with "1.prems" show ?thesis
      by (subst (asm) read_line_at.simps, subst read_line_at.simps)
        (auto split: if_splits intro!: exI [of _ i])
  qed
qed

lemma read_line_at_text:
  "line_safe tx \<Longrightarrow> st \<le> length pre \<Longrightarrow>
   read_line_at (pre @ tx @ CR # LF # rest) st (length pre) =
     \<lparr>lr_status = Complete,
      lr_value = take (length pre + length tx - st) (drop st (pre @ tx)),
      lr_next = length pre + length tx + 2, lr_message = []\<rparr>"
proof (induction tx arbitrary: pre)
  case Nil
  then show ?case by (subst read_line_at.simps) (simp add: nth_append)
next
  case (Cons c tx)
  then show ?case
    using Cons.IH [of "pre @ [c]"]
    by (subst read_line_at.simps) (auto simp: nth_append line_safe_def)
qed

text \<open>The line after the type byte of a RESP frame.\<close>

lemma read_line_frame:
  "line_safe tx \<Longrightarrow> read_line (c # tx @ CR # LF # rest) 1 =
     \<lparr>lr_status = Complete, lr_value = tx, lr_next = length tx + 3, lr_message = []\<rparr>"
  using read_line_at_text [of tx 1 "[c]" rest] by (simp add: read_line_def)

lemma read_line_stable:
  "lr_status (read_line s 1) \<noteq> Incomplete \<Longrightarrow> read_line (s @ t) 1 = read_line s 1"
  by (simp add: read_line_def read_line_at_stable)

lemma read_line_bounds:
  assumes "lr_status (read_line s 1) = Complete"
  shows "3 \<le> lr_next (read_line s 1)" and "lr_next (read_line s 1) \<le> length s"
    and "line_safe (lr_value (read_line s 1))"
proof -
  obtain k where k: "1 \<le> k" "k + 2 \<le> length s"
    "\<forall>j. 1 \<le> j \<and> j < k \<longrightarrow> s ! j \<noteq> CR \<and> s ! j \<noteq> LF"
    "read_line s 1 = \<lparr>lr_status = Complete, lr_value = take (k - 1) (drop 1 s),
       lr_next = k + 2, lr_message = []\<rparr>"
    using read_line_at_bounds [of s 1 1] assms by (auto simp: read_line_def)
  from k show "3 \<le> lr_next (read_line s 1)" and "lr_next (read_line s 1) \<le> length s"
    by simp_all
  have "c \<noteq> CR \<and> c \<noteq> LF" if c: "c \<in> set (take (k - 1) (drop 1 s))" for c
  proof -
    from c obtain j where "j < k - 1" "c = s ! (1 + j)"
      by (auto simp: in_set_conv_nth)
    then show ?thesis using k(3) by simp
  qed
  then show "line_safe (lr_value (read_line s 1))"
    using k(4) by (auto simp: line_safe_def)
qed

section \<open>Integers\<close>

lemma parse_integer_show_int: "parse_integer (show_int (sint v)) = Some v"
proof -
  have "int64_min \<le> sint v" "sint v \<le> int64_max"
    using sint_ge [of v] sint_lt [of v] by simp_all
  then show ?thesis
    by (simp add: parse_integer_def hd_show_int from_chars_show_int)
qed

lemma parse_integer_show_nat:
  "n < 2 ^ 63 \<Longrightarrow> parse_integer (show_nat n) = Some (of_nat n)"
  "n < 2 ^ 63 \<Longrightarrow> sint (of_nat n :: i64) = int n"
  "n < 2 ^ 63 \<Longrightarrow> unat (of_nat n :: i64) = n"
proof -
  assume n: "n < 2 ^ 63"
  then show s: "sint (of_nat n :: i64) = int n"
    by (simp add: signed_of_nat signed_take_bit_int_eq_self)
  have "show_nat n = show_int (sint (of_nat n :: i64))"
    by (simp add: s show_int_def)
  then show "parse_integer (show_nat n) = Some (of_nat n)"
    by (simp only: parse_integer_show_int)
  show "unat (of_nat n :: i64) = n"
    using n by (intro unat_of_nat_small) simp
qed

lemma line_safe_show_nat: "line_safe (show_nat n)"
  using show_nat_digits [of CR n] show_nat_digits [of LF n] by (auto simp: line_safe_def is_digit_def)

lemma line_safe_show_int: "line_safe (show_int v)"
  using show_int_chars [of CR v] show_int_chars [of LF v] by (auto simp: line_safe_def is_digit_def)

section \<open>Results of complete parses\<close>

text \<open>A value within the limits, at the nesting depth \<open>d\<close>.\<close>

fun within :: "parser_limits \<Rightarrow> nat \<Rightarrow> resp_value \<Rightarrow> bool" where
  "within lim d (SimpleString s) = line_safe s"
| "within lim d (Error s) = line_safe s"
| "within lim d (Integer v) = True"
| "within lim d (BulkString None) = True"
| "within lim d (BulkString (Some s)) = (length s \<le> max_bulk_size lim \<and> length s < 2 ^ 63)"
| "within lim d (Array None) = (d < max_depth lim)"
| "within lim d (Array (Some vs)) =
     (d < max_depth lim \<and> length vs \<le> max_array_size lim \<and> length vs < 2 ^ 63 \<and>
      (\<forall>v \<in> set vs. within lim (d + 1) v))"

definition good_complete :: "parser_limits \<Rightarrow> nat \<Rightarrow> string \<Rightarrow> value_result \<Rightarrow> bool" where
  "good_complete lim d s r \<longleftrightarrow>
     (vr_status r = Complete \<longrightarrow>
        0 < vr_consumed r \<and> vr_consumed r \<le> length s \<and>
        (\<exists>v. vr_value r = Some v \<and> within lim d v))"

lemma parse_line_value_good: "good_complete lim d s (parse_line_value s e)"
  using read_line_bounds [of s] by (auto simp: good_complete_def parse_line_value_def Let_def)

lemma parse_resp_integer_good: "good_complete lim d s (parse_resp_integer s)"
  using read_line_bounds [of s]
  by (auto simp: good_complete_def parse_resp_integer_def Let_def split: option.splits)

lemma bulk_payload_good:
  "st \<le> length s \<Longrightarrow> 0 < st \<Longrightarrow> sz \<le> max_bulk_size lim \<Longrightarrow> sz < 2 ^ 63 \<Longrightarrow>
   good_complete lim d s (bulk_payload s st sz)"
  by (auto simp: good_complete_def bulk_payload_def Let_def)

lemma parse_bulk_good: "good_complete lim d s (parse_bulk s lim)"
proof (cases "lr_status (read_line s 1) = Complete")
  case False
  then show ?thesis by (simp add: good_complete_def parse_bulk_def Let_def)
next
  case True
  note nx = read_line_bounds [OF True]
  show ?thesis
    using nx True bulk_payload_good [OF nx(2), of _ lim d] i64_nonneg_bound
    by (auto simp: parse_bulk_def Let_def good_complete_def [of lim d s "value_complete _ _"]
        good_complete_def [of lim d s "value_failed _ _"] split: option.split)
qed

lemma parse_items_good:
  assumes elem: "\<And>s. good_complete lim (Suc d) s (pv s)"
  shows "vr_status (parse_items pv s n vs c) = Complete \<Longrightarrow> c \<le> length s \<Longrightarrow>
    \<exists>ws c'. parse_items pv s n vs c = value_complete (Array (Some (vs @ ws))) c' \<and>
      length ws = n \<and> (\<forall>w \<in> set ws. within lim (Suc d) w) \<and> c \<le> c' \<and> c' \<le> length s"
proof (induction n arbitrary: vs c)
  case 0
  then show ?case by simp
next
  case (Suc n)
  let ?item = "pv (drop c s)"
  have fin: "vr_status ?item = Complete"
    using Suc.prems(1) by (auto simp: Let_def split: if_splits)
  then obtain v where v: "vr_value ?item = Some v" "within lim (Suc d) v"
    and le: "vr_consumed ?item \<le> length (drop c s)"
    using elem [of "drop c s"] by (auto simp: good_complete_def)
  then show ?case
    using Suc.IH [of "vs @ [v]" "c + vr_consumed ?item"] Suc.prems fin
    by (fastforce simp: Let_def)
qed

lemma parse_array_good:
  assumes elem: "\<And>s. d < max_depth lim \<Longrightarrow> good_complete lim (Suc d) s (parse_value s (Suc d) lim)"
  shows "good_complete lim d s (parse_array s d lim)"
proof (cases "vr_status (parse_array s d lim) = Complete")
  case False
  then show ?thesis by (simp add: good_complete_def)
next
  case True
  let ?line = "read_line s 1"
  have line: "lr_status ?line = Complete"
    using True by (simp add: parse_array.simps Let_def split: if_splits)
  note nx = read_line_bounds [OF line]
  obtain len where len: "parse_integer (lr_value ?line) = Some len"
    using True line by (cases "parse_integer (lr_value ?line)") (simp_all add: parse_array.simps)
  have d: "d < max_depth lim" and sgn: "\<not> sint len < -1"
    using True line len by (simp_all add: parse_array.simps Let_def split: if_splits)
  show ?thesis
  proof (cases "sint len = -1")
    case True
    then show ?thesis
      using nx d line len by (simp add: good_complete_def parse_array.simps)
  next
    case False
    with sgn have pos: "\<not> sint len < 0" by simp
    have le: "unat len \<le> max_array_size lim"
      using True False line len d pos
      by (simp add: parse_array.simps Let_def split: if_splits)
    have eq: "parse_array s d lim =
        parse_items (\<lambda>s. parse_value s (Suc d) lim) s (unat len) [] (lr_next ?line)"
      using True False line len d pos le
      by (simp add: parse_array.simps Let_def split: if_splits)
    obtain ws c' where "parse_array s d lim = value_complete (Array (Some ws)) c'"
      "length ws = unat len" "\<forall>w \<in> set ws. within lim (Suc d) w"
      "lr_next ?line \<le> c'" "c' \<le> length s"
      using parse_items_good [of lim d "\<lambda>s. parse_value s (Suc d) lim" s "unat len" "[]" "lr_next ?line"]
        elem [OF d] True nx(2) unfolding eq by auto
    then show ?thesis
      using nx(1) d le i64_nonneg_bound [OF pos] by (simp add: good_complete_def)
  qed
qed

lemma parse_value_good: "good_complete lim d s (parse_value s d lim)"
proof (induction "max_depth lim - d" arbitrary: d s)
  case 0
  then show ?case
    using parse_array_good [of d lim s]
    by (simp add: parse_value.simps parse_line_value_good parse_resp_integer_good parse_bulk_good)
      (simp add: good_complete_def)
next
  case (Suc n)
  then have "good_complete lim d s (parse_array s d lim)"
    by (intro parse_array_good) simp
  then show ?case
    by (simp add: parse_value.simps parse_line_value_good parse_resp_integer_good parse_bulk_good)
      (simp add: good_complete_def)
qed

section \<open>Stability\<close>

text \<open>A verdict other than \<^emph>\<open>incomplete\<close> is final.\<close>

definition keeps :: "value_result \<Rightarrow> value_result \<Rightarrow> bool" where
  "keeps r r' \<longleftrightarrow> (vr_status r \<noteq> Incomplete \<longrightarrow> r' = r)"

lemma parse_line_value_keeps: "keeps (parse_line_value s e) (parse_line_value (s @ t) e)"
  using read_line_stable [of s t] by (auto simp: keeps_def parse_line_value_def Let_def)

lemma parse_resp_integer_keeps: "keeps (parse_resp_integer s) (parse_resp_integer (s @ t))"
  using read_line_stable [of s t]
  by (auto simp: keeps_def parse_resp_integer_def Let_def split: option.splits)

lemma bulk_payload_keeps:
  assumes "st \<le> length s"
  shows "keeps (bulk_payload s st sz) (bulk_payload (s @ t) st sz)"
proof (cases "st + sz + 1 < length s")
  case True
  then show ?thesis by (auto simp: keeps_def bulk_payload_def Let_def nth_append)
next
  case False
  then consider "sz > length s - st" | "st + sz = length s" | "st + sz + 1 = length s"
    using assms by linarith
  then show ?thesis
    by cases (use assms in \<open>auto simp: keeps_def bulk_payload_def Let_def nth_append\<close>)
qed

lemma parse_bulk_keeps: "keeps (parse_bulk s lim) (parse_bulk (s @ t) lim)"
proof (cases "lr_status (read_line s 1) = Complete")
  case False
  then show ?thesis
    using read_line_stable [of s t] by (auto simp: keeps_def parse_bulk_def Let_def)
next
  case True
  then have "read_line (s @ t) 1 = read_line s 1" using read_line_stable [of s t] by simp
  then show ?thesis
    using bulk_payload_keeps [OF read_line_bounds(2) [OF True], of _ t]
    by (auto simp: keeps_def parse_bulk_def Let_def split: option.split)
qed

lemma parse_items_keeps:
  assumes good: "\<And>s. good_complete lim d s (pv s)" and elem: "\<And>s t. keeps (pv s) (pv (s @ t))"
  shows "c \<le> length s \<Longrightarrow> keeps (parse_items pv s n vs c) (parse_items pv (s @ t) n vs c)"
proof (induction n arbitrary: vs c)
  case 0
  then show ?case by (simp add: keeps_def)
next
  case (Suc n)
  let ?item = "pv (drop c s)"
  show ?case
  proof (cases "vr_status ?item = Incomplete")
    case True
    then show ?thesis by (simp add: keeps_def Let_def)
  next
    case False
    then have "pv (drop c s @ t) = ?item"
      using elem [of "drop c s" t] by (simp add: keeps_def)
    moreover have "vr_status ?item = Complete \<Longrightarrow> c + vr_consumed ?item \<le> length s"
      using good [of "drop c s"] Suc.prems by (auto simp: good_complete_def)
    ultimately show ?thesis
      using Suc by (simp add: Let_def) (simp add: keeps_def)
  qed
qed

lemma parse_array_keeps:
  assumes elem: "\<And>s t. d < max_depth lim \<Longrightarrow>
    keeps (parse_value s (Suc d) lim) (parse_value (s @ t) (Suc d) lim)"
  shows "keeps (parse_array s d lim) (parse_array (s @ t) d lim)"
proof (cases "lr_status (read_line s 1) = Complete")
  case False
  then show ?thesis
    using read_line_stable [of s t] by (auto simp: keeps_def parse_array.simps Let_def)
next
  case True
  let ?line = "read_line s 1"
  have eq: "read_line (s @ t) 1 = ?line" using True read_line_stable [of s t] by simp
  have items: "keeps (parse_items (\<lambda>s. parse_value s (Suc d) lim) s n [] (lr_next ?line))
      (parse_items (\<lambda>s. parse_value s (Suc d) lim) (s @ t) n [] (lr_next ?line))"
    if "d < max_depth lim" for n
    by (rule parse_items_keeps [OF parse_value_good elem [OF that] read_line_bounds(2) [OF True]])
  show ?thesis
    using True eq items
    by (auto simp: parse_array.simps Let_def keeps_def [of "value_failed _ _"]
        keeps_def [of "value_complete _ _"] split: option.split)
qed

lemma parse_value_keeps: "keeps (parse_value s d lim) (parse_value (s @ t) d lim)"
proof (induction "max_depth lim - d" arbitrary: d s t rule: less_induct)
  case less
  have arr: "keeps (parse_array s d lim) (parse_array (s @ t) d lim)"
    by (rule parse_array_keeps) (simp add: less)
  show ?case
  proof (cases s)
    case Nil
    then show ?thesis by (simp add: keeps_def parse_value.simps)
  next
    case (Cons c s')
    then have "hd (s @ t) = c" "s @ t \<noteq> []" "hd s = c" "s \<noteq> []" by simp_all
    then show ?thesis
      using arr parse_line_value_keeps [of s _ t] parse_resp_integer_keeps [of s t]
        parse_bulk_keeps [of s lim t]
      by (simp add: parse_value.simps) (simp add: keeps_def)
  qed
qed

section \<open>Parsing inverts encoding\<close>

lemma parse_items_wire:
  assumes "\<And>v rest. v \<in> set ws \<Longrightarrow> pv (wire v @ rest) = value_complete v (length (wire v))"
  shows "parse_items pv (pre @ concat (map wire ws) @ rest) (length ws) vs (length pre) =
    value_complete (Array (Some (vs @ ws))) (length pre + length (concat (map wire ws)))"
  using assms
proof (induction ws arbitrary: pre vs)
  case Nil
  then show ?case by simp
next
  case (Cons w ws)
  then show ?case
    using Cons.IH [of "pre @ wire w" "vs @ [w]"] by (simp add: Let_def)
qed

lemma bulk_payload_frame:
  "length pre = st \<Longrightarrow> bulk_payload (pre @ b @ CR # LF # rest) st (length b) =
     value_complete (BulkString (Some b)) (st + length b + 2)"
  by (auto simp: bulk_payload_def Let_def nth_append)

lemma parse_value_wire:
  "within lim d v \<Longrightarrow> parse_value (wire v @ rest) d lim = value_complete v (length (wire v))"
proof (induction lim d v arbitrary: rest rule: within.induct)
  case (3 lim d v)
  show ?case
    using read_line_frame [OF line_safe_show_int, of "CHR '':''" "sint v" rest]
    by (simp add: parse_value.simps parse_resp_integer_def parse_integer_show_int Let_def)
next
  case (4 lim d)
  show ?case
    using read_line_frame [of "''-1''" "CHR ''$''" rest] parse_integer_show_int [of "-1"]
    by (simp add: parse_value.simps parse_bulk_def Let_def line_safe_def show_eval)
next
  case (5 lim d b)
  then show ?case
    using read_line_frame [OF line_safe_show_nat, of "CHR ''$''" "length b" "b @ CR # LF # rest"]
      bulk_payload_frame [of "CHR ''$'' # show_nat (length b) @ crlf" "length (show_nat (length b)) + 3" b rest]
    by (simp add: parse_value.simps parse_bulk_def Let_def parse_integer_show_nat)
next
  case (6 lim d)
  then show ?case
    using read_line_frame [of "''-1''" "CHR ''*''" rest] parse_integer_show_int [of "-1"]
    by (simp add: parse_value.simps parse_array.simps Let_def line_safe_def show_eval)
next
  case (7 lim d vs)
  let ?pre = "CHR ''*'' # show_nat (length vs) @ crlf"
  have items: "parse_items (\<lambda>s. parse_value s (Suc d) lim) (?pre @ concat (map wire vs) @ rest)
      (length vs) [] (length ?pre) =
    value_complete (Array (Some vs)) (length ?pre + length (concat (map wire vs)))"
    using parse_items_wire [of vs "\<lambda>s. parse_value s (Suc d) lim" ?pre rest "[]"] 7 by simp
  show ?case
    using 7 items
      read_line_frame [OF line_safe_show_nat, of "CHR ''*''" "length vs" "concat (map wire vs) @ rest"]
    by (simp add: parse_value.simps [of _ d] parse_array.simps Let_def parse_integer_show_nat
        numeral_3_eq_3)
qed (simp_all add: parse_value.simps parse_line_value_def read_line_frame [simplified] Let_def)

lemma within_encodable: "within lim d v \<Longrightarrow> encodable v"
  by (induction lim d v rule: within.induct) auto

section \<open>Incremental parsing\<close>

text \<open>
  The interface between a byte stream and a parser: \<open>parse\<close> looks at all the bytes at
  hand, \<open>taken\<close> says how many bytes a complete result used up, and the laws say that a
  complete result used at least one byte and only bytes at hand, and that it stays the
  same when more bytes follow. \<open>drain\<close> takes results as long as they are complete.
\<close>

function drain :: "(string \<Rightarrow> 'r) \<Rightarrow> ('r \<Rightarrow> nat option) \<Rightarrow> string \<Rightarrow> 'r list \<times> string" where
  "drain parse taken s =
     (case taken (parse s) of
        Some n \<Rightarrow>
          if 0 < n \<and> n \<le> length s
          then (case drain parse taken (drop n s) of (rs, rest) \<Rightarrow> (parse s # rs, rest))
          else ([], s)
      | None \<Rightarrow> ([], s))"
  by pat_completeness auto
termination
  by (relation "measure (\<lambda>(parse, taken, s). length s)") auto

declare drain.simps [simp del]

fun drain_chunks ::
  "(string \<Rightarrow> 'r) \<Rightarrow> ('r \<Rightarrow> nat option) \<Rightarrow> string \<Rightarrow> string list \<Rightarrow> 'r list \<times> string"
where
  "drain_chunks parse taken s [] = ([], s)"
| "drain_chunks parse taken s (c # cs) =
     (case drain parse taken (s @ c) of (rs, rest) \<Rightarrow>
        (case drain_chunks parse taken rest cs of (rs', rest') \<Rightarrow> (rs @ rs', rest')))"

locale incremental =
  fixes parse :: "string \<Rightarrow> 'r"
    and taken :: "'r \<Rightarrow> nat option"
  assumes taken_bounds: "taken (parse s) = Some n \<Longrightarrow> 0 < n \<and> n \<le> length s"
    and taken_stable: "taken (parse s) = Some n \<Longrightarrow> parse (s @ t) = parse s"
begin

lemma drain_step:
  "taken (parse s) = Some n \<Longrightarrow>
   drain parse taken s = (parse s # fst (drain parse taken (drop n s)),
     snd (drain parse taken (drop n s)))"
  by (subst drain.simps) (simp add: taken_bounds split: prod.split)

lemma drain_stop: "taken (parse s) = None \<Longrightarrow> drain parse taken s = ([], s)"
  by (subst drain.simps) simp

text \<open>Bytes that arrive later only add results.\<close>

lemma drain_append:
  "drain parse taken (s @ t) =
     (fst (drain parse taken s) @ fst (drain parse taken (snd (drain parse taken s) @ t)),
      snd (drain parse taken (snd (drain parse taken s) @ t)))"
proof (induction "length s" arbitrary: s rule: less_induct)
  case less
  show ?case
  proof (cases "taken (parse s)")
    case None
    then show ?thesis by (simp add: drain_stop)
  next
    case (Some n)
    then have n: "0 < n" "n \<le> length s" using taken_bounds by auto
    then have "length (drop n s) < length s" by simp
    from less [OF this] show ?thesis
      using Some n taken_stable [OF Some, of t] by (simp add: drain_step)
  qed
qed

text \<open>The results do not depend on how the stream is cut.\<close>

lemma drain_chunks_concat:
  "cs \<noteq> [] \<Longrightarrow> drain_chunks parse taken s cs = drain parse taken (s @ concat cs)"
proof (induction cs arbitrary: s)
  case (Cons c cs)
  obtain rs rest where d: "drain parse taken (s @ c) = (rs, rest)" by fastforce
  show ?case
  proof (cases "cs = []")
    case True
    then show ?thesis by (simp add: d)
  next
    case False
    then show ?thesis
      using Cons.IH [of rest] drain_append [of "s @ c" "concat cs"]
      by (simp add: d split: prod.split)
  qed
qed simp

end

text \<open>\<^verbatim>\<open>parse_value\<close> is such a parser.\<close>

definition frame_taken :: "value_result \<Rightarrow> nat option" where
  "frame_taken r = (if vr_status r = Complete then Some (vr_consumed r) else None)"

interpretation frames: incremental "\<lambda>s. parse_value s d lim" frame_taken for d lim
proof
  fix s n
  assume t: "frame_taken (parse_value s d lim) = Some n"
  then show "0 < n \<and> n \<le> length s"
    using parse_value_good [of lim d s] by (auto simp: frame_taken_def good_complete_def split: if_splits)
  show "parse_value (s @ t) d lim = parse_value s d lim" for t
    using t parse_value_keeps [of s d lim t] by (auto simp: frame_taken_def keeps_def split: if_splits)
qed

end
