(* ===== verification/Protocol.thy ===== *)
theory Protocol
  imports Parser_Laws
begin

text \<open>
  The protocol layer as the server and the client use it: a \<^verbatim>\<open>Parser\<close> object that is fed
  whatever bytes arrive and asked for values until it has none. The properties state the
  contract of the encoder and the parser together.
\<close>

section \<open>Operations of the parser object\<close>

datatype parser_op = Feed string | Next | Reset

fun parser_step :: "parser \<Rightarrow> parser_op \<Rightarrow> parser" where
  "parser_step p (Feed bytes) = snd (parser_feed p bytes)"
| "parser_step p Next = snd (parser_next p)"
| "parser_step p Reset = parser_reset p"

definition buffer_bounded :: "parser_limits \<Rightarrow> parser \<Rightarrow> bool" where
  "buffer_bounded l p \<longleftrightarrow> limits p = l \<and> length (buffer p) \<le> max_buffer_size l"

interpretation parser_runs: run_invariant parser_step "buffer_bounded l" "\<lambda>_. True" for l
proof
  fix p op
  assume "buffer_bounded l p"
  then show "buffer_bounded l (parser_step p op)"
    by (cases op) (auto simp: buffer_bounded_def parser_feed_def parser_next_def parser_reset_def
        Let_def)
qed

text \<open>
  The loop \<^verbatim>\<open>for (;;) { result = parser.next(); if (incomplete) return; ... }\<close> of the
  server: the values, and the parser when \<^verbatim>\<open>next\<close> has no further value. Every complete
  result shrinks the buffer (\<open>parser_next_shrinks\<close>), so the loop ends.
\<close>

function parser_drain :: "parser \<Rightarrow> resp_value list \<times> parser" where
  "parser_drain p =
     (case parser_next p of (r, q) \<Rightarrow>
        if pr_status r = Complete \<and> length (buffer q) < length (buffer p)
        then (case parser_drain q of (vs, q') \<Rightarrow> (the (pr_value r) # vs, q'))
        else ([], q))"
  by pat_completeness auto
termination
  by (relation "measure (\<lambda>p. length (buffer p))") auto

declare parser_drain.simps [simp del]

fun parser_stream :: "parser \<Rightarrow> string list \<Rightarrow> resp_value list \<times> parser" where
  "parser_stream p [] = ([], p)"
| "parser_stream p (c # cs) =
     (case parser_drain (snd (parser_feed p c)) of (vs, q) \<Rightarrow>
        (case parser_stream q cs of (ws, q') \<Rightarrow> (vs @ ws, q')))"

lemma parser_next_shrinks:
  "parser_next p = (r, q) \<Longrightarrow> pr_status r = Complete \<Longrightarrow> length (buffer q) < length (buffer p)"
  using parse_value_good [of "limits p" 0 "buffer p"]
  by (auto simp: parser_next_def Let_def good_complete_def split: if_splits)

text \<open>Draining the object is draining its buffer.\<close>

lemma parser_drain_frames:
  "\<not> buffer_oversized p \<Longrightarrow>
   parser_drain p =
     (case drain (\<lambda>s. parse_value s 0 (limits p)) frame_taken (buffer p) of
        (rs, rest) \<Rightarrow> (map (the \<circ> vr_value) rs, p\<lparr>buffer := rest\<rparr>))"
proof (induction p rule: parser_drain.induct)
  case (1 p)
  let ?r = "parse_value (buffer p) 0 (limits p)"
  show ?case
  proof (cases "vr_status ?r = Complete")
    case True
    then have n: "0 < vr_consumed ?r" "vr_consumed ?r \<le> length (buffer p)"
      using parse_value_good [of "limits p" 0 "buffer p"] by (auto simp: good_complete_def)
    then have shrink: "length (buffer p) - vr_consumed ?r < length (buffer p)" by arith
    have t: "frame_taken ?r = Some (vr_consumed ?r)" using True by (simp add: frame_taken_def)
    show ?thesis
      using 1 True shrink
      by (subst parser_drain.simps)
        (simp add: parser_next_def Let_def frames.drain_step [OF t] split: prod.splits)
  next
    case False
    then have "frame_taken ?r = None" by (simp add: frame_taken_def)
    then show ?thesis
      using 1 False by (subst parser_drain.simps)
        (simp add: parser_next_def Let_def frames.drain_stop)
  qed
qed

section \<open>Encoded frames in a stream\<close>

lemma wire_not_Nil [simp]: "wire v \<noteq> []"
  by (cases v rule: wire.cases) simp_all

lemma truncated_incomplete:
  assumes "within lim d v" and "strict_prefix x (wire v)"
  shows "vr_status (parse_value x d lim) = Incomplete"
proof (rule ccontr)
  assume ni: "vr_status (parse_value x d lim) \<noteq> Incomplete"
  from assms(2) obtain t where t: "wire v = x @ t" by (auto simp: strict_prefix_def prefix_def)
  have "parse_value x d lim = value_complete v (length (wire v))"
    using ni parse_value_keeps [of x d lim t] parse_value_wire [OF assms(1), of "[]"] t
    by (simp add: keeps_def)
  then have "length (wire v) \<le> length x"
    using parse_value_good [of lim d x] by (simp add: good_complete_def)
  then show False using proper_prefix_length [OF assms(2)] by simp
qed

lemma drain_wire_prefix:
  assumes "\<forall>v \<in> set vs. within lim 0 v" and "x @ y = concat (map wire vs)"
  shows "\<exists>us ws r. vs = us @ ws \<and> r @ y = concat (map wire ws) \<and>
     drain (\<lambda>s. parse_value s 0 lim) frame_taken x =
       (map (\<lambda>v. value_complete v (length (wire v))) us, r) \<and>
     (r = [] \<or> (\<exists>v \<in> set ws. strict_prefix r (wire v)))"
  using assms
proof (induction vs arbitrary: x)
  case Nil
  then have "x = []" and "y = []" by simp_all
  moreover have "drain (\<lambda>s. parse_value s 0 lim) frame_taken [] = ([], [])"
    by (rule frames.drain_stop) (simp add: parse_value.simps frame_taken_def)
  ultimately show ?case by simp
next
  case (Cons v vs)
  then have v: "within lim 0 v" by simp
  show ?case
  proof (cases "strict_prefix x (wire v)")
    case True
    then have "drain (\<lambda>s. parse_value s 0 lim) frame_taken x = ([], x)"
      by (intro frames.drain_stop) (simp add: frame_taken_def truncated_incomplete [OF v])
    then show ?thesis
      using True Cons.prems(2) by (intro exI [of _ "[]"] exI [of _ "v # vs"] exI [of _ x]) simp
  next
    case False
    have "prefix x (wire v @ concat (map wire vs))" using Cons.prems(2) by (metis concat.simps(2) list.simps(9) prefixI)
    with False obtain x' where x: "x = wire v @ x'"
      by (auto simp: prefix_append strict_prefix_def)
    then have x': "x' @ y = concat (map wire vs)" using Cons.prems(2) by simp
    have "frame_taken (parse_value x 0 lim) = Some (length (wire v))"
      by (simp add: x parse_value_wire [OF v] frame_taken_def)
    from frames.drain_step [OF this]
    have step: "drain (\<lambda>s. parse_value s 0 lim) frame_taken x =
       (value_complete v (length (wire v)) # fst (drain (\<lambda>s. parse_value s 0 lim) frame_taken x'),
        snd (drain (\<lambda>s. parse_value s 0 lim) frame_taken x'))"
      by (simp add: x parse_value_wire [OF v])
    from Cons.IH [OF _ x'] Cons.prems(1) obtain us ws r where
      "vs = us @ ws" "r @ y = concat (map wire ws)"
      "drain (\<lambda>s. parse_value s 0 lim) frame_taken x' =
         (map (\<lambda>v. value_complete v (length (wire v))) us, r)"
      "r = [] \<or> (\<exists>v \<in> set ws. strict_prefix r (wire v))"
      by auto
    then show ?thesis
      by (intro exI [of _ "v # us"] exI [of _ ws] exI [of _ r]) (simp add: step)
  qed
qed

definition session_fits :: "parser_limits \<Rightarrow> resp_value list \<Rightarrow> string list \<Rightarrow> bool" where
  "session_fits l vs cs \<longleftrightarrow>
     (\<forall>c \<in> set cs. length c \<le> max_buffer_size l \<and>
        (\<forall>v \<in> set vs. length (wire v) + length c \<le> max_buffer_size l + 1))"

lemma parser_stream_wire:
  assumes "\<forall>v \<in> set vs. within l 0 v" and "session_fits l vs cs"
    and "r @ concat cs = concat (map wire vs)"
    and "r = [] \<or> (\<exists>v \<in> set vs. strict_prefix r (wire v))"
  shows "parser_stream ((new_parser l)\<lparr>buffer := r\<rparr>) cs = (vs, new_parser l)"
  using assms
proof (induction cs arbitrary: r vs)
  case Nil
  then have "vs = [] \<and> r = []"
  proof (cases "vs = []")
    case False
    then obtain v where "v \<in> set vs" "strict_prefix r (wire v)" using Nil by (cases vs) auto
    then show ?thesis
      using Nil.prems(3) length_concat_member [of v vs wire] proper_prefix_length [of r "wire v"]
      by simp
  qed simp
  then show ?case by (simp add: new_parser_def)
next
  case (Cons c cs)
  let ?p = "(new_parser l)\<lparr>buffer := r\<rparr>"
  have "length r + length c \<le> max_buffer_size l"
    using Cons.prems(2,4) proper_prefix_length by (fastforce simp: session_fits_def)
  then have feed: "snd (parser_feed ?p c) = (new_parser l)\<lparr>buffer := r @ c\<rparr>"
    by (auto simp: parser_feed_def new_parser_def)
  from drain_wire_prefix [OF Cons.prems(1), of "r @ c" "concat cs"] Cons.prems(3)
  obtain us ws r' where d: "vs = us @ ws" "r' @ concat cs = concat (map wire ws)"
    "drain (\<lambda>s. parse_value s 0 l) frame_taken (r @ c) =
       (map (\<lambda>v. value_complete v (length (wire v))) us, r')"
    "r' = [] \<or> (\<exists>v \<in> set ws. strict_prefix r' (wire v))"
    by auto
  have "parser_stream ((new_parser l)\<lparr>buffer := r'\<rparr>) cs = (ws, new_parser l)"
    using Cons.prems(1,2) d by (intro Cons.IH) (auto simp: session_fits_def)
  then show ?case
    using d(1,3) parser_drain_frames [of "(new_parser l)\<lparr>buffer := r @ c\<rparr>"]
    by (simp add: feed) (simp add: new_parser_def o_def)
qed

section \<open>Properties\<close>

text \<open>
  C12: parsing inverts encoding. If the encoder produced \<open>out\<close> for a value within the
  parser's limits, the parser returns that value from \<open>out\<close> followed by any bytes, and
  consumes exactly \<open>out\<close>.
\<close>

theorem parse_encode_roundtrip:
  assumes "encode v = Inr out" and "within lim d v"
  shows "parse_value (out @ rest) d lim = value_complete v (length out)"
proof -
  have "out = wire v"
    using assms append_encoded_ok(1) [OF within_encodable, of lim d v "[]"] by (simp add: encode_def)
  then show ?thesis using parse_value_wire [OF assms(2)] by simp
qed

theorem parse_encode_roundtrip_witness:
  "encode (Array (Some [BulkString (Some ''PING'')])) =
     Inr (''*1'' @ crlf @ ''$4'' @ crlf @ ''PING'' @ crlf) \<and>
   parse_value ((''*1'' @ crlf @ ''$4'' @ crlf @ ''PING'' @ crlf) @ ''+x'') 0 default_limits =
     value_complete (Array (Some [BulkString (Some ''PING'')])) 14"
proof -
  have e: "encode (Array (Some [BulkString (Some ''PING'')])) =
     Inr (''*1'' @ crlf @ ''$4'' @ crlf @ ''PING'' @ crlf)"
    by (simp add: encode_def append_size_ok show_eval)
  have w: "within default_limits 0 (Array (Some [BulkString (Some ''PING'')]))"
    by (simp add: default_limits_def)
  show ?thesis using e parse_encode_roundtrip [OF e w, of "''+x''"] by simp
qed

text \<open>
  C18: a truncated frame is never mistaken for anything else: on every proper prefix of an
  encoded value the parser answers \<^emph>\<open>incomplete\<close>.
\<close>

theorem parse_truncated_incomplete:
  assumes "encode v = Inr out" and "within lim d v" and "strict_prefix x out"
  shows "vr_status (parse_value x d lim) = Incomplete"
proof -
  have "out = wire v"
    using assms append_encoded_ok(1) [OF within_encodable, of lim d v "[]"] by (simp add: encode_def)
  then show ?thesis using truncated_incomplete assms by blast
qed

theorem parse_truncated_incomplete_witness:
  "strict_prefix ''$5'' (''$5'' @ crlf @ ''hello'' @ crlf) \<and>
   vr_status (parse_value ''$5'' 0 default_limits) = Incomplete"
proof -
  have e: "encode (BulkString (Some ''hello'')) = Inr (''$5'' @ crlf @ ''hello'' @ crlf)"
    by (simp add: encode_def append_size_ok show_eval)
  have w: "within default_limits 0 (BulkString (Some ''hello''))"
    by (simp add: default_limits_def)
  have p: "strict_prefix ''$5'' (''$5'' @ crlf @ ''hello'' @ crlf)"
    by (simp add: strict_prefix_def)
  show ?thesis using p parse_truncated_incomplete [OF e w p] by simp
qed

text \<open>
  C19: every value the parser returns is within the configured limits (bulk size, array
  size, nesting depth), and it consumed at least one byte and no more than it was given.
\<close>

theorem parse_within_limits:
  assumes "vr_status (parse_value s d lim) = Complete"
  shows "0 < vr_consumed (parse_value s d lim) \<and> vr_consumed (parse_value s d lim) \<le> length s \<and>
    (\<exists>v. vr_value (parse_value s d lim) = Some v \<and> within lim d v)"
  using assms parse_value_good [of lim d s] by (simp add: good_complete_def)

theorem parse_within_limits_witness:
  "vr_status (parse_value (''+OK'' @ crlf) 0 default_limits) = Complete \<and>
   vr_consumed (parse_value (''+OK'' @ crlf) 0 default_limits) \<le> length (''+OK'' @ crlf)"
proof -
  have "vr_status (parse_value (''+OK'' @ crlf) 0 default_limits) = Complete"
    using parse_value_wire [of default_limits 0 "SimpleString ''OK''" "[]"]
    by (simp add: line_safe_def)
  then show ?thesis using parse_within_limits [of "''+OK'' @ crlf" 0 default_limits] by blast
qed

text \<open>
  C13: the parser is independent of how the network cuts the stream. For any list of values
  within the limits and any way of cutting their encodings into chunks such that an
  unfinished frame plus a chunk fits the input buffer, the parser fed chunk by chunk
  returns exactly these values in order and ends with an empty buffer.
\<close>

theorem stream_chunking:
  assumes "\<forall>v \<in> set vs. within l 0 v" and "session_fits l vs cs"
    and "concat cs = concat (map wire vs)"
  shows "parser_stream (new_parser l) cs = (vs, new_parser l)"
  using parser_stream_wire [OF assms(1,2), of "[]"] assms(3) by (simp add: new_parser_def)

theorem stream_chunking_witness:
  "parser_stream (new_parser default_limits) [''+O'', ''K'' @ crlf @ ''$-'', ''1'' @ crlf] =
     ([SimpleString ''OK'', BulkString None], new_parser default_limits)"
  by (rule stream_chunking)
    (simp_all add: line_safe_def session_fits_def default_limits_def)

text \<open>
  C20: whatever bytes are fed and however \<^verbatim>\<open>feed\<close>, \<^verbatim>\<open>next\<close> and \<^verbatim>\<open>reset\<close> are called, the input
  buffer never grows beyond \<open>max_buffer_size\<close>.
\<close>

theorem parser_buffer_bound:
  "length (buffer (foldl parser_step (new_parser l) ops)) \<le> max_buffer_size l"
proof -
  have "buffer_bounded l (new_parser l)" by (simp add: buffer_bounded_def new_parser_def)
  then have "buffer_bounded l (foldl parser_step (new_parser l) ops)"
    by (rule parser_runs.run_inv) (simp add: list_all_iff)
  then show ?thesis by (simp add: buffer_bounded_def)
qed

end
