(* ===== verification/Store.thy ===== *)
theory Store
  imports Prelude
begin

text \<open>
  The sharded in-memory store of \<^verbatim>\<open>src/store/store.cpp\<close>: its entries, its shards and every
  member function, in the order of the source.
  \<^item> A shard is the list of its bindings in the iteration order of the unordered map.
  \<^item> Time points of the steady clock are integers in nanoseconds, time points of the wall
    clock are integers in ticks of \<^verbatim>\<open>std::chrono::system_clock\<close>. What an operation reads from
    its \<^verbatim>\<open>Clock\<close> is an argument, one \<open>clock_reading\<close> for each time the code asks the clock.
  \<^item> What the C++ implementation chooses (the hash of a key, \<^verbatim>\<open>sizeof(Entry)\<close>, the length of a
    wall-clock tick) is the argument \<open>abi\<close>.
  \<^item> The functions that take a shared lock first and an exclusive lock later are given as
    these two critical sections and their composition.
\<close>

section \<open>Values, entries and the clock\<close>

datatype cell =
    VString string
  | VInt i64
  | VList "string list"
  | VSet "string list"

record abi =
  hash_string_view :: "string \<Rightarrow> nat"
  sizeof_Entry :: nat
  tick_ns :: int

record clock_reading =
  now :: int
  wall_now :: int

record entry =
  entry_value :: cell
  expires_at :: "int option"
  expires_at_wall :: "int option"
  stored_bytes :: u64

type_synonym shard = "(string \<times> entry) list"

record store =
  shards :: "shard list"
  approximate_memory :: u64
  expired_keys :: u64

datatype keys_status = Keys_ok | Unsupported_pattern

record keys_result =
  keys_status :: keys_status
  keys_found :: "string list"

record persisted_entry =
  pe_key :: string
  pe_value :: cell
  pe_expiry_wall :: "int option"

definition default_shard_count :: nat where
  "default_shard_count = 16"

text \<open>
  The constructor. \<^verbatim>\<open>clock\<close> is the reading of a clock, or \<open>None\<close> for a null pointer.
\<close>

definition new_store :: "nat \<Rightarrow> clock_reading option \<Rightarrow> store result" where
  "new_store shard_count clock =
     (if shard_count = 0 then Inl (Invalid_argument ''store shard count must be greater than zero'')
      else if clock = None then Inl (Invalid_argument ''store clock must not be null'')
      else Inr \<lparr>shards = replicate shard_count [], approximate_memory = 0, expired_keys = 0\<rparr>)"

fun add_sizes :: "u64 \<Rightarrow> string list \<Rightarrow> u64" where
  "add_sizes tot [] = tot"
| "add_sizes tot (item # items) = add_sizes (tot + of_nat (length item)) items"

definition estimate_bytes :: "abi \<Rightarrow> string \<Rightarrow> cell \<Rightarrow> u64" where
  "estimate_bytes A key v =
     (let tot = of_nat (length key) + of_nat (sizeof_Entry A) in
      case v of
        VString s \<Rightarrow> tot + of_nat (length s)
      | VInt _ \<Rightarrow> tot + 8
      | VList items \<Rightarrow> add_sizes tot items
      | VSet items \<Rightarrow> add_sizes tot items)"

definition is_expired :: "entry \<Rightarrow> int \<Rightarrow> bool" where
  "is_expired e t = (case expires_at e of None \<Rightarrow> False | Some d \<Rightarrow> d \<le> t)"

definition shard_index :: "abi \<Rightarrow> store \<Rightarrow> string \<Rightarrow> nat" where
  "shard_index A st key = hash_string_view A key mod length (shards st)"

definition shard_for :: "abi \<Rightarrow> store \<Rightarrow> string \<Rightarrow> shard" where
  "shard_for A st key = shards st ! shard_index A st key"

text \<open>\<^verbatim>\<open>shard.entries.erase(iterator)\<close> with its memory counter, for the binding \<open>key \<mapsto> e\<close>.\<close>

definition erase_entry :: "nat \<Rightarrow> string \<Rightarrow> entry \<Rightarrow> store \<Rightarrow> store" where
  "erase_entry i key e st =
     st\<lparr>shards := (shards st)[i := um_erase key (shards st ! i)],
        approximate_memory := approximate_memory st - stored_bytes e\<rparr>"

definition erase_expired_locked :: "nat \<Rightarrow> string \<Rightarrow> entry \<Rightarrow> int \<Rightarrow> store \<Rightarrow> bool \<times> store" where
  "erase_expired_locked i key e t st =
     (if \<not> is_expired e t then (False, st)
      else (True, (erase_entry i key e st)\<lparr>expired_keys := expired_keys st + 1\<rparr>))"

section \<open>Writing\<close>

text \<open>\<^verbatim>\<open>now + (*wall - wall_now)\<close>: the wall-clock distance converted to nanoseconds.\<close>

definition deadline :: "abi \<Rightarrow> clock_reading \<Rightarrow> int \<Rightarrow> int" where
  "deadline A c wall = now c + (wall - wall_now c) * tick_ns A"

definition set_already_expired :: "abi \<Rightarrow> string \<Rightarrow> store \<Rightarrow> store" where
  "set_already_expired A key st =
     (case um_find key (shard_for A st key) of
        None \<Rightarrow> st
      | Some e \<Rightarrow> (erase_entry (shard_index A st key) key e st)
                    \<lparr>expired_keys := expired_keys st + 1\<rparr>)"

definition set_entry :: "abi \<Rightarrow> int \<Rightarrow> string \<Rightarrow> entry \<Rightarrow> store \<Rightarrow> store" where
  "set_entry A t key e st =
     (let i = shard_index A st key;
          st' = (case um_find key (shard_for A st key) of
                   None \<Rightarrow> st
                 | Some old \<Rightarrow>
                     st\<lparr>expired_keys := expired_keys st + (if is_expired old t then 1 else 0),
                        approximate_memory := approximate_memory st - stored_bytes old\<rparr>)
      in st'\<lparr>shards := (shards st)[i := um_store key e (shards st ! i)],
             approximate_memory := approximate_memory st' + stored_bytes e\<rparr>)"

definition store_set_expiry ::
    "abi \<Rightarrow> clock_reading \<Rightarrow> string \<Rightarrow> cell \<Rightarrow> int option \<Rightarrow> store \<Rightarrow> store" where
  "store_set_expiry A c key v expiry_wall st =
     (let bytes = estimate_bytes A key v in
      case expiry_wall of
        None \<Rightarrow>
          set_entry A (now c) key
            \<lparr>entry_value = v, expires_at = None, expires_at_wall = None, stored_bytes = bytes\<rparr> st
      | Some wall \<Rightarrow>
          if wall \<le> wall_now c then set_already_expired A key st
          else set_entry A (now c) key
            \<lparr>entry_value = v, expires_at = Some (deadline A c wall), expires_at_wall = Some wall,
             stored_bytes = bytes\<rparr> st)"

definition store_set :: "abi \<Rightarrow> clock_reading \<Rightarrow> string \<Rightarrow> cell \<Rightarrow> store \<Rightarrow> store" where
  "store_set A c key v st = store_set_expiry A c key v None st"

section \<open>Reading one key\<close>

text \<open>
  A shared section answers \<open>Some r\<close> when the code returns \<open>r\<close> from it, and \<open>None\<close> when it
  goes on to the exclusive section.
\<close>

definition get_shared :: "abi \<Rightarrow> int \<Rightarrow> string \<Rightarrow> store \<Rightarrow> cell option option" where
  "get_shared A t key st =
     (case um_find key (shard_for A st key) of
        None \<Rightarrow> Some None
      | Some e \<Rightarrow> if \<not> is_expired e t then Some (Some (entry_value e)) else None)"

definition get_exclusive :: "abi \<Rightarrow> int \<Rightarrow> string \<Rightarrow> store \<Rightarrow> cell option \<times> store" where
  "get_exclusive A t key st =
     (case um_find key (shard_for A st key) of
        None \<Rightarrow> (None, st)
      | Some e \<Rightarrow>
          (case erase_expired_locked (shard_index A st key) key e t st of
             (True, st') \<Rightarrow> (None, st')
           | (False, st') \<Rightarrow> (Some (entry_value e), st')))"

text \<open>The two sections one after the other, with no other thread in between.\<close>

definition in_two_sections ::
    "(store \<Rightarrow> 'r option) \<Rightarrow> (store \<Rightarrow> 'r \<times> store) \<Rightarrow> store \<Rightarrow> 'r \<times> store" where
  "in_two_sections shared exclusive st =
     (case shared st of Some r \<Rightarrow> (r, st) | None \<Rightarrow> exclusive st)"

definition store_get :: "abi \<Rightarrow> clock_reading \<Rightarrow> string \<Rightarrow> store \<Rightarrow> cell option \<times> store" where
  "store_get A c key = in_two_sections (get_shared A (now c) key) (get_exclusive A (now c) key)"

definition exists_shared :: "abi \<Rightarrow> int \<Rightarrow> string \<Rightarrow> store \<Rightarrow> bool option" where
  "exists_shared A t key st =
     (case um_find key (shard_for A st key) of
        None \<Rightarrow> Some False
      | Some e \<Rightarrow> if \<not> is_expired e t then Some True else None)"

definition exists_exclusive :: "abi \<Rightarrow> int \<Rightarrow> string \<Rightarrow> store \<Rightarrow> bool \<times> store" where
  "exists_exclusive A t key st =
     (case um_find key (shard_for A st key) of
        None \<Rightarrow> (False, st)
      | Some e \<Rightarrow>
          (case erase_expired_locked (shard_index A st key) key e t st of
             (erased, st') \<Rightarrow> (\<not> erased, st')))"

definition store_exists :: "abi \<Rightarrow> clock_reading \<Rightarrow> string \<Rightarrow> store \<Rightarrow> bool \<times> store" where
  "store_exists A c key =
     in_two_sections (exists_shared A (now c) key) (exists_exclusive A (now c) key)"

text \<open>\<^verbatim>\<open>duration_cast<seconds>\<close> truncates towards zero.\<close>

definition whole_seconds :: "int \<Rightarrow> int" where
  "whole_seconds d = sgn d * (\<bar>d\<bar> div 1000000000)"

definition ttl_shared :: "abi \<Rightarrow> int \<Rightarrow> string \<Rightarrow> store \<Rightarrow> int option" where
  "ttl_shared A t key st =
     (case um_find key (shard_for A st key) of
        None \<Rightarrow> Some (-2)
      | Some e \<Rightarrow>
          (case expires_at e of
             None \<Rightarrow> Some (-1)
           | Some d \<Rightarrow> if d > t then Some (whole_seconds (d - t)) else None))"

definition ttl_exclusive :: "abi \<Rightarrow> int \<Rightarrow> string \<Rightarrow> store \<Rightarrow> int \<times> store" where
  "ttl_exclusive A t key st =
     (case um_find key (shard_for A st key) of
        None \<Rightarrow> (-2, st)
      | Some e \<Rightarrow>
          (case expires_at e of
             None \<Rightarrow> (-1, st)
           | Some d \<Rightarrow>
               (case erase_expired_locked (shard_index A st key) key e t st of
                  (True, st') \<Rightarrow> (-2, st')
                | (False, st') \<Rightarrow> (whole_seconds (d - t), st'))))"

definition store_ttl :: "abi \<Rightarrow> clock_reading \<Rightarrow> string \<Rightarrow> store \<Rightarrow> int \<times> store" where
  "store_ttl A c key = in_two_sections (ttl_shared A (now c) key) (ttl_exclusive A (now c) key)"

definition expiry_wall_time_shared :: "abi \<Rightarrow> int \<Rightarrow> string \<Rightarrow> store \<Rightarrow> int option option" where
  "expiry_wall_time_shared A t key st =
     (case um_find key (shard_for A st key) of
        None \<Rightarrow> Some None
      | Some e \<Rightarrow> if \<not> is_expired e t then Some (expires_at_wall e) else None)"

definition expiry_wall_time_exclusive ::
    "abi \<Rightarrow> int \<Rightarrow> string \<Rightarrow> store \<Rightarrow> int option \<times> store" where
  "expiry_wall_time_exclusive A t key st =
     (case um_find key (shard_for A st key) of
        None \<Rightarrow> (None, st)
      | Some e \<Rightarrow>
          (case erase_expired_locked (shard_index A st key) key e t st of
             (True, st') \<Rightarrow> (None, st')
           | (False, st') \<Rightarrow> (expires_at_wall e, st')))"

definition store_expiry_wall_time ::
    "abi \<Rightarrow> clock_reading \<Rightarrow> string \<Rightarrow> store \<Rightarrow> int option \<times> store" where
  "store_expiry_wall_time A c key =
     in_two_sections (expiry_wall_time_shared A (now c) key)
       (expiry_wall_time_exclusive A (now c) key)"

section \<open>Deleting\<close>

definition store_del :: "abi \<Rightarrow> clock_reading \<Rightarrow> string \<Rightarrow> store \<Rightarrow> bool \<times> store" where
  "store_del A c key st =
     (let i = shard_index A st key in
      case um_find key (shard_for A st key) of
        None \<Rightarrow> (False, st)
      | Some e \<Rightarrow>
          (case erase_expired_locked i key e (now c) st of
             (True, st') \<Rightarrow> (False, st')
           | (False, st') \<Rightarrow> (True, erase_entry i key e st')))"

text \<open>
  \<^verbatim>\<open>lock_mutexes_in_order\<close>: the mutexes in the order they are taken. The mutex of a shard
  is named by the index of the shard; the shards lie in one vector, so the order of the
  addresses is the order of the indices.
\<close>

definition lock_mutexes_in_order :: "nat list \<Rightarrow> nat list" where
  "lock_mutexes_in_order mutexes = remdups_adj (sort mutexes)"

definition locks_for :: "abi \<Rightarrow> store \<Rightarrow> string list \<Rightarrow> nat list" where
  "locks_for A st ks = lock_mutexes_in_order (map (shard_index A st) ks)"

fun del_keys :: "abi \<Rightarrow> int \<Rightarrow> string list \<Rightarrow> nat \<Rightarrow> store \<Rightarrow> nat \<times> store" where
  "del_keys A t [] removed st = (removed, st)"
| "del_keys A t (key # ks) removed st =
     (let i = shard_index A st key in
      case um_find key (shard_for A st key) of
        None \<Rightarrow> del_keys A t ks removed st
      | Some e \<Rightarrow>
          (case erase_expired_locked i key e t st of
             (True, st') \<Rightarrow> del_keys A t ks removed st'
           | (False, st') \<Rightarrow> del_keys A t ks (removed + 1) (erase_entry i key e st')))"

definition store_del_many :: "abi \<Rightarrow> clock_reading \<Rightarrow> string list \<Rightarrow> store \<Rightarrow> nat \<times> store" where
  "store_del_many A c ks st = (if ks = [] then (0, st) else del_keys A (now c) ks 0 st)"

fun exists_keys :: "abi \<Rightarrow> int \<Rightarrow> string list \<Rightarrow> nat \<Rightarrow> store \<Rightarrow> nat \<times> store" where
  "exists_keys A t [] found st = (found, st)"
| "exists_keys A t (key # ks) found st =
     (case um_find key (shard_for A st key) of
        None \<Rightarrow> exists_keys A t ks found st
      | Some e \<Rightarrow>
          (case erase_expired_locked (shard_index A st key) key e t st of
             (True, st') \<Rightarrow> exists_keys A t ks found st'
           | (False, st') \<Rightarrow> exists_keys A t ks (found + 1) st'))"

definition store_exists_many :: "abi \<Rightarrow> clock_reading \<Rightarrow> string list \<Rightarrow> store \<Rightarrow> nat \<times> store" where
  "store_exists_many A c ks st = (if ks = [] then (0, st) else exists_keys A (now c) ks 0 st)"

section \<open>Expiring\<close>

text \<open>
  \<^verbatim>\<open>expire_at\<close> reads the clock up to four times: \<open>c1\<close> is read by the two checks, \<open>c2\<close> by the
  computation of the deadline.
\<close>

definition set_expiry :: "nat \<Rightarrow> string \<Rightarrow> entry \<Rightarrow> int \<Rightarrow> int \<Rightarrow> store \<Rightarrow> store" where
  "set_expiry i key e wall d st =
     st\<lparr>shards := (shards st)[i := um_store key
          (e\<lparr>expires_at_wall := Some wall, expires_at := Some d\<rparr>) (shards st ! i)]\<rparr>"

definition store_expire_at ::
    "abi \<Rightarrow> clock_reading \<Rightarrow> clock_reading \<Rightarrow> string \<Rightarrow> int option \<Rightarrow> store \<Rightarrow> bool \<times> store" where
  "store_expire_at A c1 c2 key expiry_wall st =
     (let i = shard_index A st key in
      case um_find key (shard_for A st key) of
        None \<Rightarrow> (False, st)
      | Some e \<Rightarrow>
          (case erase_expired_locked i key e (now c1) st of
             (True, st') \<Rightarrow> (False, st')
           | (False, st') \<Rightarrow>
               (case expiry_wall of
                  None \<Rightarrow> (True, erase_entry i key e st')
                | Some wall \<Rightarrow>
                    if wall \<le> wall_now c1 then (True, erase_entry i key e st')
                    else (True, set_expiry i key e wall (deadline A c2 wall) st'))))"

text \<open>Seconds converted to ticks of the wall clock.\<close>

definition seconds_to_ticks :: "abi \<Rightarrow> int \<Rightarrow> int" where
  "seconds_to_ticks A s = s * (1000000000 div tick_ns A)"

definition store_expire ::
    "abi \<Rightarrow> clock_reading \<Rightarrow> clock_reading \<Rightarrow> clock_reading \<Rightarrow> string \<Rightarrow> int \<Rightarrow> store \<Rightarrow>
     bool \<times> store" where
  "store_expire A c0 c1 c2 key ttl st =
     (if ttl \<le> 0 then store_expire_at A c1 c2 key (Some (wall_now c0)) st
      else store_expire_at A c1 c2 key (Some (wall_now c0 + seconds_to_ticks A ttl)) st)"

section \<open>Sweeps over the whole store\<close>

text \<open>
  The loop over the entries of a shard that \<^verbatim>\<open>keys\<close> and \<^verbatim>\<open>export_snapshot_entries\<close> share:
  what is kept, and the two counters.
\<close>

fun sweep_entries :: "int \<Rightarrow> shard \<Rightarrow> u64 \<Rightarrow> u64 \<Rightarrow> shard \<times> u64 \<times> u64" where
  "sweep_entries t [] memory expired = ([], memory, expired)"
| "sweep_entries t ((key, e) # rest) memory expired =
     (if is_expired e t then sweep_entries t rest (memory - stored_bytes e) (expired + 1)
      else (case sweep_entries t rest memory expired of
              (kept, memory', expired') \<Rightarrow> ((key, e) # kept, memory', expired')))"

fun sweep_shards :: "int \<Rightarrow> shard list \<Rightarrow> u64 \<Rightarrow> u64 \<Rightarrow> shard list \<times> u64 \<times> u64" where
  "sweep_shards t [] memory expired = ([], memory, expired)"
| "sweep_shards t (s # ss) memory expired =
     (case sweep_entries t s memory expired of
        (kept, memory', expired') \<Rightarrow>
          (case sweep_shards t ss memory' expired' of
             (ss', memory'', expired'') \<Rightarrow> (kept # ss', memory'', expired'')))"

definition sweep :: "int \<Rightarrow> store \<Rightarrow> store" where
  "sweep t st =
     (case sweep_shards t (shards st) (approximate_memory st) (expired_keys st) of
        (ss, memory, expired) \<Rightarrow>
          st\<lparr>shards := ss, approximate_memory := memory, expired_keys := expired\<rparr>)"

definition store_keys :: "clock_reading \<Rightarrow> string \<Rightarrow> store \<Rightarrow> keys_result \<times> store" where
  "store_keys c pattern st =
     (if pattern \<noteq> ''*'' then (\<lparr>keys_status = Unsupported_pattern, keys_found = []\<rparr>, st)
      else (let st' = sweep (now c) st in
            (\<lparr>keys_status = Keys_ok, keys_found = sort (concat (map (map fst) (shards st')))\<rparr>,
             st')))"

definition persisted :: "string \<times> entry \<Rightarrow> persisted_entry" where
  "persisted b = \<lparr>pe_key = fst b, pe_value = entry_value (snd b),
                  pe_expiry_wall = expires_at_wall (snd b)\<rparr>"

definition export_snapshot_entries :: "clock_reading \<Rightarrow> store \<Rightarrow> persisted_entry list \<times> store" where
  "export_snapshot_entries c st =
     (let st' = sweep (now c) st in (concat (map (map persisted) (shards st')), st'))"

definition store_clear :: "store \<Rightarrow> store" where
  "store_clear st = st\<lparr>shards := map (\<lambda>_. []) (shards st), approximate_memory := 0\<rparr>"

definition import_snapshot_entry ::
    "abi \<Rightarrow> clock_reading \<Rightarrow> persisted_entry \<Rightarrow> store \<Rightarrow> store" where
  "import_snapshot_entry A c pe st =
     store_set_expiry A c (pe_key pe) (pe_value pe) (pe_expiry_wall pe) st"

definition shard_count :: "store \<Rightarrow> nat" where
  "shard_count st = length (shards st)"

section \<open>Active expiry\<close>

text \<open>
  \<open>dist hi g\<close> is one draw of \<^verbatim>\<open>uniform_int_distribution{0, hi}\<close> from the generator state \<open>g\<close>.
  Advancing an iterator to or past the end of the map and using it is undefined behaviour.
\<close>

type_synonym 'g distribution = "nat \<Rightarrow> 'g \<Rightarrow> nat \<times> 'g"

fun expire_attempts ::
    "'g distribution \<Rightarrow> int \<Rightarrow> nat \<Rightarrow> nat \<Rightarrow> nat \<Rightarrow> 'g \<Rightarrow> store \<Rightarrow> (nat \<times> 'g \<times> store) result" where
  "expire_attempts dist t i 0 expired g st = Inr (expired, g, st)"
| "expire_attempts dist t i (Suc attempts) expired g st =
     (let entries = shards st ! i; (n, g') = dist (length entries - 1) g in
      if n < length entries then
        (case entries ! n of (key, e) \<Rightarrow>
           (case erase_expired_locked i key e t st of
              (erased, st') \<Rightarrow>
                expire_attempts dist t i attempts (if erased then expired + 1 else expired) g' st'))
      else Inl (Undefined_behaviour ''iterator past the end''))"

fun expire_shards ::
    "'g distribution \<Rightarrow> int \<Rightarrow> nat \<Rightarrow> nat list \<Rightarrow> nat \<Rightarrow> 'g \<Rightarrow> store \<Rightarrow>
     (nat \<times> 'g \<times> store) result" where
  "expire_shards dist t samples [] expired g st = Inr (expired, g, st)"
| "expire_shards dist t samples (i # is) expired g st =
     (if shards st ! i = [] then expire_shards dist t samples is expired g st
      else bindE (expire_attempts dist t i (min samples (length (shards st ! i))) expired g st)
             (\<lambda>(expired', g', st'). expire_shards dist t samples is expired' g' st'))"

definition active_expire_cycle ::
    "'g distribution \<Rightarrow> clock_reading \<Rightarrow> nat \<Rightarrow> 'g \<Rightarrow> store \<Rightarrow> (nat \<times> 'g \<times> store) result" where
  "active_expire_cycle dist c samples_per_shard g st =
     (if samples_per_shard = 0 then Inr (0, g, st)
      else expire_shards dist (now c) samples_per_shard [0..<length (shards st)] 0 g st)"

end
