(* ===== verification/Store_Laws.thy ===== *)
theory Store_Laws
  imports Store
begin

text \<open>
  Laws of the store: its invariant (placement of the keys, one binding per key, exact memory
  accounting), the two-section readers as atomic operations, and the refinement of a plain map
  with deadlines by the sharded store.
\<close>

section \<open>Bindings and the invariant\<close>

definition lookup :: "abi \<Rightarrow> store \<Rightarrow> string \<Rightarrow> entry option" where
  "lookup A st k = um_find k (shard_for A st k)"

definition entry_ok :: "abi \<Rightarrow> string \<Rightarrow> entry \<Rightarrow> bool" where
  "entry_ok A k e \<longleftrightarrow> stored_bytes e = estimate_bytes A k (entry_value e) \<and>
     (expires_at e = None \<longleftrightarrow> expires_at_wall e = None)"

definition shard_ok :: "abi \<Rightarrow> nat \<Rightarrow> nat \<Rightarrow> shard \<Rightarrow> bool" where
  "shard_ok A n i m \<longleftrightarrow> um_wf m \<and>
     list_all (\<lambda>(k, e). hash_string_view A k mod n = i \<and> entry_ok A k e) m"

definition store_ok :: "abi \<Rightarrow> store \<Rightarrow> bool" where
  "store_ok A st \<longleftrightarrow> shards st \<noteq> [] \<and>
     list_all (\<lambda>i. shard_ok A (length (shards st)) i (shards st ! i)) [0..<length (shards st)] \<and>
     approximate_memory st = sum_list (map (um_sum stored_bytes) (shards st))"

lemma store_ok_iff:
  "store_ok A st \<longleftrightarrow> shards st \<noteq> [] \<and>
     (\<forall>i < length (shards st). shard_ok A (length (shards st)) i (shards st ! i)) \<and>
     approximate_memory st = sum_list (map (um_sum stored_bytes) (shards st))"
  by (auto simp: store_ok_def list_all_iff)

lemma shard_index_less: "shards st \<noteq> [] \<Longrightarrow> shard_index A st k < length (shards st)"
  by (simp add: shard_index_def)

lemma store_ok_index [simp]: "store_ok A st \<Longrightarrow> shard_index A st k < length (shards st)"
  by (simp add: store_ok_iff shard_index_less)

lemma store_ok_shard:
  "store_ok A st \<Longrightarrow>
   shard_ok A (length (shards st)) (shard_index A st k) (shards st ! shard_index A st k)"
  using shard_index_less [of st A k] by (simp add: store_ok_iff)

lemma store_ok_wf: "store_ok A st \<Longrightarrow> um_wf (shards st ! shard_index A st k)"
  using store_ok_shard by (auto simp: shard_ok_def)

lemma lookup_entry_ok:
  assumes "store_ok A st" and "lookup A st k = Some e"
  shows "entry_ok A k e"
  using store_ok_shard [OF assms(1), of k] assms(2)
  by (auto simp: lookup_def shard_for_def shard_ok_def um.find_entries list_all_iff)

text \<open>Replacing the bindings of one shard.\<close>

lemma sum_list_replace:
  fixes xs :: "'a::ab_group_add list"
  shows "i < length xs \<Longrightarrow> sum_list (xs[i := x]) = sum_list xs - xs ! i + x"
  by (induction xs arbitrary: i) (auto simp: algebra_simps split: nat.splits)

lemma store_ok_replace:
  assumes "store_ok A st" and "i < length (shards st)"
    and "shard_ok A (length (shards st)) i m"
    and "shards st' = (shards st)[i := m]"
    and "approximate_memory st' =
      approximate_memory st - um_sum stored_bytes (shards st ! i) + um_sum stored_bytes m"
  shows "store_ok A st'"
  using assms by (auto simp: store_ok_iff map_update sum_list_replace nth_list_update)

lemma lookup_replace:
  assumes "store_ok A st" and "shards st' = (shards st)[shard_index A st k := m]"
    and "\<And>j. um_find j m = (if j = k then x else um_find j (shards st ! shard_index A st k))"
  shows "lookup A st' j = (if j = k then x else lookup A st j)"
  using assms by (auto simp: lookup_def shard_for_def shard_index_def nth_list_update
      store_ok_iff)

lemma shard_ok_erase: "shard_ok A n i m \<Longrightarrow> shard_ok A n i (um_erase k m)"
  by (auto simp: shard_ok_def um_facts list_all_iff um.entries_erase)

lemma shard_ok_store:
  "shard_ok A n i m \<Longrightarrow> hash_string_view A k mod n = i \<Longrightarrow> entry_ok A k e \<Longrightarrow>
   shard_ok A n i (um_store k e m)"
  by (auto simp: shard_ok_def um_facts list_all_iff um.entries_store)

text \<open>Erasing one binding.\<close>

lemma erase_entry_ok:
  assumes "store_ok A st" and "lookup A st k = Some e"
  shows "store_ok A ((erase_entry (shard_index A st k) k e st)\<lparr>expired_keys := n\<rparr>)"
    and "store_ok A (erase_entry (shard_index A st k) k e st)"
proof -
  note ok = store_ok_replace [OF assms(1) store_ok_index [OF assms(1)]
      shard_ok_erase [where k = k, OF store_ok_shard [OF assms(1), of k]]]
  have s: "um_sum stored_bytes (um_erase k (shards st ! shard_index A st k)) =
      um_sum stored_bytes (shards st ! shard_index A st k) - stored_bytes e"
    using assms(2) by (simp add: lookup_def shard_for_def um_sum_erase)
  show "store_ok A ((erase_entry (shard_index A st k) k e st)\<lparr>expired_keys := n\<rparr>)"
    by (rule ok) (simp_all add: erase_entry_def s)
  show "store_ok A (erase_entry (shard_index A st k) k e st)"
    by (rule ok) (simp_all add: erase_entry_def s)
qed

lemma lookup_erase_entry:
  assumes "store_ok A st"
  shows "lookup A ((erase_entry (shard_index A st k) k e st)\<lparr>expired_keys := n\<rparr>) j =
      (if j = k then None else lookup A st j)"
    and "lookup A (erase_entry (shard_index A st k) k e st) j =
      (if j = k then None else lookup A st j)"
  by (rule lookup_replace [OF assms, where m = "um_erase k (shards st ! shard_index A st k)"];
      simp add: erase_entry_def um_facts store_ok_wf [OF assms])+

section \<open>What a client sees\<close>

text \<open>
  A key is live at time \<open>t\<close> when it is bound and its deadline is after \<open>t\<close>. The view of a
  store at a time maps the live keys to their value, deadline and wall-clock expiry.
\<close>

type_synonym view = "string \<Rightarrow> (cell \<times> int option \<times> int option) option"

definition view_of :: "entry \<Rightarrow> cell \<times> int option \<times> int option" where
  "view_of e = (entry_value e, expires_at e, expires_at_wall e)"

definition live_entry :: "abi \<Rightarrow> int \<Rightarrow> store \<Rightarrow> string \<Rightarrow> entry option" where
  "live_entry A t st k =
     (case lookup A st k of None \<Rightarrow> None | Some e \<Rightarrow> if is_expired e t then None else Some e)"

definition live :: "abi \<Rightarrow> int \<Rightarrow> store \<Rightarrow> view" where
  "live A t st k = map_option view_of (live_entry A t st k)"

lemma live_eqI: "(\<And>j. live_entry A t st j = live_entry A t st' j) \<Longrightarrow> live A t st = live A t st'"
  by (simp add: live_def fun_eq_iff)

lemma live_entry_None: "lookup A st k = None \<Longrightarrow> live_entry A t st k = None"
  by (simp add: live_entry_def)

lemma live_entry_Some:
  "live_entry A t st k = Some e \<longleftrightarrow> lookup A st k = Some e \<and> \<not> is_expired e t"
  by (auto simp: live_entry_def split: option.splits)

text \<open>Removing the binding of a key whose deadline has passed, and nothing otherwise.\<close>

definition purge :: "abi \<Rightarrow> int \<Rightarrow> string \<Rightarrow> store \<Rightarrow> store" where
  "purge A t k st =
     (case lookup A st k of
        None \<Rightarrow> st
      | Some e \<Rightarrow> snd (erase_expired_locked (shard_index A st k) k e t st))"

lemma purge_ok: "store_ok A st \<Longrightarrow> store_ok A (purge A t k st)"
  by (auto simp: purge_def erase_expired_locked_def erase_entry_ok split: option.splits)

lemma lookup_purge:
  "store_ok A st \<Longrightarrow>
   lookup A (purge A t k st) j = (if j = k then live_entry A t st k else lookup A st j)"
  by (auto simp: purge_def erase_expired_locked_def live_entry_def lookup_erase_entry
      split: option.splits)

lemma live_entry_purge: "store_ok A st \<Longrightarrow> live_entry A t (purge A t k st) j = live_entry A t st j"
  by (auto simp: live_entry_def lookup_purge split: option.splits)

lemma live_purge: "store_ok A st \<Longrightarrow> live A t (purge A t k st) = live A t st"
  by (rule live_eqI) (rule live_entry_purge)

text \<open>The exclusive sections, in terms of the live entry and \<open>purge\<close>.\<close>

lemma get_exclusive_eq:
  "get_exclusive A t k st = (map_option entry_value (live_entry A t st k), purge A t k st)"
  by (simp add: get_exclusive_def lookup_def live_entry_def purge_def erase_expired_locked_def
      split: option.split)

lemma exists_exclusive_eq:
  "exists_exclusive A t k st = (live_entry A t st k \<noteq> None, purge A t k st)"
  by (simp add: exists_exclusive_def lookup_def live_entry_def purge_def erase_expired_locked_def
      split: option.split)

lemma expiry_wall_time_exclusive_eq:
  "expiry_wall_time_exclusive A t k st =
     (Option.bind (live_entry A t st k) expires_at_wall, purge A t k st)"
  by (simp add: expiry_wall_time_exclusive_def lookup_def live_entry_def purge_def
      erase_expired_locked_def split: option.split)

definition ttl_of :: "int \<Rightarrow> entry option \<Rightarrow> int" where
  "ttl_of t x =
     (case x of None \<Rightarrow> -2
      | Some e \<Rightarrow> (case expires_at e of None \<Rightarrow> -1 | Some d \<Rightarrow> (d - t) div 1000000000))"

lemma ttl_exclusive_eq:
  "ttl_exclusive A t k st = (ttl_of t (live_entry A t st k), purge A t k st)"
  by (auto simp: ttl_exclusive_def lookup_def live_entry_def purge_def erase_expired_locked_def
      is_expired_def ttl_of_def whole_seconds_def split: option.split)

section \<open>Readers in two sections\<close>

text \<open>
  A function that answers from a shared section when it can, and repeats the whole work in an
  exclusive section otherwise. Between the two sections other threads may change the store.
\<close>

definition interleaved ::
    "(store \<Rightarrow> 'r option) \<Rightarrow> (store \<Rightarrow> 'r \<times> store) \<Rightarrow> (store \<Rightarrow> store) \<Rightarrow> store \<Rightarrow> 'r \<times> store" where
  "interleaved shared exclusive others st =
     (case shared st of Some r \<Rightarrow> (r, others st) | None \<Rightarrow> exclusive (others st))"

locale double_checked =
  fixes shared :: "store \<Rightarrow> 'r option"
    and exclusive :: "store \<Rightarrow> 'r \<times> store"
  assumes agree: "shared st = Some r \<Longrightarrow> exclusive st = (r, st)"
begin

lemma atomic: "in_two_sections shared exclusive = exclusive"
  by (auto simp: in_two_sections_def fun_eq_iff agree split: option.split)

text \<open>The interleaved run is the atomic one, before or after the other threads.\<close>

lemma linearises:
  "interleaved shared exclusive others st = apsnd others (exclusive st) \<or>
   interleaved shared exclusive others st = exclusive (others st)"
  by (auto simp: interleaved_def agree split: option.split)

end

interpretation get_op: double_checked "get_shared A t k" "get_exclusive A t k" for A t k
  by unfold_locales
    (auto simp: get_shared_def get_exclusive_def erase_expired_locked_def
      split: option.splits if_splits)

interpretation exists_op: double_checked "exists_shared A t k" "exists_exclusive A t k" for A t k
  by unfold_locales
    (auto simp: exists_shared_def exists_exclusive_def erase_expired_locked_def
      split: option.splits if_splits)

interpretation ttl_op: double_checked "ttl_shared A t k" "ttl_exclusive A t k" for A t k
  by unfold_locales
    (auto simp: ttl_shared_def ttl_exclusive_def erase_expired_locked_def is_expired_def
      split: option.splits if_splits)

interpretation wall_op: double_checked "expiry_wall_time_shared A t k"
    "expiry_wall_time_exclusive A t k" for A t k
  by unfold_locales
    (auto simp: expiry_wall_time_shared_def expiry_wall_time_exclusive_def
      erase_expired_locked_def split: option.splits if_splits)

lemma store_get_eq:
  "store_get A c k st =
     (map_option entry_value (live_entry A (now c) st k), purge A (now c) k st)"
  by (simp add: store_get_def get_op.atomic get_exclusive_eq)

lemma store_exists_eq:
  "store_exists A c k st = (live_entry A (now c) st k \<noteq> None, purge A (now c) k st)"
  by (simp add: store_exists_def exists_op.atomic exists_exclusive_eq)

lemma store_ttl_eq:
  "store_ttl A c k st = (ttl_of (now c) (live_entry A (now c) st k), purge A (now c) k st)"
  by (simp add: store_ttl_def ttl_op.atomic ttl_exclusive_eq)

lemma store_expiry_wall_time_eq:
  "store_expiry_wall_time A c k st =
     (Option.bind (live_entry A (now c) st k) expires_at_wall, purge A (now c) k st)"
  by (simp add: store_expiry_wall_time_def wall_op.atomic expiry_wall_time_exclusive_eq)

section \<open>Writers\<close>

lemma set_entry_ok:
  assumes "store_ok A st" and "entry_ok A k e"
  shows "store_ok A (set_entry A t k e st)"
proof -
  have h: "hash_string_view A k mod length (shards st) = shard_index A st k"
    by (simp add: shard_index_def)
  show ?thesis
    by (rule store_ok_replace [OF assms(1) store_ok_index [OF assms(1), of k]
          shard_ok_store [OF store_ok_shard [OF assms(1), of k] h assms(2)]])
      (auto simp: set_entry_def Let_def um_sum_store shard_for_def split: option.split)
qed

lemma lookup_set_entry:
  assumes "store_ok A st"
  shows "lookup A (set_entry A t k e st) j = (if j = k then Some e else lookup A st j)"
  by (rule lookup_replace [OF assms, where m = "um_store k e (shards st ! shard_index A st k)"])
    (auto simp: set_entry_def Let_def um_facts store_ok_wf [OF assms] split: option.split)

text \<open>Removing the binding of a key, whatever its deadline.\<close>

definition remove :: "abi \<Rightarrow> int \<Rightarrow> string \<Rightarrow> store \<Rightarrow> store" where
  "remove A t k st =
     (case live_entry A t st k of
        None \<Rightarrow> purge A t k st
      | Some e \<Rightarrow> erase_entry (shard_index A st k) k e st)"

lemma remove_ok: "store_ok A st \<Longrightarrow> store_ok A (remove A t k st)"
  by (auto simp: remove_def purge_ok erase_entry_ok live_entry_Some split: option.split)

lemma lookup_remove:
  "store_ok A st \<Longrightarrow> lookup A (remove A t k st) j = (if j = k then None else lookup A st j)"
  by (auto simp: remove_def lookup_purge lookup_erase_entry split: option.split)

lemma set_already_expired_ok: "store_ok A st \<Longrightarrow> store_ok A (set_already_expired A k st)"
  by (auto simp: set_already_expired_def erase_entry_ok lookup_def split: option.split)

lemma lookup_set_already_expired:
  "store_ok A st \<Longrightarrow>
   lookup A (set_already_expired A k st) j = (if j = k then None else lookup A st j)"
  by (auto simp: set_already_expired_def lookup_erase_entry lookup_def [of A st]
      split: option.split)

lemma store_set_expiry_ok: "store_ok A st \<Longrightarrow> store_ok A (store_set_expiry A c k v w st)"
  by (auto simp: store_set_expiry_def Let_def set_entry_ok set_already_expired_ok entry_ok_def
      split: option.split)

lemma lookup_store_set_expiry:
  "store_ok A st \<Longrightarrow>
   lookup A (store_set_expiry A c k v w st) j =
     (if j = k
      then (if \<exists>wall. w = Some wall \<and> wall \<le> wall_now c then None
            else Some \<lparr>entry_value = v, expires_at = map_option (deadline A c) w,
                       expires_at_wall = w, stored_bytes = estimate_bytes A k v\<rparr>)
      else lookup A st j)"
  by (auto simp: store_set_expiry_def Let_def lookup_set_entry lookup_set_already_expired
      split: option.split)

lemma store_del_eq:
  "store_del A c k st = (live_entry A (now c) st k \<noteq> None, remove A (now c) k st)"
  by (simp add: store_del_def lookup_def live_entry_def remove_def purge_def
      erase_expired_locked_def Let_def split: option.split)

lemma del_keys_Cons:
  "del_keys A t (k # ks) n st =
     del_keys A t ks (if live_entry A t st k = None then n else n + 1) (remove A t k st)"
  by (simp add: lookup_def live_entry_def remove_def purge_def erase_expired_locked_def
      split: option.split)

lemma exists_keys_Cons:
  "exists_keys A t (k # ks) n st =
     exists_keys A t ks (if live_entry A t st k = None then n else n + 1) (purge A t k st)"
  by (simp add: lookup_def live_entry_def purge_def erase_expired_locked_def split: option.split)

section \<open>Expiry of one key\<close>

lemma set_expiry_ok:
  assumes "store_ok A st" and "lookup A st k = Some e"
  shows "store_ok A (set_expiry (shard_index A st k) k e wall d st)"
proof -
  have h: "hash_string_view A k mod length (shards st) = shard_index A st k"
    by (simp add: shard_index_def)
  have e: "entry_ok A k (e\<lparr>expires_at_wall := Some wall, expires_at := Some d\<rparr>)"
    using lookup_entry_ok [OF assms] by (simp add: entry_ok_def)
  show ?thesis
    by (rule store_ok_replace [OF assms(1) store_ok_index [OF assms(1), of k]
          shard_ok_store [OF store_ok_shard [OF assms(1), of k] h e]])
      (use assms(2) in \<open>auto simp: set_expiry_def um_sum_store lookup_def shard_for_def\<close>)
qed

lemma lookup_set_expiry:
  assumes "store_ok A st"
  shows "lookup A (set_expiry (shard_index A st k) k e wall d st) j =
    (if j = k then Some (e\<lparr>expires_at_wall := Some wall, expires_at := Some d\<rparr>)
     else lookup A st j)"
  by (rule lookup_replace [OF assms, where m = "um_store k
        (e\<lparr>expires_at_wall := Some wall, expires_at := Some d\<rparr>) (shards st ! shard_index A st k)"])
    (auto simp: set_expiry_def um_facts store_ok_wf [OF assms])

text \<open>\<open>due c w\<close>: the expiry \<open>w\<close> asks for immediate removal.\<close>

definition due :: "clock_reading \<Rightarrow> int option \<Rightarrow> bool" where
  "due c w = (case w of None \<Rightarrow> True | Some wall \<Rightarrow> wall \<le> wall_now c)"

lemma store_expire_at_eq:
  "store_expire_at A c1 c2 k w st =
     (case live_entry A (now c1) st k of
        None \<Rightarrow> (False, purge A (now c1) k st)
      | Some e \<Rightarrow>
          (True, if due c1 w then erase_entry (shard_index A st k) k e st
                 else set_expiry (shard_index A st k) k e (the w) (deadline A c2 (the w)) st))"
  by (auto simp: store_expire_at_def lookup_def live_entry_def purge_def due_def
      erase_expired_locked_def Let_def split: option.split)

lemma store_expire_at_ok: "store_ok A st \<Longrightarrow> store_ok A (snd (store_expire_at A c1 c2 k w st))"
  by (auto simp: store_expire_at_eq purge_ok erase_entry_ok set_expiry_ok live_entry_Some
      split: option.split)

lemma lookup_store_expire_at:
  "store_ok A st \<Longrightarrow>
   lookup A (snd (store_expire_at A c1 c2 k w st)) j =
     (if j \<noteq> k then lookup A st j
      else if due c1 w then None
      else map_option (\<lambda>e. e\<lparr>expires_at_wall := w, expires_at := map_option (deadline A c2) w\<rparr>)
             (live_entry A (now c1) st k))"
  by (auto simp: store_expire_at_eq lookup_purge lookup_erase_entry lookup_set_expiry due_def
      split: option.splits)

section \<open>Sweeps\<close>

abbreviation unexpired :: "int \<Rightarrow> shard \<Rightarrow> shard" where
  "unexpired t \<equiv> filter (\<lambda>b. \<not> is_expired (snd b) t)"

lemma sweep_entries_eq:
  "sweep_entries t m memory n =
     (unexpired t m,
      memory - um_sum stored_bytes m + um_sum stored_bytes (unexpired t m),
      n + of_nat (length m - length (unexpired t m)))"
  by (induction t m memory n rule: sweep_entries.induct)
    (auto simp: Suc_diff_le length_filter_le algebra_simps)

lemma sweep_shards_eq:
  "sweep_shards t ss memory n =
     (map (unexpired t) ss,
      memory - sum_list (map (um_sum stored_bytes) ss)
        + sum_list (map (\<lambda>m. um_sum stored_bytes (unexpired t m)) ss),
      n + sum_list (map (\<lambda>m. of_nat (length m - length (unexpired t m))) ss))"
  by (induction t ss memory n rule: sweep_shards.induct) (auto simp: sweep_entries_eq algebra_simps)

lemma shards_sweep: "shards (sweep t st) = map (unexpired t) (shards st)"
  by (simp add: sweep_def sweep_shards_eq)

lemma shard_ok_filter: "shard_ok A n i m \<Longrightarrow> shard_ok A n i (filter P m)"
  by (auto simp: shard_ok_def list_all_iff)

lemma sweep_ok: "store_ok A st \<Longrightarrow> store_ok A (sweep t st)"
  by (auto simp: store_ok_iff shard_ok_filter sweep_def sweep_shards_eq o_def)

lemma lookup_sweep: "store_ok A st \<Longrightarrow> lookup A (sweep t st) k = live_entry A t st k"
  using store_ok_wf [of A st k] store_ok_index [of A st k]
  by (auto simp: lookup_def live_entry_def shard_for_def shard_index_def um_find_filter shards_sweep
      split: option.split)

text \<open>Every binding of a sound store is found by \<open>lookup\<close>, and each key is bound once.\<close>

lemma binding_lookup:
  assumes "store_ok A st"
  shows "b \<in> set (concat (shards st)) \<longleftrightarrow> lookup A st (fst b) = Some (snd b)"
proof
  assume "b \<in> set (concat (shards st))"
  then obtain i where i: "i < length (shards st)" "b \<in> set (shards st ! i)"
    by (auto simp only: in_concat_nth)
  then have ok: "shard_ok A (length (shards st)) i (shards st ! i)"
    using assms by (simp add: store_ok_iff)
  with i have "shard_index A st (fst b) = i"
    by (auto simp: shard_ok_def list_all_iff shard_index_def)
  with i ok show "lookup A st (fst b) = Some (snd b)"
    by (simp add: lookup_def shard_for_def shard_ok_def um.find_entries)
next
  assume "lookup A st (fst b) = Some (snd b)"
  then have "b \<in> set (shards st ! shard_index A st (fst b))"
    using store_ok_wf [OF assms] by (simp add: lookup_def shard_for_def um.find_entries)
  then show "b \<in> set (concat (shards st))"
    using store_ok_index [OF assms] by (auto intro!: bexI nth_mem)
qed

lemma distinct_concat_index:
  "(\<And>i. i < length xss \<Longrightarrow> distinct (xss ! i)) \<Longrightarrow>
   (\<And>i x. i < length xss \<Longrightarrow> x \<in> set (xss ! i) \<Longrightarrow> h x = i) \<Longrightarrow> distinct (concat xss)"
proof (induction xss rule: rev_induct)
  case Nil
  then show ?case by simp
next
  case (snoc xs xss)
  have "distinct (concat xss)"
    using snoc.prems by (intro snoc.IH) (metis length_append_singleton less_SucI nth_append)+
  moreover have "distinct xs" using snoc.prems(1) [of "length xss"] by simp
  moreover have "x \<notin> set xs" if x: "x \<in> set (concat xss)" for x
  proof
    obtain i where i: "i < length xss" "x \<in> set (xss ! i)"
      using x by (auto simp only: in_concat_nth)
    assume "x \<in> set xs"
    then have "h x = length xss" using snoc.prems(2) [of "length xss" x] by simp
    moreover have "h x = i" using snoc.prems(2) [of i x] i by (simp add: nth_append)
    ultimately show False using i by simp
  qed
  ultimately show ?case by auto
qed

lemma distinct_keys:
  assumes "store_ok A st"
  shows "distinct (map fst (concat (shards st)))"
  unfolding map_concat
proof (rule distinct_concat_index [where h = "shard_index A st"])
  fix i
  assume i: "i < length (map (map fst) (shards st))"
  then have ok: "shard_ok A (length (shards st)) i (shards st ! i)"
    using assms by (simp add: store_ok_iff)
  then show "distinct (map (map fst) (shards st) ! i)"
    using i by (simp add: shard_ok_def um_wf_def)
  show "shard_index A st k = i" if "k \<in> set (map (map fst) (shards st) ! i)" for k
    using ok i that by (auto simp: shard_ok_def list_all_iff shard_index_def)
qed

lemma store_clear_ok: "store_ok A st \<Longrightarrow> store_ok A (store_clear st)"
  by (auto simp: store_ok_iff store_clear_def shard_ok_def o_def)

lemma lookup_store_clear: "store_ok A st \<Longrightarrow> lookup A (store_clear st) k = None"
  using store_ok_index [of A st k]
  by (simp add: lookup_def shard_for_def shard_index_def store_clear_def)

lemma new_store_ok: "new_store n cl = Inr st \<Longrightarrow> store_ok A st"
  by (auto simp: new_store_def store_ok_iff shard_ok_def sum_list_replicate split: if_splits)

lemma lookup_new_store: "new_store n cl = Inr st \<Longrightarrow> lookup A st k = None"
  by (auto simp: new_store_def lookup_def shard_for_def shard_index_def split: if_splits)

end
