(* ===== verification/Store_Spec.thy ===== *)
theory Store_Spec
  imports Store_Laws
begin

text \<open>
  The contract of the store: one plain map from keys to values with deadlines. The sharded
  store gives the same replies as this map on every history of operations whose clock does not
  run backwards, whatever the hash function, the number of shards and the random draws.
\<close>

section \<open>The map with deadlines\<close>

definition alive :: "int \<Rightarrow> cell \<times> int option \<times> int option \<Rightarrow> bool" where
  "alive t x = (case fst (snd x) of None \<Rightarrow> True | Some d \<Rightarrow> t < d)"

text \<open>Letting time pass until \<open>t\<close>.\<close>

definition advance :: "int \<Rightarrow> view \<Rightarrow> view" where
  "advance t db k = (case db k of None \<Rightarrow> None | Some x \<Rightarrow> if alive t x then Some x else None)"

datatype 'g store_op =
    Set clock_reading string cell "int option"
  | Get clock_reading string
  | Del clock_reading string
  | Del_many clock_reading "string list"
  | Exists clock_reading string
  | Exists_many clock_reading "string list"
  | Expire clock_reading clock_reading clock_reading string int
  | Expire_at clock_reading clock_reading string "int option"
  | Ttl clock_reading string
  | Keys clock_reading string
  | Expiry_wall_time clock_reading string
  | Active_expire clock_reading nat 'g
  | Export clock_reading
  | Clear
  | Import clock_reading persisted_entry

datatype store_reply =
    Finished
  | Found "cell option"
  | Flag bool
  | Count nat
  | Seconds int
  | Key_list keys_result
  | Wall "int option"
  | Entries "persisted_entry set"
  | Threw exn

text \<open>The steady-clock time of an operation; \<open>Clear\<close> does not read the clock.\<close>

fun op_time :: "'g store_op \<Rightarrow> int option" where
  "op_time (Set c k v w) = Some (now c)"
| "op_time (Get c k) = Some (now c)"
| "op_time (Del c k) = Some (now c)"
| "op_time (Del_many c ks) = Some (now c)"
| "op_time (Exists c k) = Some (now c)"
| "op_time (Exists_many c ks) = Some (now c)"
| "op_time (Expire c0 c1 c2 k s) = Some (now c1)"
| "op_time (Expire_at c1 c2 k w) = Some (now c1)"
| "op_time (Ttl c k) = Some (now c)"
| "op_time (Keys c pattern) = Some (now c)"
| "op_time (Expiry_wall_time c k) = Some (now c)"
| "op_time (Active_expire c n g) = Some (now c)"
| "op_time (Export c) = Some (now c)"
| "op_time Clear = None"
| "op_time (Import c pe) = Some (now c)"

definition put :: "abi \<Rightarrow> clock_reading \<Rightarrow> string \<Rightarrow> cell \<Rightarrow> int option \<Rightarrow> view \<Rightarrow> view" where
  "put A c k v w db =
     db(k := if \<exists>wall. w = Some wall \<and> wall \<le> wall_now c then None
             else Some (v, map_option (deadline A c) w, w))"

definition retime :: "abi \<Rightarrow> clock_reading \<Rightarrow> clock_reading \<Rightarrow> string \<Rightarrow> int option \<Rightarrow> view \<Rightarrow> view"
  where
  "retime A c1 c2 k w db =
     (case db k of
        None \<Rightarrow> db
      | Some (v, _) \<Rightarrow> db(k := if due c1 w then None else Some (v, map_option (deadline A c2) w, w)))"

definition expiry_of :: "abi \<Rightarrow> clock_reading \<Rightarrow> int \<Rightarrow> int" where
  "expiry_of A c s = (if s \<le> 0 then wall_now c else wall_now c + seconds_to_ticks A s)"

definition seconds_left :: "int \<Rightarrow> (cell \<times> int option \<times> int option) option \<Rightarrow> int" where
  "seconds_left t x =
     (case x of None \<Rightarrow> -2 | Some (_, None, _) \<Rightarrow> -1
      | Some (_, Some d, _) \<Rightarrow> (d - t) div 1000000000)"

fun spec_op :: "abi \<Rightarrow> 'g store_op \<Rightarrow> view \<Rightarrow> store_reply \<times> view" where
  "spec_op A (Set c k v w) db = (Finished, put A c k v w db)"
| "spec_op A (Get c k) db = (Found (map_option fst (db k)), db)"
| "spec_op A (Del c k) db = (Flag (db k \<noteq> None), db(k := None))"
| "spec_op A (Del_many c ks) db = (Count (card (set ks \<inter> dom db)), db |` (- set ks))"
| "spec_op A (Exists c k) db = (Flag (db k \<noteq> None), db)"
| "spec_op A (Exists_many c ks) db = (Count (length (filter (\<lambda>k. k \<in> dom db) ks)), db)"
| "spec_op A (Expire c0 c1 c2 k s) db =
     (Flag (db k \<noteq> None), retime A c1 c2 k (Some (expiry_of A c0 s)) db)"
| "spec_op A (Expire_at c1 c2 k w) db = (Flag (db k \<noteq> None), retime A c1 c2 k w db)"
| "spec_op A (Ttl c k) db = (Seconds (seconds_left (now c) (db k)), db)"
| "spec_op A (Keys c pattern) db =
     (Key_list (if pattern \<noteq> ''*'' then \<lparr>keys_status = Unsupported_pattern, keys_found = []\<rparr>
                else \<lparr>keys_status = Keys_ok, keys_found = sorted_list_of_set (dom db)\<rparr>), db)"
| "spec_op A (Expiry_wall_time c k) db = (Wall (Option.bind (db k) (snd \<circ> snd)), db)"
| "spec_op A (Active_expire c n g) db = (Finished, db)"
| "spec_op A (Export c) db =
     (Entries {\<lparr>pe_key = k, pe_value = v, pe_expiry_wall = w\<rparr> | k v d w. db k = Some (v, d, w)}, db)"
| "spec_op A Clear db = (Finished, Map.empty)"
| "spec_op A (Import c pe) db = (Finished, put A c (pe_key pe) (pe_value pe) (pe_expiry_wall pe) db)"

definition spec_step :: "abi \<Rightarrow> view \<Rightarrow> 'g store_op \<Rightarrow> store_reply \<times> view" where
  "spec_step A db op =
     spec_op A op (case op_time op of None \<Rightarrow> db | Some t \<Rightarrow> advance t db)"

text \<open>
  The same operations on the store. The number of keys an active-expiry cycle removes depends
  on the draws, so it is not part of the reply.
\<close>

fun store_step :: "abi \<Rightarrow> 'g distribution \<Rightarrow> store \<Rightarrow> 'g store_op \<Rightarrow> store_reply \<times> store" where
  "store_step A dist st (Set c k v w) = (Finished, store_set_expiry A c k v w st)"
| "store_step A dist st (Get c k) = apfst Found (store_get A c k st)"
| "store_step A dist st (Del c k) = apfst Flag (store_del A c k st)"
| "store_step A dist st (Del_many c ks) = apfst Count (store_del_many A c ks st)"
| "store_step A dist st (Exists c k) = apfst Flag (store_exists A c k st)"
| "store_step A dist st (Exists_many c ks) = apfst Count (store_exists_many A c ks st)"
| "store_step A dist st (Expire c0 c1 c2 k s) = apfst Flag (store_expire A c0 c1 c2 k s st)"
| "store_step A dist st (Expire_at c1 c2 k w) = apfst Flag (store_expire_at A c1 c2 k w st)"
| "store_step A dist st (Ttl c k) = apfst Seconds (store_ttl A c k st)"
| "store_step A dist st (Keys c pattern) = apfst Key_list (store_keys c pattern st)"
| "store_step A dist st (Expiry_wall_time c k) = apfst Wall (store_expiry_wall_time A c k st)"
| "store_step A dist st (Active_expire c n g) =
     (case active_expire_cycle dist c n g st of
        Inl e \<Rightarrow> (Threw e, st)
      | Inr (_, _, st') \<Rightarrow> (Finished, st'))"
| "store_step A dist st (Export c) = apfst (\<lambda>es. Entries (set es)) (export_snapshot_entries c st)"
| "store_step A dist st Clear = (Finished, store_clear st)"
| "store_step A dist st (Import c pe) = (Finished, import_snapshot_entry A c pe st)"

text \<open>The steady clock does not run backwards along a history.\<close>

fun clock_forward :: "int \<Rightarrow> 'g store_op list \<Rightarrow> bool" where
  "clock_forward t [] = True"
| "clock_forward t (op # ops) =
     (case op_time op of None \<Rightarrow> clock_forward t ops | Some u \<Rightarrow> t \<le> u \<and> clock_forward u ops)"

text \<open>What \<^verbatim>\<open>uniform_int_distribution{0, hi}\<close> promises: a result between 0 and \<open>hi\<close>.\<close>

definition in_range :: "'g distribution \<Rightarrow> bool" where
  "in_range dist \<longleftrightarrow> (\<forall>hi g. fst (dist hi g) \<le> hi)"

section \<open>The view after each operation\<close>

lemma alive_view_of: "alive t (view_of e) \<longleftrightarrow> \<not> is_expired e t"
  by (auto simp: alive_def view_of_def is_expired_def split: option.split)

lemma live_lookup: "live A t st = advance t (\<lambda>k. map_option view_of (lookup A st k))"
  by (auto simp: live_def live_entry_def advance_def alive_view_of fun_eq_iff split: option.split)

lemma advance_advance: "t \<le> u \<Longrightarrow> advance u (advance t db) = advance u db"
  by (auto simp: advance_def alive_def fun_eq_iff split: option.splits)

lemma advance_same [simp]: "advance t (advance t db) = advance t db"
  by (simp add: advance_advance)

lemma advance_live [simp]: "advance t (live A t st) = live A t st"
  by (simp add: live_lookup)

lemma live_later: "t \<le> u \<Longrightarrow> live A u st = advance u (live A t st)"
  by (simp add: live_lookup advance_advance)

lemma advance_update: "advance t (db(k := x)) = advance t ((advance t db)(k := x))"
  by (auto simp: advance_def fun_eq_iff split: option.split)

lemma advance_remove: "advance t (db(k := None)) = (advance t db)(k := None)"
  by (auto simp: advance_def fun_eq_iff)

lemma advance_empty: "advance t Map.empty = Map.empty"
  by (simp add: advance_def fun_eq_iff)

lemma live_update:
  assumes "\<And>j. lookup A st' j = (if j = k then x else lookup A st j)"
  shows "live A t st' = advance t ((live A t st)(k := map_option view_of x))"
proof -
  have "(\<lambda>j. map_option view_of (lookup A st' j)) =
      (\<lambda>j. map_option view_of (lookup A st j))(k := map_option view_of x)"
    by (simp add: assms fun_eq_iff)
  then show ?thesis by (simp add: live_lookup flip: advance_update)
qed

lemma live_store_set_expiry:
  assumes "store_ok A st"
  shows "live A t (store_set_expiry A c k v w st) = advance t (put A c k v w (live A t st))"
  by (subst live_update [OF lookup_store_set_expiry [OF assms]]) (auto simp: put_def view_of_def)

lemma live_remove:
  assumes "store_ok A st"
  shows "live A t (remove A u k st) = (live A t st)(k := None)"
  by (subst live_update [OF lookup_remove [OF assms]]) (simp add: advance_remove)

lemma live_store_expire_at:
  assumes "store_ok A st" and "now c1 = t"
  shows "live A t (snd (store_expire_at A c1 c2 k w st)) =
    advance t (retime A c1 c2 k w (live A t st))"
proof (cases "live_entry A t st k")
  case None
  then show ?thesis
    by (simp add: store_expire_at_eq live_purge assms retime_def live_def)
next
  case (Some e)
  have "lookup A (snd (store_expire_at A c1 c2 k w st)) j =
      (if j = k then if due c1 w then None
         else Some (e\<lparr>expires_at_wall := w, expires_at := map_option (deadline A c2) w\<rparr>)
       else lookup A st j)" for j
    by (simp add: lookup_store_expire_at assms Some)
  from live_update [OF this] show ?thesis
    using Some by (simp add: retime_def live_def view_of_def)
qed

lemma live_sweep: "store_ok A st \<Longrightarrow> live A t (sweep t st) = live A t st"
  by (auto simp: live_def live_entry_def lookup_sweep fun_eq_iff split: option.split)

lemma live_store_clear: "store_ok A st \<Longrightarrow> live A t (store_clear st) = Map.empty"
  by (simp add: live_def live_entry_def lookup_store_clear fun_eq_iff)

lemma live_new_store: "new_store n cl = Inr st \<Longrightarrow> live A t st = Map.empty"
  by (simp add: live_def live_entry_def lookup_new_store fun_eq_iff)

lemma live_None: "live A t st k = None \<longleftrightarrow> live_entry A t st k = None"
  by (simp add: live_def)

lemma dom_live: "k \<in> dom (live A t st) \<longleftrightarrow> live_entry A t st k \<noteq> None"
  by (simp add: live_def dom_def)

text \<open>Operations on several keys.\<close>

lemma card_keys_Cons:
  "card (set (k # ks) \<inter> D) = (if k \<in> D then 1 else 0) + card (set ks \<inter> (D - {k}))"
proof (cases "k \<in> D")
  case True
  then have "set (k # ks) \<inter> D = insert k (set ks \<inter> (D - {k}))" by auto
  with True show ?thesis by simp
next
  case False
  then have "set (k # ks) \<inter> D = set ks \<inter> (D - {k})" by auto
  with False show ?thesis by simp
qed

lemma del_keys_spec:
  "store_ok A st \<Longrightarrow>
   store_ok A (snd (del_keys A t ks n st)) \<and>
   fst (del_keys A t ks n st) = n + card (set ks \<inter> dom (live A t st)) \<and>
   live A t (snd (del_keys A t ks n st)) = live A t st |` (- set ks)"
proof (induction ks arbitrary: n st)
  case Nil
  then show ?case by simp
next
  case (Cons k ks)
  have "live A t (remove A t k st) = live A t st |` (- {k})"
    by (simp add: live_remove [OF Cons.prems] fun_eq_iff restrict_map_def)
  moreover have "- {k} \<inter> - set ks = - set (k # ks)" by auto
  moreover have "set ks \<inter> (dom (live A t st) \<inter> - {k}) = set ks \<inter> (dom (live A t st) - {k})" by auto
  ultimately show ?case
    using Cons.IH [OF remove_ok [OF Cons.prems, of t k]]
    unfolding del_keys_Cons card_keys_Cons
    by (simp only: dom_restrict restrict_restrict dom_live) simp
qed

lemma exists_keys_spec:
  "store_ok A st \<Longrightarrow>
   store_ok A (snd (exists_keys A t ks n st)) \<and>
   fst (exists_keys A t ks n st) = n + length (filter (\<lambda>k. k \<in> dom (live A t st)) ks) \<and>
   live A t (snd (exists_keys A t ks n st)) = live A t st"
proof (induction ks arbitrary: n st)
  case Nil
  then show ?case by simp
next
  case (Cons k ks)
  then show ?case
    using Cons.IH [OF purge_ok [OF Cons.prems]]
    by (simp only: exists_keys_Cons) (auto simp: live_purge dom_live)
qed

text \<open>Listing and exporting.\<close>

lemma set_bindings_sweep:
  assumes "store_ok A st"
  shows "b \<in> set (concat (shards (sweep t st))) \<longleftrightarrow> live_entry A t st (fst b) = Some (snd b)"
  using binding_lookup [OF sweep_ok [OF assms]] lookup_sweep [OF assms] by metis

lemma keys_sweep:
  assumes "store_ok A st"
  shows "sort (concat (map (map fst) (shards (sweep t st)))) = sorted_list_of_set (dom (live A t st))"
proof -
  let ?ks = "map fst (concat (shards (sweep t st)))"
  have "set ?ks = dom (live A t st)"
  proof (intro set_eqI)
    fix k
    have "k \<in> set ?ks \<longleftrightarrow> (\<exists>e. (k, e) \<in> set (concat (shards (sweep t st))))" by force
    then show "k \<in> set ?ks \<longleftrightarrow> k \<in> dom (live A t st)"
      by (simp only: set_bindings_sweep [OF assms] dom_live) auto
  qed
  then have "sorted_list_of_set (dom (live A t st)) = sort (remdups ?ks)"
    using sorted_list_of_set_sort_remdups [of ?ks] by simp
  also have "remdups ?ks = ?ks"
    by (rule distinct_remdups_id) (rule distinct_keys [OF sweep_ok [OF assms]])
  finally show ?thesis by (simp add: map_concat)
qed

lemma export_sweep:
  assumes "store_ok A st"
  shows "set (concat (map (map persisted) (shards (sweep t st)))) =
    {\<lparr>pe_key = k, pe_value = v, pe_expiry_wall = w\<rparr> | k v d w. live A t st k = Some (v, d, w)}"
    (is "?E = ?S")
proof -
  have "?E = persisted ` set (concat (shards (sweep t st)))" by (auto simp: map_concat)
  also have "\<dots> = persisted ` {b. live_entry A t st (fst b) = Some (snd b)}"
    using set_bindings_sweep [OF assms] by blast
  also have "\<dots> = ?S"
  proof (intro set_eqI iffI)
    fix x
    assume "x \<in> persisted ` {b. live_entry A t st (fst b) = Some (snd b)}"
    then show "x \<in> ?S" by (auto simp: persisted_def live_def view_of_def)
  next
    fix x
    assume "x \<in> ?S"
    then obtain k e where "live_entry A t st k = Some e" and "x = persisted (k, e)"
      by (auto simp: persisted_def live_def view_of_def)
    then show "x \<in> persisted ` {b. live_entry A t st (fst b) = Some (snd b)}" by force
  qed
  finally show ?thesis .
qed

section \<open>Active expiry\<close>

text \<open>A store from which some expired bindings were removed.\<close>

inductive purged :: "abi \<Rightarrow> int \<Rightarrow> store \<Rightarrow> store \<Rightarrow> bool" for A t st where
  nothing: "purged A t st st"
| another: "purged A t st st' \<Longrightarrow> purged A t st (purge A t k st')"

lemma purged_trans: "purged A t st' st'' \<Longrightarrow> purged A t st st' \<Longrightarrow> purged A t st st''"
  by (induction rule: purged.induct) (auto intro: purged.intros)

lemma purged_exists_keys: "purged A t st (snd (exists_keys A t ks n st))"
proof (induction ks arbitrary: n st)
  case Nil
  then show ?case by (simp add: purged.nothing)
next
  case (Cons k ks)
  have "purged A t st (purge A t k st)" by (rule purged.another [OF purged.nothing])
  then show ?case using purged_trans [OF Cons.IH] by (simp only: exists_keys_Cons)
qed

definition bindings :: "store \<Rightarrow> nat" where
  "bindings st = length (concat (shards st))"

lemma length_um_erase: "um_find k m = Some e \<Longrightarrow> Suc (length (um_erase k m)) = length m"
  by (induction k m rule: um_erase.induct) (auto split: if_splits)

lemma sum_list_replace_nat:
  "i < length xs \<Longrightarrow> Suc x = xs ! i \<Longrightarrow> Suc (sum_list (xs[i := x])) = sum_list xs"
  by (induction xs arbitrary: i) (auto split: nat.splits)

lemma bindings_erase_entry:
  assumes "store_ok A st" and "lookup A st k = Some e"
  shows "Suc (bindings ((erase_entry (shard_index A st k) k e st)\<lparr>expired_keys := n\<rparr>)) = bindings st"
  using sum_list_replace_nat [of "shard_index A st k" "map length (shards st)"
      "length (um_erase k (shards st ! shard_index A st k))"]
    store_ok_index [OF assms(1)] length_um_erase [of k _ e] assms(2)
  by (simp add: bindings_def erase_entry_def length_concat map_update lookup_def shard_for_def)

text \<open>
  One attempt on the binding at position \<open>n\<close> of shard \<open>i\<close> is a \<open>purge\<close> of its key, and it
  leaves the shard at most one binding shorter.
\<close>

lemma attempt_is_purge:
  assumes "store_ok A st" and "i < length (shards st)" and "n < length (shards st ! i)"
    and "shards st ! i ! n = (k, e)"
  shows "lookup A st k = Some e \<and> shard_index A st k = i"
proof -
  have m: "(k, e) \<in> set (shards st ! i)" using assms(3,4) by (metis nth_mem)
  have "shard_ok A (length (shards st)) i (shards st ! i)"
    using assms(1,2) by (simp add: store_ok_iff)
  with m show ?thesis
    using binding_lookup [OF assms(1), of "(k, e)"] assms(2)
    by (auto simp: shard_ok_def list_all_iff shard_index_def in_concat_nth)
qed

lemma expire_attempts_spec:
  assumes "in_range dist"
  shows "store_ok A st \<Longrightarrow> i < length (shards st) \<Longrightarrow> attempts \<le> length (shards st ! i) \<Longrightarrow>
    \<exists>n g' st'. expire_attempts dist t i attempts expired g st = Inr (n, g', st') \<and>
      store_ok A st' \<and> live A t st' = live A t st \<and> length (shards st') = length (shards st) \<and>
      bindings st' + n = bindings st + expired \<and> purged A t st st'"
proof (induction attempts arbitrary: expired g st)
  case 0
  then show ?case by (simp add: purged.nothing)
next
  case (Suc attempts)
  obtain n g' where d: "dist (length (shards st ! i) - 1) g = (n, g')" by fastforce
  have "fst (dist (length (shards st ! i) - 1) g) \<le> length (shards st ! i) - 1"
    using assms by (simp add: in_range_def)
  then have n: "n < length (shards st ! i)"
    using d Suc.prems(3) by simp
  obtain k e where ke: "shards st ! i ! n = (k, e)" by fastforce
  note at = attempt_is_purge [OF Suc.prems(1,2) n ke]
  obtain er st' where er: "erase_expired_locked i k e t st = (er, st')" by fastforce
  have "st' = purge A t k st" using at er by (simp add: purge_def)
  then have st': "store_ok A st'" "live A t st' = live A t st" "purged A t st st'"
    by (simp_all add: purge_ok live_purge Suc.prems(1) purged.intros)
  have len: "length (shards st') = length (shards st)" "attempts \<le> length (shards st' ! i)"
    using er Suc.prems(2,3) at length_um_erase [of k "shards st ! i" e]
    by (auto simp: erase_expired_locked_def erase_entry_def lookup_def shard_for_def
        split: if_splits)
  have "bindings st' + (if er then expired + 1 else expired) = bindings st + expired"
    using er bindings_erase_entry [OF Suc.prems(1), of k e] at
    by (auto simp: erase_expired_locked_def split: if_splits)
  with Suc.IH [OF st'(1) _ len(2), of "if er then expired + 1 else expired" g'] Suc.prems(2)
    purged_trans [OF _ st'(3)]
  show ?case by (fastforce simp: d [simplified] n ke er len st'(2) Let_def)
qed

lemma expire_shards_spec:
  assumes "in_range dist"
  shows "store_ok A st \<Longrightarrow> list_all (\<lambda>i. i < length (shards st)) is \<Longrightarrow>
    \<exists>n g' st'. expire_shards dist t samples is expired g st = Inr (n, g', st') \<and>
      store_ok A st' \<and> live A t st' = live A t st \<and> bindings st' + n = bindings st + expired \<and>
      purged A t st st'"
proof (induction "is" arbitrary: expired g st)
  case Nil
  then show ?case by (simp add: purged.nothing)
next
  case (Cons i js)
  then have js: "list_all (\<lambda>i. i < length (shards st)) js" by simp
  show ?case
  proof (cases "shards st ! i = []")
    case True
    then show ?thesis using Cons.IH [OF Cons.prems(1) js] by simp
  next
    case False
    obtain n g' st' where a: "expire_attempts dist t i (min samples (length (shards st ! i))) expired g
          st = Inr (n, g', st')" "store_ok A st'" "live A t st' = live A t st"
        "length (shards st') = length (shards st)" "bindings st' + n = bindings st + expired"
        "purged A t st st'"
      using expire_attempts_spec [OF assms Cons.prems(1), of i "min samples (length (shards st ! i))"
          t expired g] Cons.prems(2) by auto
    with Cons.IH [of st' n g'] js False purged_trans [OF _ a(6)] show ?thesis by fastforce
  qed
qed

lemma active_expire_cycle_spec:
  assumes "in_range dist" and "store_ok A st"
  shows "\<exists>n g' st'. active_expire_cycle dist c samples g st = Inr (n, g', st') \<and>
      store_ok A st' \<and> live A (now c) st' = live A (now c) st \<and> bindings st' + n = bindings st \<and>
      purged A (now c) st st'"
  using expire_shards_spec [OF assms, of "[0..<length (shards st)]" "now c" samples 0 g] assms(2)
  by (auto simp: active_expire_cycle_def list_all_iff purged.nothing)

section \<open>The store refines the map\<close>

lemma view_reads:
  "map_option fst (live A t st k) = map_option entry_value (live_entry A t st k)"
  "Option.bind (live A t st k) (snd \<circ> snd) = Option.bind (live_entry A t st k) expires_at_wall"
  "seconds_left t (live A t st k) = ttl_of t (live_entry A t st k)"
  by (cases "live_entry A t st k";
      simp add: live_def view_of_def seconds_left_def ttl_of_def split: option.split)+

lemma store_expire_eq:
  "store_expire A c0 c1 c2 k s st = store_expire_at A c1 c2 k (Some (expiry_of A c0 s)) st"
  by (simp add: store_expire_def expiry_of_def)

lemma store_expire_at_reply:
  "fst (store_expire_at A c1 c2 k w st) = (live_entry A (now c1) st k \<noteq> None)"
  by (simp add: store_expire_at_eq split: option.split)

lemma store_del_many_spec:
  "store_ok A st \<Longrightarrow>
   fst (store_del_many A c ks st) = card (set ks \<inter> dom (live A (now c) st)) \<and>
   store_ok A (snd (store_del_many A c ks st)) \<and>
   live A (now c) (snd (store_del_many A c ks st)) = live A (now c) st |` (- set ks)"
  using del_keys_spec [of A st "now c" ks 0] by (auto simp: store_del_many_def restrict_map_def)

lemma store_exists_many_spec:
  "store_ok A st \<Longrightarrow>
   fst (store_exists_many A c ks st) = length (filter (\<lambda>k. k \<in> dom (live A (now c) st)) ks) \<and>
   store_ok A (snd (store_exists_many A c ks st)) \<and>
   live A (now c) (snd (store_exists_many A c ks st)) = live A (now c) st"
  using exists_keys_spec [of A st "now c" ks 0] by (simp add: store_exists_many_def)

lemma advance_restrict: "advance t (db |` K) = advance t db |` K"
  by (auto simp: advance_def restrict_map_def fun_eq_iff)

lemmas store_eqs = store_get_eq store_exists_eq store_ttl_eq store_expiry_wall_time_eq store_del_eq
  store_expire_eq import_snapshot_entry_def store_keys_def export_snapshot_entries_def

lemmas store_oks = purge_ok remove_ok store_set_expiry_ok store_expire_at_ok sweep_ok
  store_clear_ok

lemmas store_lives = live_purge live_remove live_store_set_expiry live_store_expire_at live_sweep
  live_store_clear

lemma store_step_refines:
  assumes "in_range dist" and ok: "store_ok A st" and "op_time op = None \<or> op_time op = Some t"
  shows "fst (store_step A dist st op) = fst (spec_op A op (live A t st)) \<and>
    store_ok A (snd (store_step A dist st op)) \<and>
    live A t (snd (store_step A dist st op)) = advance t (snd (spec_op A op (live A t st)))"
proof (cases op)
  case (Del_many c ks)
  then show ?thesis
    using assms(3) store_del_many_spec [OF ok, of c ks] by (auto simp: advance_restrict)
next
  case (Exists_many c ks)
  then show ?thesis
    using assms(3) store_exists_many_spec [OF ok, of c ks] by auto
next
  case (Active_expire c n g)
  then show ?thesis
    using assms(3) active_expire_cycle_spec [OF assms(1) ok, of c n g] by auto
next
  case (Keys c pattern)
  then show ?thesis
    using assms(3) ok by (simp add: store_eqs store_oks store_lives keys_sweep Let_def)
next
  case (Export c)
  then show ?thesis
    using assms(3) ok by (simp add: store_eqs store_oks store_lives export_sweep Let_def
        del: set_concat set_map)
next
  case (Expire c0 c1 c2 k s)
  then show ?thesis
    using assms(3) ok by (simp add: store_eqs store_oks store_lives store_expire_at_reply live_None)
next
  case (Expire_at c1 c2 k w)
  then show ?thesis
    using assms(3) ok by (simp add: store_eqs store_oks store_lives store_expire_at_reply live_None)
qed (use assms(3) ok in \<open>simp_all add: store_eqs store_oks store_lives view_reads live_None
    advance_remove advance_empty\<close>)

definition store_sim :: "abi \<Rightarrow> int \<Rightarrow> store \<Rightarrow> view \<Rightarrow> bool" where
  "store_sim A t st db \<longleftrightarrow> store_ok A st \<and> live A t st = advance t db"

definition time_after :: "int \<Rightarrow> 'g store_op \<Rightarrow> int" where
  "time_after t op = (case op_time op of None \<Rightarrow> t | Some u \<Rightarrow> u)"

lemma store_sim_step:
  assumes "store_sim A t st db" and "clock_forward t (op # ops)" and "in_range dist"
  shows "fst (store_step A dist st op) = fst (spec_step A db op) \<and>
    store_sim A (time_after t op) (snd (store_step A dist st op)) (snd (spec_step A db op))"
proof (cases "op_time op")
  case None
  then have "op = Clear" by (cases op) auto
  then show ?thesis
    using assms(1) by (auto simp: store_sim_def spec_step_def time_after_def store_clear_ok
        live_store_clear advance_empty)
next
  case (Some u)
  then have "t \<le> u" using assms(2) by simp
  then have "live A u st = advance u db"
    using assms(1) by (simp add: store_sim_def live_later [of t u] advance_advance)
  then show ?thesis
    using store_step_refines [OF assms(3), of A st op u] Some assms(1)
    by (simp add: store_sim_def spec_step_def time_after_def)
qed

interpretation store_map: simulation "store_step A dist" "spec_step A" "store_sim A"
    "\<lambda>t ops. clock_forward t ops \<and> in_range dist" time_after for A dist
proof
  show "clock_forward (time_after t op) ops \<and> in_range dist"
    if "clock_forward t (op # ops) \<and> in_range dist" for t op ops
    using that by (auto simp: time_after_def split: option.splits)
qed (use store_sim_step in blast)+

interpretation store_runs: run_invariant "\<lambda>st op. snd (store_step A dist st op)" "store_ok A"
    "\<lambda>_. in_range dist" for A and dist :: "'g distribution"
proof
  fix st :: store and op :: "'g store_op"
  assume "store_ok A st" and "in_range dist"
  moreover obtain t where "op_time op = None \<or> op_time op = Some t"
    by (cases "op_time op") auto
  ultimately show "store_ok A (snd (store_step A dist st op))"
    using store_step_refines by blast
qed

section \<open>Properties of the store\<close>

text \<open>
  C4: The store is a map with deadlines. From a new store, every history of operations (with a
  steady clock that does not run backwards and random draws within their range) gets exactly the
  replies of one plain map from keys to values with deadlines, for every hash function, every
  number of shards and every sequence of draws: expired keys are never seen, \<^verbatim>\<open>TTL\<close> counts down
  to the deadline, \<^verbatim>\<open>KEYS\<close> lists the live keys in order, deletions count each key once.
\<close>

theorem store_refines_map:
  assumes "new_store n cl = Inr st" and "clock_forward t ops" and "in_range dist"
  shows "fst (replies (store_step A dist) st ops) = fst (replies (spec_step A) Map.empty ops)"
proof -
  have "store_sim A t st Map.empty"
    using new_store_ok [OF assms(1)] live_new_store [OF assms(1)]
    by (simp add: store_sim_def advance_empty)
  then show ?thesis using store_map.replies_agree assms(2,3) by blast
qed

text \<open>An ABI, a clock and a history for the examples.\<close>

definition sample_abi :: abi where
  "sample_abi = \<lparr>hash_string_view = length, sizeof_Entry = 96, tick_ns = 1000\<rparr>"

definition sample_clock :: "int \<Rightarrow> clock_reading" where
  "sample_clock s = \<lparr>now = s * 1000000000, wall_now = s * 1000000\<rparr>"

definition sample_dist :: "unit distribution" where
  "sample_dist hi g = (hi, g)"

definition sample_history :: "unit store_op list" where
  "sample_history =
     [Set (sample_clock 1) ''a'' (VInt 7) None, Set (sample_clock 1) ''bc'' (VString ''x'') None,
      Expire (sample_clock 2) (sample_clock 2) (sample_clock 2) ''a'' 5,
      Get (sample_clock 6) ''a'', Active_expire (sample_clock 8) 20 (), Get (sample_clock 8) ''a'',
      Keys (sample_clock 9) ''*'']"

theorem store_refines_map_witness:
  "new_store 2 (Some (sample_clock 0)) =
     Inr \<lparr>shards = [[], []], approximate_memory = 0, expired_keys = 0\<rparr> \<and>
   clock_forward 0 sample_history \<and> in_range sample_dist \<and>
   fst (replies (store_step sample_abi sample_dist)
       \<lparr>shards = [[], []], approximate_memory = 0, expired_keys = 0\<rparr> sample_history) =
     fst (replies (spec_step sample_abi) Map.empty sample_history)"
proof -
  have n: "new_store 2 (Some (sample_clock 0)) =
      Inr \<lparr>shards = [[], []], approximate_memory = 0, expired_keys = 0\<rparr>"
    by (simp add: new_store_def numeral_2_eq_2)
  have h: "clock_forward 0 sample_history"
    by (simp add: sample_history_def sample_clock_def)
  have d: "in_range sample_dist" by (simp add: in_range_def sample_dist_def)
  show ?thesis using n h d store_refines_map [OF n h d] by simp
qed

text \<open>
  C22: Memory accounting is exact. After any sequence of operations on a new store the memory
  counter equals the sum, modulo \<open>2 ^ 64\<close>, of the estimated sizes of the bindings held, and no
  key is held twice.
\<close>

theorem store_memory_exact:
  assumes "new_store n cl = Inr st" and "in_range dist"
  shows "let st' = foldl (\<lambda>s op. snd (store_step A dist s op)) st ops in
    approximate_memory st' =
      sum_list (map (\<lambda>(k, e). estimate_bytes A k (entry_value e)) (concat (shards st'))) \<and>
    distinct (map fst (concat (shards st')))"
proof -
  define st' where "st' = foldl (\<lambda>s op. snd (store_step A dist s op)) st ops"
  have ok: "store_ok A st'"
    unfolding st'_def using assms
    by (intro store_runs.run_inv new_store_ok) (auto simp: list_all_iff)
  have "sum_list (map (um_sum stored_bytes) (shards st')) =
      sum_list (map (stored_bytes \<circ> snd) (concat (shards st')))"
    unfolding um_sum_concat by (simp only: um_sum_def)
  also have "map (stored_bytes \<circ> snd) (concat (shards st')) =
      map (\<lambda>(k, e). estimate_bytes A k (entry_value e)) (concat (shards st'))"
    using binding_lookup [OF ok] lookup_entry_ok [OF ok]
    by (intro map_cong) (auto simp: entry_ok_def simp del: set_concat)
  finally show ?thesis
    using ok distinct_keys [OF ok] by (simp add: store_ok_iff flip: st'_def)
qed

theorem store_memory_exact_witness:
  "new_store 1 (Some (sample_clock 0)) =
     Inr \<lparr>shards = [[]], approximate_memory = 0, expired_keys = 0\<rparr> \<and>
   in_range sample_dist \<and>
   (let st' = foldl (\<lambda>s op. snd (store_step sample_abi sample_dist s op))
        \<lparr>shards = [[]], approximate_memory = 0, expired_keys = 0\<rparr> sample_history in
    approximate_memory st' =
      sum_list (map (\<lambda>(k, e). estimate_bytes sample_abi k (entry_value e)) (concat (shards st'))) \<and>
    distinct (map fst (concat (shards st'))))"
proof -
  have n: "new_store 1 (Some (sample_clock 0)) =
      Inr \<lparr>shards = [[]], approximate_memory = 0, expired_keys = 0\<rparr>"
    by (simp add: new_store_def)
  have d: "in_range sample_dist" by (simp add: in_range_def sample_dist_def)
  show ?thesis using n d store_memory_exact [OF n d] by simp
qed

text \<open>
  C23: The readers that look first under a shared lock and again under an exclusive lock are
  atomic: whatever other threads do to the store between the two sections, the outcome is that
  of the whole operation run at once, either before or after them.
\<close>

theorem readers_linearise:
  "(interleaved (get_shared A (now c) k) (get_exclusive A (now c) k) others st
      \<in> {apsnd others (store_get A c k st), store_get A c k (others st)}) \<and>
   (interleaved (exists_shared A (now c) k) (exists_exclusive A (now c) k) others st
      \<in> {apsnd others (store_exists A c k st), store_exists A c k (others st)}) \<and>
   (interleaved (ttl_shared A (now c) k) (ttl_exclusive A (now c) k) others st
      \<in> {apsnd others (store_ttl A c k st), store_ttl A c k (others st)}) \<and>
   (interleaved (expiry_wall_time_shared A (now c) k) (expiry_wall_time_exclusive A (now c) k)
        others st
      \<in> {apsnd others (store_expiry_wall_time A c k st),
          store_expiry_wall_time A c k (others st)})"
  using get_op.linearises exists_op.linearises ttl_op.linearises wall_op.linearises
  by (simp add: store_get_def store_exists_def store_ttl_def store_expiry_wall_time_def
      get_op.atomic exists_op.atomic ttl_op.atomic wall_op.atomic)

text \<open>
  C24: An active-expiry cycle never dereferences an iterator past the end of a shard, removes
  only keys whose deadline has passed (the live view stays the same), and returns the number of
  bindings it removed.
\<close>

theorem active_expire_safe:
  assumes "in_range dist" and "store_ok A st"
  shows "\<exists>n g' st'. active_expire_cycle dist c samples g st = Inr (n, g', st') \<and>
    live A (now c) st' = live A (now c) st \<and>
    length (concat (shards st')) + n = length (concat (shards st))"
  using active_expire_cycle_spec [OF assms] by (simp only: bindings_def) blast

theorem active_expire_safe_witness:
  "\<exists>n g' st'. active_expire_cycle sample_dist (sample_clock 3) 20 ()
       (store_set sample_abi (sample_clock 1) ''k'' (VInt 1)
         \<lparr>shards = [[]], approximate_memory = 0, expired_keys = 0\<rparr>) = Inr (n, g', st') \<and>
     live sample_abi (now (sample_clock 3)) st' =
       live sample_abi (now (sample_clock 3)) (store_set sample_abi (sample_clock 1) ''k'' (VInt 1)
         \<lparr>shards = [[]], approximate_memory = 0, expired_keys = 0\<rparr>) \<and>
     length (concat (shards st')) + n = 1"
proof -
  let ?st = "store_set sample_abi (sample_clock 1) ''k'' (VInt 1)
      \<lparr>shards = [[]], approximate_memory = 0, expired_keys = 0\<rparr>"
  have d: "in_range sample_dist" by (simp add: in_range_def sample_dist_def)
  have ok: "store_ok sample_abi ?st"
    unfolding store_set_def
    by (rule store_set_expiry_ok) (simp add: store_ok_iff shard_ok_def)
  have "length (concat (shards ?st)) = 1"
    by (simp add: store_set_def store_set_expiry_def set_entry_def Let_def shard_for_def
        shard_index_def)
  then show ?thesis
    using active_expire_safe [OF d ok, of "sample_clock 3" 20 "()"] by simp
qed

end
