(* ===== verification/Locks.thy ===== *)
theory Locks
  imports Store_Spec
begin

text \<open>
  The locking of \<^verbatim>\<open>src/store/store.cpp\<close>: every member function as the sequence of its critical
  sections, each the list of shard mutexes it takes in order, and any number of threads that
  acquire and release them step by step. \<^verbatim>\<open>del_many\<close> and \<^verbatim>\<open>exists_many\<close> hold several mutexes at
  once; that they take them in one global order rules out deadlock.
\<close>

section \<open>Threads and mutexes\<close>

datatype lock_mode = Shared | Exclusive

type_synonym lock = "nat \<times> lock_mode"

text \<open>
  \<open>sections\<close> holds what a thread has still to do, the head being the rest of the section it is
  in; \<open>held\<close> is what it has locked in that section.
\<close>

record thread =
  sections :: "lock list list"
  held :: "lock list"

definition grantable :: "thread list \<Rightarrow> nat \<Rightarrow> lock_mode \<Rightarrow> bool" where
  "grantable ts m mode =
     list_all (\<lambda>th. list_all (\<lambda>(m', mode'). m' = m \<longrightarrow> mode = Shared \<and> mode' = Shared) (held th)) ts"

inductive lock_step :: "thread list \<Rightarrow> thread list \<Rightarrow> bool" where
  acquire: "i < length ts \<Longrightarrow> sections (ts ! i) = ((m, mode) # rs) # ss \<Longrightarrow> grantable ts m mode \<Longrightarrow>
    lock_step ts (ts[i := \<lparr>sections = rs # ss, held = (m, mode) # held (ts ! i)\<rparr>])"
| release: "i < length ts \<Longrightarrow> sections (ts ! i) = [] # ss \<Longrightarrow>
    lock_step ts (ts[i := \<lparr>sections = ss, held = []\<rparr>])"

inductive_cases lock_stepE: "lock_step ts ts'"

text \<open>
  The sections of each operation. \<open>slow\<close> tells whether a reader goes on to its exclusive
  section.
\<close>

definition read_sections :: "nat \<Rightarrow> bool \<Rightarrow> lock list list" where
  "read_sections i slow = (if slow then [[(i, Shared)], [(i, Exclusive)]] else [[(i, Shared)]])"

definition many_sections :: "abi \<Rightarrow> store \<Rightarrow> string list \<Rightarrow> lock list list" where
  "many_sections A st ks =
     (if ks = [] then [] else [map (\<lambda>m. (m, Exclusive)) (locks_for A st ks)])"

definition sweep_sections :: "store \<Rightarrow> lock list list" where
  "sweep_sections st = map (\<lambda>i. [(i, Exclusive)]) [0..<length (shards st)]"

fun lock_sections :: "abi \<Rightarrow> store \<Rightarrow> 'g store_op \<Rightarrow> bool \<Rightarrow> lock list list" where
  "lock_sections A st (Set c k v w) slow = [[(shard_index A st k, Exclusive)]]"
| "lock_sections A st (Get c k) slow = read_sections (shard_index A st k) slow"
| "lock_sections A st (Del c k) slow = [[(shard_index A st k, Exclusive)]]"
| "lock_sections A st (Del_many c ks) slow = many_sections A st ks"
| "lock_sections A st (Exists c k) slow = read_sections (shard_index A st k) slow"
| "lock_sections A st (Exists_many c ks) slow = many_sections A st ks"
| "lock_sections A st (Expire c0 c1 c2 k s) slow = [[(shard_index A st k, Exclusive)]]"
| "lock_sections A st (Expire_at c1 c2 k w) slow = [[(shard_index A st k, Exclusive)]]"
| "lock_sections A st (Ttl c k) slow = read_sections (shard_index A st k) slow"
| "lock_sections A st (Keys c pattern) slow = (if pattern \<noteq> ''*'' then [] else sweep_sections st)"
| "lock_sections A st (Expiry_wall_time c k) slow = read_sections (shard_index A st k) slow"
| "lock_sections A st (Active_expire c n g) slow = (if n = 0 then [] else sweep_sections st)"
| "lock_sections A st (Export c) slow = sweep_sections st"
| "lock_sections A st Clear slow = sweep_sections st"
| "lock_sections A st (Import c pe) slow = [[(shard_index A st (pe_key pe), Exclusive)]]"

section \<open>The lock order\<close>

lemma distinct_remdups_adj_sorted: "sorted (xs :: nat list) \<Longrightarrow> distinct (remdups_adj xs)"
  by (induction xs rule: remdups_adj.induct) (auto split: if_splits)

lemma lock_order: "sorted_wrt (<) (lock_mutexes_in_order ms)"
proof -
  have "sorted (remdups_adj (sort ms))" by simp
  moreover have "distinct (remdups_adj (sort ms))" by (simp add: distinct_remdups_adj_sorted)
  ultimately show ?thesis by (simp add: lock_mutexes_in_order_def strict_sorted_iff)
qed

definition ordered :: "lock list \<Rightarrow> bool" where
  "ordered ls = sorted_wrt (<) (map fst ls)"

lemma lock_sections_ordered: "list_all ordered (lock_sections A st op slow)"
  using lock_order
  by (cases op) (auto simp: ordered_def read_sections_def many_sections_def sweep_sections_def
      locks_for_def list_all_iff comp_def)

text \<open>
  What a thread still requests in its section lies above what it holds, and it holds nothing
  outside a section.
\<close>

fun thread_ok :: "lock list list \<Rightarrow> lock list \<Rightarrow> bool" where
  "thread_ok [] hs = (hs = [])"
| "thread_ok (ls # ss) hs =
     (list_all ordered (ls # ss) \<and> list_all (\<lambda>h. list_all (\<lambda>l. fst h < fst l) ls) hs)"

definition threads_ok :: "thread list \<Rightarrow> bool" where
  "threads_ok ts = list_all (\<lambda>th. thread_ok (sections th) (held th)) ts"

lemma threads_ok_update:
  "threads_ok ts \<Longrightarrow> thread_ok (sections th) (held th) \<Longrightarrow> threads_ok (ts[i := th])"
  using set_update_subset_insert [of ts i th] by (auto simp: threads_ok_def list_all_iff)

lemma threads_ok_nth:
  "threads_ok ts \<Longrightarrow> i < length ts \<Longrightarrow> thread_ok (sections (ts ! i)) (held (ts ! i))"
  by (simp add: threads_ok_def list_all_length)

lemma thread_ok_release: "thread_ok ([] # ss) hs \<Longrightarrow> thread_ok ss []"
  by (cases ss) simp_all

lemma thread_ok_acquire: "thread_ok ((l # rs) # ss) hs \<Longrightarrow> thread_ok (rs # ss) (l # hs)"
  by (auto simp: ordered_def list_all_iff)

lemma lock_step_ok: "lock_step ts ts' \<Longrightarrow> threads_ok ts \<Longrightarrow> threads_ok ts'"
proof (induction rule: lock_step.induct)
  case (acquire i ts m mode rs ss)
  have "thread_ok (((m, mode) # rs) # ss) (held (ts ! i))"
    using threads_ok_nth [OF acquire.prems acquire.hyps(1)] unfolding acquire.hyps(2) .
  then show ?case
    by (intro threads_ok_update [OF acquire.prems]) (simp add: thread_ok_acquire del: thread_ok.simps)
next
  case (release i ts ss)
  have "thread_ok ([] # ss) (held (ts ! i))"
    using threads_ok_nth [OF release.prems release.hyps(1)] unfolding release.hyps(2) .
  then show ?case
    by (intro threads_ok_update [OF release.prems]) (simp add: thread_ok_release del: thread_ok.simps)
qed

lemma lock_steps_ok: "lock_step\<^sup>*\<^sup>* ts ts' \<Longrightarrow> threads_ok ts \<Longrightarrow> threads_ok ts'"
  by (induction rule: rtranclp_induct) (auto intro: lock_step_ok)

section \<open>Progress\<close>

text \<open>The mutex a thread is waiting for.\<close>

definition waits_for :: "thread \<Rightarrow> nat option" where
  "waits_for th = (case sections th of (l # _) # _ \<Rightarrow> Some (fst l) | _ \<Rightarrow> None)"

lemma stuck_waits:
  assumes "\<nexists>ts'. lock_step ts ts'" and "th \<in> set ts" and "sections th \<noteq> []"
  obtains m mode rs ss where "sections th = ((m, mode) # rs) # ss" and "\<not> grantable ts m mode"
proof -
  obtain i where i: "i < length ts" "ts ! i = th" using assms(2) by (auto simp: in_set_conv_nth)
  obtain ls ss where ls: "sections th = ls # ss" using assms(3) by (cases "sections th") auto
  with i have "ls \<noteq> []" using lock_step.release [of i ts ss] assms(1) by auto
  then obtain m mode rs where "ls = (m, mode) # rs" by (cases ls) auto
  then show thesis
    using that ls i lock_step.acquire [of i ts m mode rs ss] assms(1) by blast
qed

text \<open>A thread that waits is blocked by one that waits for a greater mutex.\<close>

lemma blocked_by_greater:
  assumes ok: "threads_ok ts" and stuck: "\<nexists>ts'. lock_step ts ts'"
    and th: "th \<in> set ts" "waits_for th = Some m"
  shows "\<exists>th' \<in> set ts. \<exists>m'. waits_for th' = Some m' \<and> m < m'"
proof -
  have "sections th \<noteq> []" using th(2) by (auto simp: waits_for_def)
  then obtain n mode rs ss where "sections th = ((n, mode) # rs) # ss" and "\<not> grantable ts n mode"
    using stuck_waits [OF stuck th(1)] by blast
  moreover from this have "n = m" using th(2) by (simp add: waits_for_def)
  ultimately obtain th' mode' where th': "th' \<in> set ts" "(m, mode') \<in> set (held th')"
    by (auto simp: grantable_def list_all_iff)
  have ok': "thread_ok (sections th') (held th')"
    using ok th'(1) by (simp add: threads_ok_def list_all_iff)
  have "sections th' \<noteq> []"
  proof
    assume "sections th' = []"
    then have "held th' = []" using ok' by simp
    then show False using th'(2) by simp
  qed
  then obtain m' mo rs' ss' where s: "sections th' = ((m', mo) # rs') # ss'"
    by (rule stuck_waits [OF stuck th'(1)])
  from ok' have "list_all (\<lambda>h. fst h < m') (held th')"
    unfolding s by (simp add: list_all_iff)
  then have "m < m'" using th'(2) by (auto simp: list_all_iff)
  moreover have "waits_for th' = Some m'" by (simp add: waits_for_def s)
  ultimately show ?thesis using th'(1) by blast
qed

lemma progress:
  assumes "threads_ok ts" and "th \<in> set ts" and "sections th \<noteq> []"
  shows "\<exists>ts'. lock_step ts ts'"
proof (rule ccontr)
  assume stuck: "\<nexists>ts'. lock_step ts ts'"
  define W where "W = {m. \<exists>th \<in> set ts. waits_for th = Some m}"
  have "W \<subseteq> (\<lambda>th. the (waits_for th)) ` set ts" by (force simp: W_def)
  then have fin: "finite W" by (rule finite_subset) simp
  obtain m mode rs ss where "sections th = ((m, mode) # rs) # ss"
    by (rule stuck_waits [OF stuck assms(2,3)])
  then have "waits_for th = Some m" by (simp add: waits_for_def)
  then have "W \<noteq> {}" using assms(2) unfolding W_def by blast
  with fin have "Max W \<in> W" by simp
  then obtain th' where "th' \<in> set ts" and "waits_for th' = Some (Max W)"
    unfolding W_def by blast
  then obtain m' where "m' \<in> W" and "Max W < m'"
    using blocked_by_greater [OF assms(1) stuck] unfolding W_def by blast
  then show False using Max_ge [OF fin] by fastforce
qed

text \<open>Every step leaves less to do.\<close>

definition work :: "thread list \<Rightarrow> nat" where
  "work ts = sum_list (map (\<lambda>th. sum_list (map (\<lambda>ls. Suc (length ls)) (sections th))) ts)"

lemma sum_list_decrease:
  "i < length xs \<Longrightarrow> x < xs ! i \<Longrightarrow> sum_list (xs[i := x]) < sum_list (xs :: nat list)"
  by (induction xs arbitrary: i) (auto split: nat.splits)

lemma lock_step_work: "lock_step ts ts' \<Longrightarrow> work ts' < work ts"
  by (induction rule: lock_step.induct)
    (auto simp: work_def map_update intro!: sum_list_decrease)

definition start :: "abi \<Rightarrow> store \<Rightarrow> ('g store_op \<times> bool) list \<Rightarrow> thread list" where
  "start A st jobs = map (\<lambda>(op, slow). \<lparr>sections = lock_sections A st op slow, held = []\<rparr>) jobs"

lemma start_ok: "threads_ok (start A st jobs)"
proof -
  have "thread_ok (lock_sections A st op slow) []" for op slow
    using lock_sections_ordered [of A st op slow] by (cases "lock_sections A st op slow") simp_all
  then show ?thesis by (auto simp: threads_ok_def start_def list_all_iff)
qed

text \<open>
  C10: The store cannot deadlock. Let any number of threads run any store operations, each
  taking the mutexes of its critical sections in the order of the code, one acquisition at a
  time in any interleaving. In every reachable state either all threads have finished or some
  thread can go on, and every run ends because each step leaves strictly less to do.
\<close>

theorem store_locks_no_deadlock:
  assumes "lock_step\<^sup>*\<^sup>* (start A st jobs) ts"
  shows "(list_all (\<lambda>th. sections th = [] \<and> held th = []) ts \<or> (\<exists>ts'. lock_step ts ts')) \<and>
    (\<forall>ts'. lock_step ts ts' \<longrightarrow> work ts' < work ts)"
proof -
  have ok: "threads_ok ts" using lock_steps_ok [OF assms start_ok] .
  have "list_all (\<lambda>th. sections th = [] \<and> held th = []) ts"
    if "list_all (\<lambda>th. sections th = []) ts"
    using ok that by (auto simp: threads_ok_def list_all_iff)
  then show ?thesis
    using progress [OF ok] lock_step_work by (auto simp: list_all_iff)
qed

text \<open>Two threads that delete two keys of different shards, given in opposite orders.\<close>

definition sample_jobs :: "(unit store_op \<times> bool) list" where
  "sample_jobs = [(Del_many (sample_clock 1) [''a'', ''bc''], False),
                  (Del_many (sample_clock 1) [''bc'', ''a''], False)]"

definition two_shards :: store where
  "two_shards = \<lparr>shards = [[], []], approximate_memory = 0, expired_keys = 0\<rparr>"

theorem store_locks_no_deadlock_witness:
  "start sample_abi two_shards sample_jobs =
     [\<lparr>sections = [[(0, Exclusive), (1, Exclusive)]], held = []\<rparr>,
      \<lparr>sections = [[(0, Exclusive), (1, Exclusive)]], held = []\<rparr>] \<and>
   (\<exists>ts'. lock_step (start sample_abi two_shards sample_jobs) ts' \<and>
      work ts' < work (start sample_abi two_shards sample_jobs))"
proof -
  have s: "start sample_abi two_shards sample_jobs =
     [\<lparr>sections = [[(0, Exclusive), (1, Exclusive)]], held = []\<rparr>,
      \<lparr>sections = [[(0, Exclusive), (1, Exclusive)]], held = []\<rparr>]"
    by (simp add: start_def sample_jobs_def two_shards_def sample_abi_def many_sections_def
        locks_for_def lock_mutexes_in_order_def shard_index_def)
  show ?thesis
    using store_locks_no_deadlock [of sample_abi two_shards sample_jobs, OF rtranclp.rtrancl_refl]
    by (auto simp: s)
qed

end
