(* ===== verification/Files.thy ===== *)
theory Files
  imports Prelude
begin

text \<open>
  Files and the system calls the persistence layer uses on them. A file is its contents, an
  open descriptor is a position in it. Whether a call succeeds, and how much a single \<^verbatim>\<open>write\<close>
  or \<^verbatim>\<open>read\<close> transfers, is decided by the environment \<open>os\<close> that every operation is given: the
  label of a call is the text the source passes to \<^verbatim>\<open>throw_errno\<close> when that call fails.
\<close>

section \<open>The environment\<close>

text \<open>
  The outcome of one \<^verbatim>\<open>write\<close> or \<^verbatim>\<open>read\<close>: a number of bytes, \<^verbatim>\<open>EINTR\<close>, or another error. A
  transfer loop consumes the outcomes in order; when they are used up, the next call transfers
  everything that is left.
\<close>

datatype io = Bytes nat | Interrupted | Failed

record os =
  sys_ok :: "string \<Rightarrow> bool"
  io_writes :: "io list"
  io_reads :: "io list"

text \<open>Every call succeeds.\<close>

definition calm :: os where
  "calm = \<lparr>sys_ok = (\<lambda>_. True), io_writes = [], io_reads = []\<rparr>"

lemma sys_ok_calm [simp]: "sys_ok calm label"
  by (simp add: calm_def)

section \<open>Calls\<close>

definition zero_bytes :: "nat \<Rightarrow> string" where
  "zero_bytes n = replicate n (CHR 0x00)"

text \<open>\<^verbatim>\<open>write\<close> at a position, and \<^verbatim>\<open>ftruncate\<close>; both fill a gap with zero bytes.\<close>

definition write_at :: "nat \<Rightarrow> string \<Rightarrow> string \<Rightarrow> string" where
  "write_at pos bytes contents =
     take pos contents @ zero_bytes (pos - length contents) @ bytes
       @ drop (pos + length bytes) contents"

definition ftruncate :: "nat \<Rightarrow> string \<Rightarrow> string" where
  "ftruncate n contents = take n contents @ zero_bytes (n - length contents)"

text \<open>
  \<^verbatim>\<open>write_all\<close>, which \<^verbatim>\<open>wal.cpp\<close> and \<^verbatim>\<open>snapshot.cpp\<close> define with different texts for the
  zero-length write. The descriptor's position and the contents are kept also when it throws.
\<close>

fun write_all :: "string \<Rightarrow> io list \<Rightarrow> string \<Rightarrow> nat \<times> string \<Rightarrow> unit result \<times> (nat \<times> string)" where
  "write_all short outcomes bytes (pos, contents) =
     (if bytes = [] then (Inr (), (pos, contents))
      else case outcomes of
        [] \<Rightarrow> (Inr (), (pos + length bytes, write_at pos bytes contents))
      | Interrupted # later \<Rightarrow> write_all short later bytes (pos, contents)
      | Failed # later \<Rightarrow> (Inl (System_error ''write''), (pos, contents))
      | Bytes n # later \<Rightarrow>
          if n = 0 then (Inl (Runtime_error short), (pos, contents))
          else write_all short later (drop n bytes)
                 (pos + length (take n bytes), write_at pos (take n bytes) contents))"

text \<open>
  The read loop: \<open>rest\<close> is what the file holds from the position on. A read of zero bytes ends
  it early.
\<close>

fun read_all :: "string \<Rightarrow> io list \<Rightarrow> string \<Rightarrow> string result" where
  "read_all label outcomes rest =
     (if rest = [] then Inr []
      else case outcomes of
        [] \<Rightarrow> Inr rest
      | Interrupted # later \<Rightarrow> read_all label later rest
      | Failed # later \<Rightarrow> Inl (System_error label)
      | Bytes n # later \<Rightarrow>
          if n = 0 then Inr []
          else bindE (read_all label later (drop n rest)) (\<lambda>s. Inr (take n rest @ s)))"

declare write_all.simps [simp del] read_all.simps [simp del]

section \<open>Laws\<close>

lemma write_at_end [simp]: "write_at (length contents) bytes contents = contents @ bytes"
  by (simp add: write_at_def zero_bytes_def)

lemma ftruncate_le: "n \<le> length contents \<Longrightarrow> ftruncate n contents = take n contents"
  by (simp add: ftruncate_def zero_bytes_def)

lemma write_all_calm: "write_all short [] bytes (pos, contents) =
    (Inr (), (pos + length bytes, if bytes = [] then contents else write_at pos bytes contents))"
  by (simp add: write_all.simps)

text \<open>
  At the end of a file the loop appends a prefix of the bytes: all of them exactly when it
  returns, a proper prefix when it throws. The position stays at the end.
\<close>

lemma write_all_appends:
  "write_all short outcomes bytes (length contents, contents) = (r, st) \<Longrightarrow>
   \<exists>w. st = (length (contents @ w), contents @ w) \<and>
     (case r of Inr _ \<Rightarrow> w = bytes | Inl _ \<Rightarrow> strict_prefix w bytes)"
proof (induction outcomes arbitrary: bytes contents)
  case Nil
  then show ?case by (auto simp: write_all.simps split: if_splits)
next
  case (Cons oc outcomes)
  show ?case
  proof (cases "bytes = []")
    case True
    then show ?thesis using Cons.prems by (auto simp: write_all.simps)
  next
    case ne: False
    show ?thesis
    proof (cases oc)
      case (Bytes n)
      let ?c = "contents @ take n bytes"
      show ?thesis
      proof (cases "n = 0")
        case True
        then show ?thesis using Cons.prems ne Bytes by (auto simp: write_all.simps strict_prefix_def)
      next
        case False
        then have "write_all short outcomes (drop n bytes) (length ?c, ?c) = (r, st)"
          using Cons.prems ne Bytes by (simp add: write_all.simps [of short "_ # _"])
        then obtain w where w: "st = (length (?c @ w), ?c @ w)"
            "case r of Inr _ \<Rightarrow> w = drop n bytes | Inl _ \<Rightarrow> strict_prefix w (drop n bytes)"
          using Cons.IH by blast
        then have "case r of Inr _ \<Rightarrow> take n bytes @ w = bytes
            | Inl _ \<Rightarrow> strict_prefix (take n bytes @ w) bytes"
          by (cases r) (simp_all add: strict_prefix_take_append)
        then show ?thesis
          using w(1) by (intro exI [of _ "take n bytes @ w"]) simp
      qed
    next
      case Interrupted
      then show ?thesis
        using Cons.IH Cons.prems ne by (simp add: write_all.simps [of short "_ # _"])
    next
      case Failed
      then show ?thesis
        using Cons.prems ne by (auto simp: write_all.simps strict_prefix_def)
    qed
  qed
qed

lemma read_all_calm: "read_all label [] contents = Inr contents"
  by (simp add: read_all.simps)

text \<open>
  A favourable environment: every call succeeds, and every transfer is interrupted or partial
  but never fails and never transfers nothing.
\<close>

definition transfers :: "io list \<Rightarrow> bool" where
  "transfers outcomes = list_all (\<lambda>oc. oc \<noteq> Failed \<and> oc \<noteq> Bytes 0) outcomes"

definition os_good :: "os \<Rightarrow> bool" where
  "os_good os \<longleftrightarrow> (\<forall>label. sys_ok os label) \<and> transfers (io_writes os) \<and> transfers (io_reads os)"

lemma calm_good [simp]: "os_good calm"
  by (simp add: os_good_def calm_def transfers_def)

lemma write_all_returns: "transfers outcomes \<Longrightarrow> fst (write_all short outcomes bytes st) = Inr ()"
proof (induction short outcomes bytes st rule: write_all.induct)
  case (1 short outcomes bytes pos contents)
  then show ?case
    by (cases outcomes) (auto simp: write_all.simps [of short] transfers_def split: io.splits)
qed

lemma write_all_good:
  assumes "transfers outcomes"
  shows "write_all short outcomes bytes (length contents, contents) =
    (Inr (), (length (contents @ bytes), contents @ bytes))"
proof -
  obtain r st where w: "write_all short outcomes bytes (length contents, contents) = (r, st)"
    by (rule prod.exhaust)
  then have "r = Inr ()" using write_all_returns [OF assms] by (metis fst_conv)
  with write_all_appends [OF w] w show ?thesis by simp
qed

lemma read_all_good: "transfers outcomes \<Longrightarrow> read_all label outcomes contents = Inr contents"
proof (induction outcomes arbitrary: contents)
  case Nil
  then show ?case by (simp add: read_all.simps)
next
  case (Cons oc outcomes)
  then show ?case
    by (cases oc) (simp_all add: read_all.simps [of label "_ # _"] transfers_def)
qed

end
