(* ===== verification/Wal.thy ===== *)
theory Wal
  imports Files Crc32
begin

text \<open>
  The write-ahead log of \<^verbatim>\<open>src/persistence/wal.cpp\<close>: record encoding, the recovery scan with its
  32-bit arithmetic, and the member functions of \<^verbatim>\<open>WalWriter\<close> as functions on its state. A
  function that throws still returns the state, because what it wrote before stays written.
\<close>

section \<open>Records\<close>

datatype wal_opcode = Op_set | Op_del | Op_expire

fun opcode_code :: "wal_opcode \<Rightarrow> u16" where
  "opcode_code Op_set = 1"
| "opcode_code Op_del = 2"
| "opcode_code Op_expire = 3"

text \<open>The enumeration has a fixed underlying type, so a record read back holds any 16-bit code.\<close>

record wal_record =
  rec_offset :: u64
  rec_opcode :: u16
  rec_payload :: string

definition wal_magic :: string where
  "wal_magic = ''NCWAL'' @ zero_bytes 3"

definition wal_version :: u32 where
  "wal_version = 1"

definition encode_record_body :: "u64 \<Rightarrow> u16 \<Rightarrow> string \<Rightarrow> string" where
  "encode_record_body offset opcode payload =
     (let body = append_u64 [] offset; body = append_u16 body opcode in body @ payload)"

section \<open>The writer\<close>

text \<open>
  \<open>wal_fd\<close> is the position of the open descriptor, \<open>None\<close> when \<^verbatim>\<open>fd_\<close> is negative. \<open>wal_file\<close> is
  the file as the process sees it; \<open>wal_synced\<close> is the contents as of the last \<^verbatim>\<open>fsync\<close>. A file
  that does not exist is an empty one: \<^verbatim>\<open>open\<close> with \<^verbatim>\<open>O_CREAT\<close> creates it.
\<close>

record wal =
  wal_fd :: "nat option"
  wal_last_offset :: u64
  wal_file :: string
  wal_synced :: string

definition new_wal :: "string \<Rightarrow> wal" where
  "new_wal disk = \<lparr>wal_fd = None, wal_last_offset = 0, wal_file = disk, wal_synced = disk\<rparr>"

definition write_fd :: "os \<Rightarrow> nat \<Rightarrow> string \<Rightarrow> wal \<Rightarrow> unit result \<times> wal" where
  "write_fd os pos bytes w =
     (case write_all ''short write to WAL'' (io_writes os) bytes (pos, wal_file w) of
        (r, (pos', contents)) \<Rightarrow> (r, w\<lparr>wal_fd := Some pos', wal_file := contents\<rparr>))"

definition wal_header :: string where
  "wal_header = append_u32 (append_u32 wal_magic wal_version) 0"

definition write_header_unlocked :: "os \<Rightarrow> wal \<Rightarrow> unit result \<times> wal" where
  "write_header_unlocked os w =
     (if \<not> sys_ok os ''lseek(WAL header)'' then (Inl (System_error ''lseek(WAL header)''), w)
      else case write_fd os 0 wal_header w of
        (Inl e, w') \<Rightarrow> (Inl e, w')
      | (Inr _, w') \<Rightarrow>
          if \<not> sys_ok os ''lseek(WAL after header)''
          then (Inl (System_error ''lseek(WAL after header)''), w')
          else (Inr (), w'\<lparr>wal_fd := Some (length (wal_file w'))\<rparr>))"

text \<open>Offsets grow from record to record, so there is room for ever fewer of them.\<close>

lemma offset_gap: "\<not> n \<le> l \<Longrightarrow> 18446744073709551616 - unat (n :: u64) < 18446744073709551616 - unat (l :: u64)"
proof -
  assume "\<not> n \<le> l"
  then have "unat l < unat n" by (simp add: word_le_nat_alt)
  moreover have "unat n < 18446744073709551616" using unsigned_less [of n] by simp
  ultimately show ?thesis by linarith
qed

text \<open>
  The recovery scan: \<open>valid_end\<close> and \<open>last\<close> are the loop's variables, the result holds the
  records and the final \<open>valid_end\<close>; \<^verbatim>\<open>last_offset_\<close> is kept also when the scan throws.
  \<^verbatim>\<open>length + 4U\<close> and \<^verbatim>\<open>4U + length + 4U\<close> are 32-bit sums; \<^verbatim>\<open>remove_prefix\<close> beyond the end of a
  view is undefined behaviour.
\<close>

function scan_records ::
    "string \<Rightarrow> nat \<Rightarrow> u64 \<Rightarrow> (wal_record list \<times> nat) result \<times> u64" where
  "scan_records cursor valid_end last_offset =
     (if length cursor < 4 then (Inr ([], valid_end), last_offset)
      else case read_u32 cursor of
        Inl _ \<Rightarrow> (Inr ([], valid_end), last_offset)
      | Inr (len, probe) \<Rightarrow>
          if len < 10 \<or> length probe < unat (len + 4) then (Inr ([], valid_end), last_offset)
          else if length probe < unat len
          then (Inl (Undefined_behaviour ''remove_prefix past the end''), last_offset)
          else let body = take (unat len) probe in
            case read_u32 (drop (unat len) probe) of
              Inl e \<Rightarrow> (Inl e, last_offset)
            | Inr (expected_crc, _) \<Rightarrow>
                if expected_crc \<noteq> crc32 body then (Inr ([], valid_end), last_offset)
                else case bindE (read_u64 body) (\<lambda>(offset, b). bindE (read_u16 b)
                            (\<lambda>(opcode, payload). Inr \<lparr>rec_offset = offset, rec_opcode = opcode,
                                                      rec_payload = payload\<rparr>)) of
                  Inl e \<Rightarrow> (Inl e, last_offset)
                | Inr record \<Rightarrow>
                    if rec_offset record \<le> last_offset
                    then (Inl (Runtime_error ''WAL offsets are not strictly increasing''), last_offset)
                    else let consumed = unat (4 + len + 4) in
                      if length cursor < consumed
                      then (Inl (Undefined_behaviour ''remove_prefix past the end''), rec_offset record)
                      else case scan_records (drop consumed cursor) (valid_end + consumed)
                                  (rec_offset record) of
                        (Inl e, l) \<Rightarrow> (Inl e, l)
                      | (Inr (rs, v), l) \<Rightarrow> (Inr (record # rs, v), l))"
  by pat_completeness auto
termination
  by (relation "measure (\<lambda>(_, _, last_offset). 2 ^ 64 - unat last_offset)")
    (simp_all add: offset_gap del: bindE_eq_Inr)

declare scan_records.simps [simp del]

text \<open>The three branches that start a fresh log: write the header and return no records.\<close>

definition start_log :: "os \<Rightarrow> wal \<Rightarrow> wal_record list result \<times> wal" where
  "start_log os w =
     (case write_header_unlocked os w of
        (Inl e, w') \<Rightarrow> (Inl e, w')
      | (Inr _, w') \<Rightarrow> (Inr [], w'\<lparr>wal_last_offset := 0\<rparr>))"

definition restart_log :: "string \<Rightarrow> os \<Rightarrow> wal \<Rightarrow> wal_record list result \<times> wal" where
  "restart_log label os w =
     (if \<not> sys_ok os label then (Inl (System_error label), w)
      else start_log os (w\<lparr>wal_file := ftruncate 0 (wal_file w)\<rparr>))"

text \<open>Dropping what follows the last intact record, and moving to the end of the file.\<close>

definition resume_log ::
    "os \<Rightarrow> wal_record list \<Rightarrow> nat \<Rightarrow> nat \<Rightarrow> wal \<Rightarrow> wal_record list result \<times> wal" where
  "resume_log os records file_size valid_end w =
     (let finish = (\<lambda>w'. if \<not> sys_ok os ''lseek(WAL resume)''
                        then (Inl (System_error ''lseek(WAL resume)''), w')
                        else (Inr records, w'\<lparr>wal_fd := Some (length (wal_file w'))\<rparr>))
      in if file_size \<noteq> valid_end
         then if \<not> sys_ok os ''ftruncate(WAL tail)'' then (Inl (System_error ''ftruncate(WAL tail)''), w)
              else let w' = w\<lparr>wal_file := ftruncate valid_end (wal_file w)\<rparr> in
                if \<not> sys_ok os ''fsync(WAL truncate)''
                then (Inl (System_error ''fsync(WAL truncate)''), w')
                else finish (w'\<lparr>wal_synced := wal_file w'\<rparr>)
         else finish w)"

definition load_log :: "os \<Rightarrow> string \<Rightarrow> wal \<Rightarrow> wal_record list result \<times> wal" where
  "load_log os contents w =
     (if \<not> prefix wal_magic contents \<or> length contents < 16
      then restart_log ''ftruncate(WAL bad magic)'' os w
      else case bindE (read_u32 (drop 8 contents)) (\<lambda>(file_version, c).
                  bindE (read_u32 c) (\<lambda>(_, cursor).
                    if file_version \<noteq> wal_version then Inl (Runtime_error ''unsupported WAL version'')
                    else Inr cursor)) of
        Inl e \<Rightarrow> (Inl e, w)
      | Inr cursor \<Rightarrow>
          (case scan_records cursor 16 0 of
             (Inl e, l) \<Rightarrow> (Inl e, w\<lparr>wal_last_offset := l\<rparr>)
           | (Inr (records, valid_end), l) \<Rightarrow>
               resume_log os records (length (wal_file w)) valid_end (w\<lparr>wal_last_offset := l\<rparr>)))"

definition open_and_recover :: "os \<Rightarrow> wal \<Rightarrow> wal_record list result \<times> wal" where
  "open_and_recover os w =
     (if \<not> sys_ok os ''create_directories'' then (Inl (System_error ''create_directories''), w)
      else if \<not> sys_ok os ''open(WAL)'' then (Inl (System_error ''open(WAL)''), w\<lparr>wal_fd := None\<rparr>)
      else if \<not> sys_ok os ''lseek(WAL end)''
      then (Inl (System_error ''lseek(WAL end)''), w\<lparr>wal_fd := Some 0\<rparr>)
      else let file_size = length (wal_file w); w' = w\<lparr>wal_fd := Some file_size\<rparr> in
        if file_size = 0 then start_log os w'
        else if file_size < 16 then restart_log ''ftruncate(WAL short)'' os w'
        else if \<not> sys_ok os ''lseek(WAL start)'' then (Inl (System_error ''lseek(WAL start)''), w')
        else case read_all ''read(WAL)'' (io_reads os) (wal_file w') of
          Inl e \<Rightarrow> (Inl e, w'\<lparr>wal_fd := Some 0\<rparr>)
        | Inr contents \<Rightarrow> load_log os contents (w'\<lparr>wal_fd := Some (length contents)\<rparr>))"

definition wal_append :: "os \<Rightarrow> wal_opcode \<Rightarrow> string \<Rightarrow> wal \<Rightarrow> u64 result \<times> wal" where
  "wal_append os opcode payload w =
     (case wal_fd w of
        None \<Rightarrow> (Inl (Runtime_error ''WAL is not open''), w)
      | Some pos \<Rightarrow>
          (let offset = wal_last_offset w + 1;
               body = encode_record_body offset (opcode_code opcode) payload;
               record = append_u32 [] (of_nat (length body));
               record = record @ body;
               record = append_u32 record (crc32 body)
           in case write_fd os pos record w of
                (Inl e, w') \<Rightarrow> (Inl e, w')
              | (Inr _, w') \<Rightarrow> (Inr offset, w'\<lparr>wal_last_offset := offset\<rparr>)))"

definition wal_sync :: "os \<Rightarrow> wal \<Rightarrow> unit result \<times> wal" where
  "wal_sync os w =
     (case wal_fd w of
        None \<Rightarrow> (Inl (Runtime_error ''WAL is not open''), w)
      | Some _ \<Rightarrow>
          if \<not> sys_ok os ''fsync(WAL)'' then (Inl (System_error ''fsync(WAL)''), w)
          else (Inr (), w\<lparr>wal_synced := wal_file w\<rparr>))"

definition truncate_after :: "os \<Rightarrow> u64 \<Rightarrow> wal \<Rightarrow> unit result \<times> wal" where
  "truncate_after os last_included_offset w =
     (case wal_fd w of
        None \<Rightarrow> (Inl (Runtime_error ''WAL is not open''), w)
      | Some _ \<Rightarrow>
          if \<not> sys_ok os ''ftruncate(WAL rotate)'' then (Inl (System_error ''ftruncate(WAL rotate)''), w)
          else case write_header_unlocked os (w\<lparr>wal_file := ftruncate 0 (wal_file w)\<rparr>) of
            (Inl e, w') \<Rightarrow> (Inl e, w')
          | (Inr _, w') \<Rightarrow>
              let w'' = w'\<lparr>wal_last_offset := last_included_offset\<rparr> in
              if \<not> sys_ok os ''fsync(WAL rotate)'' then (Inl (System_error ''fsync(WAL rotate)''), w'')
              else (Inr (), w''\<lparr>wal_synced := wal_file w''\<rparr>))"

definition close_unlocked :: "wal \<Rightarrow> wal" where
  "close_unlocked w = w\<lparr>wal_fd := None\<rparr>"

section \<open>Payloads\<close>

definition encode_set_payload :: "string \<Rightarrow> string \<Rightarrow> i64 option \<Rightarrow> string" where
  "encode_set_payload key v expiry_unix_ms =
     (let payload = append_bytes [] key;
          payload = append_bytes payload v;
          payload = append_u8 payload (if expiry_unix_ms \<noteq> None then 1 else 0)
      in case expiry_unix_ms of None \<Rightarrow> payload | Some ms \<Rightarrow> append_i64 payload ms)"

definition encode_del_payload :: "string list \<Rightarrow> string" where
  "encode_del_payload ks =
     foldl append_bytes (append_u32 [] (of_nat (length ks))) ks"

definition encode_expire_payload :: "string \<Rightarrow> i64 \<Rightarrow> string" where
  "encode_expire_payload key expiry_unix_ms =
     (let payload = append_bytes [] key in append_i64 payload expiry_unix_ms)"

end
