(* ===== verification/Wal_Laws.thy ===== *)
theory Wal_Laws
  imports Wal
begin

text \<open>
  Laws of the log: what the scan does on intact records, on a record cut short and on a record
  with a wrong checksum, and what opening, appending and rotating do in a favourable environment.
\<close>

section \<open>Records on disk\<close>

definition record_body :: "wal_record \<Rightarrow> string" where
  "record_body r = encode_record_body (rec_offset r) (rec_opcode r) (rec_payload r)"

text \<open>The bytes of a record whose body is \<open>body\<close> and whose checksum field is \<open>crc\<close>.\<close>

definition framed :: "string \<Rightarrow> u32 \<Rightarrow> string" where
  "framed body crc = append_u32 [] (of_nat (length body)) @ body @ append_u32 [] crc"

definition record_bytes :: "wal_record \<Rightarrow> string" where
  "record_bytes r = framed (record_body r) (crc32 (record_body r))"

text \<open>The body and the fields around it fit the 32-bit arithmetic of the scan.\<close>

definition record_ok :: "wal_record \<Rightarrow> bool" where
  "record_ok r \<longleftrightarrow> length (rec_payload r) + 18 < 2 ^ 32"

lemma length_append_word [simp]:
  "length (append_u16 out h) = length out + 2" "length (append_u32 out w) = length out + 4"
  "length (append_u64 out d) = length out + 8"
  by (simp_all add: append_defs)

lemma length_record_body: "length (record_body r) = length (rec_payload r) + 10"
  by (simp add: record_body_def encode_record_body_def Let_def)

lemma length_framed: "length (framed body crc) = length body + 8"
  by (simp add: framed_def)

lemma length_record_bytes: "length (record_bytes r) = length (rec_payload r) + 18"
  by (simp add: record_bytes_def length_framed length_record_body)

lemma record_body_read:
  "bindE (read_u64 (record_body r)) (\<lambda>(offset, b). bindE (read_u16 b) (\<lambda>(opcode, payload).
     Inr \<lparr>rec_offset = offset, rec_opcode = opcode, rec_payload = payload\<rparr>)) = Inr r"
  unfolding record_body_def encode_record_body_def Let_def append_out(2) [of "append_u64 _ _"]
  by (simp add: u64.dec_enc u16.dec_enc)

lemma u32_length_sums:
  assumes "n + 8 < 2 ^ 32"
  shows "unat (of_nat n :: u32) = n" "unat (of_nat n + 4 :: u32) = n + 4"
    "unat (4 + of_nat n + 4 :: u32) = n + 8"
    "(of_nat n < (10 :: u32)) = (n < 10)"
proof -
  show n: "unat (of_nat n :: u32) = n"
    using assms by (intro unat_of_nat_small) simp
  have "of_nat n + 4 = (of_nat (n + 4) :: u32)" by (simp add: add.commute)
  moreover have "unat (of_nat (n + 4) :: u32) = n + 4"
    using assms by (intro unat_of_nat_small) simp
  ultimately show "unat (of_nat n + 4 :: u32) = n + 4" by (simp only:)
  have "4 + of_nat n + 4 = (of_nat (n + 8) :: u32)" by (simp add: add.commute)
  moreover have "unat (of_nat (n + 8) :: u32) = n + 8"
    using assms by (intro unat_of_nat_small) simp
  ultimately show "unat (4 + of_nat n + 4 :: u32) = n + 8" by (simp only:)
  show "(of_nat n < (10 :: u32)) = (n < 10)"
    by (simp add: word_less_nat_alt n)
qed

text \<open>One framed body in front of the cursor.\<close>

lemma scan_framed:
  assumes "length body + 8 < 2 ^ 32" and "10 \<le> length body"
  shows "scan_records (framed body crc @ rest) valid_end last_offset =
    (if crc \<noteq> crc32 body then (Inr ([], valid_end), last_offset)
     else case bindE (read_u64 body) (\<lambda>(offset, b). bindE (read_u16 b)
                (\<lambda>(opcode, payload). Inr \<lparr>rec_offset = offset, rec_opcode = opcode,
                                          rec_payload = payload\<rparr>)) of
       Inl e \<Rightarrow> (Inl e, last_offset)
     | Inr r \<Rightarrow>
         if rec_offset r \<le> last_offset
         then (Inl (Runtime_error ''WAL offsets are not strictly increasing''), last_offset)
         else case scan_records rest (valid_end + length (framed body crc)) (rec_offset r) of
             (Inl e, l) \<Rightarrow> (Inl e, l)
           | (Inr (rs, v), l) \<Rightarrow> (Inr (r # rs, v), l))"
proof -
  note sums = u32_length_sums [OF assms(1)]
  have rd: "read_u32 (framed body crc @ rest) =
      Inr (of_nat (length body), body @ append_u32 [] crc @ rest)"
    by (simp add: framed_def u32.dec_enc)
  have "drop (length body + 8) (framed body crc @ rest) = rest"
    using length_framed [of body crc] by simp
  then show ?thesis
    using assms(2)
    by (subst scan_records.simps)
      (simp add: rd sums sums(3) [simplified] u32.dec_enc length_framed Let_def del: bindE_eq_Inr split: sum.split)
qed

lemma scan_record:
  assumes "record_ok r" and "last_offset < rec_offset r"
  shows "scan_records (record_bytes r @ rest) valid_end last_offset =
    (case scan_records rest (valid_end + length (record_bytes r)) (rec_offset r) of
       (Inl e, l) \<Rightarrow> (Inl e, l)
     | (Inr (rs, v), l) \<Rightarrow> (Inr (r # rs, v), l))"
proof -
  have "length (record_body r) + 8 < 2 ^ 32" "10 \<le> length (record_body r)"
    using assms(1) by (simp_all add: record_ok_def length_record_body)
  moreover have "\<not> rec_offset r \<le> last_offset" using assms(2) by (simp add: not_le)
  ultimately show ?thesis
    unfolding record_bytes_def by (subst scan_framed) (simp_all add: record_body_read)
qed

lemma scan_bad_crc:
  assumes "length body + 8 < 2 ^ 32" and "10 \<le> length body" and "crc \<noteq> crc32 body"
  shows "scan_records (framed body crc @ rest) valid_end last_offset =
    (Inr ([], valid_end), last_offset)"
  using assms(3) by (simp add: scan_framed [OF assms(1,2)])

lemma scan_torn:
  assumes "length body + 8 < 2 ^ 32" and "strict_prefix torn (framed body crc)"
  shows "scan_records torn valid_end last_offset = (Inr ([], valid_end), last_offset)"
  using assms(2) [unfolded framed_def]
proof (cases rule: strict_prefix_append_cases)
  case 1
  then have "length torn < 4" using proper_prefix_length by fastforce
  then show ?thesis by (simp add: scan_records.simps)
next
  case (2 q)
  have "length q < length body + 4"
    using proper_prefix_length [OF 2(2)] by simp
  then show ?thesis
    using u32_length_sums [OF assms(1)]
    by (subst scan_records.simps) (simp add: 2(1) u32.dec_enc)
qed

text \<open>A sequence of intact records with increasing offsets.\<close>

fun chain :: "u64 \<Rightarrow> wal_record list \<Rightarrow> bool" where
  "chain l [] = True"
| "chain l (r # rs) = (record_ok r \<and> l < rec_offset r \<and> chain (rec_offset r) rs)"

definition log_bytes :: "wal_record list \<Rightarrow> string" where
  "log_bytes rs = concat (map record_bytes rs)"

definition last_of :: "u64 \<Rightarrow> wal_record list \<Rightarrow> u64" where
  "last_of l rs = (if rs = [] then l else rec_offset (last rs))"

lemma log_bytes_simps [simp]:
  "log_bytes [] = []" "log_bytes (r # rs) = record_bytes r @ log_bytes rs"
  "log_bytes (rs @ rs') = log_bytes rs @ log_bytes rs'"
  by (simp_all add: log_bytes_def)

lemma last_of_simps [simp]:
  "last_of l [] = l" "last_of l (r # rs) = last_of (rec_offset r) rs"
  "last_of l (rs @ rs') = last_of (last_of l rs) rs'"
  by (auto simp: last_of_def)

lemma chain_append: "chain l (rs @ rs') \<longleftrightarrow> chain l rs \<and> chain (last_of l rs) rs'"
  by (induction l rs rule: chain.induct) auto

lemma chain_take: "chain l rs \<Longrightarrow> chain l (take k rs)"
  by (metis append_take_drop_id chain_append)

lemma chain_record_ok: "chain l rs \<Longrightarrow> r \<in> set rs \<Longrightarrow> record_ok r"
  by (induction l rs rule: chain.induct) auto

lemma scan_chain:
  "chain l rs \<Longrightarrow> scan_records (log_bytes rs @ rest) v l =
    (case scan_records rest (v + length (log_bytes rs)) (last_of l rs) of
       (Inl e, l') \<Rightarrow> (Inl e, l')
     | (Inr (rs', v'), l') \<Rightarrow> (Inr (rs @ rs', v'), l'))"
proof (induction l rs arbitrary: v rule: chain.induct)
  case (1 l)
  then show ?case by (simp split: prod.split sum.split)
next
  case (2 l r rs)
  then show ?case
    by (simp add: scan_record add.assoc split: prod.split sum.split)
qed

text \<open>A tail at which the scan stops.\<close>

definition stops :: "string \<Rightarrow> bool" where
  "stops rest \<longleftrightarrow> (\<forall>v l. scan_records rest v l = (Inr ([], v), l))"

lemma stops_Nil [simp]: "stops []"
  by (simp add: stops_def scan_records.simps)

lemma stops_torn: "record_ok r \<Longrightarrow> strict_prefix torn (record_bytes r) \<Longrightarrow> stops torn"
  unfolding stops_def record_bytes_def
  using scan_torn [of "record_body r"] by (simp add: length_record_body record_ok_def)

lemma scan_chain_stops:
  "chain l rs \<Longrightarrow> stops rest \<Longrightarrow>
   scan_records (log_bytes rs @ rest) v l = (Inr (rs, v + length (log_bytes rs)), last_of l rs)"
  by (simp add: scan_chain stops_def)

section \<open>Opening\<close>

lemma length_wal_header [simp]: "length wal_header = 16"
  by (simp add: wal_header_def wal_magic_def zero_bytes_def)

lemma wal_header_read:
  "prefix wal_magic (wal_header @ rest)"
  "read_u32 (drop 8 (wal_header @ rest)) = Inr (wal_version, append_u32 [] 0 @ rest)"
proof -
  have h: "wal_header = wal_magic @ append_u32 [] wal_version @ append_u32 [] 0"
    by (simp add: wal_header_def append_u32_def)
  have m: "length wal_magic = 8" by (simp add: wal_magic_def zero_bytes_def)
  show "prefix wal_magic (wal_header @ rest)" by (simp add: h)
  show "read_u32 (drop 8 (wal_header @ rest)) = Inr (wal_version, append_u32 [] 0 @ rest)"
    by (simp add: h m u32.dec_enc)
qed

lemma load_log_scan:
  "load_log os (wal_header @ rest) w =
     (case scan_records rest 16 0 of
        (Inl e, l) \<Rightarrow> (Inl e, w\<lparr>wal_last_offset := l\<rparr>)
      | (Inr (records, valid_end), l) \<Rightarrow>
          resume_log os records (length (wal_file w)) valid_end (w\<lparr>wal_last_offset := l\<rparr>))"
  by (simp add: load_log_def wal_header_read u32.dec_enc del: drop_append)

lemma open_reads_file:
  assumes "os_good os" and "wal_file w = wal_header @ rest"
  shows "open_and_recover os w =
    load_log os (wal_header @ rest) (w\<lparr>wal_fd := Some (length (wal_file w))\<rparr>)"
  using assms by (simp add: open_and_recover_def os_good_def read_all_good Let_def)

lemma write_header_good:
  assumes "os_good os" and "wal_file w = []"
  shows "write_header_unlocked os w = (Inr (), w\<lparr>wal_fd := Some 16, wal_file := wal_header\<rparr>)"
  using assms write_all_good [of "io_writes os" "''short write to WAL''" wal_header "[]"]
  by (simp add: write_header_unlocked_def write_fd_def os_good_def)

text \<open>The log after it was opened or written to: a header and a chain of records.\<close>

definition log_holds :: "u64 \<Rightarrow> wal_record list \<Rightarrow> wal \<Rightarrow> bool" where
  "log_holds b rs w \<longleftrightarrow> wal_file w = wal_header @ log_bytes rs \<and>
     wal_fd w = Some (length (wal_file w)) \<and> chain b rs \<and> wal_last_offset w = last_of b rs"

lemma open_log:
  assumes "os_good os" and "chain 0 rs" and "stops tail"
    and "wal_file w = wal_header @ log_bytes rs @ tail"
  shows "\<exists>w'. open_and_recover os w = (Inr rs, w') \<and> log_holds 0 rs w' \<and>
    wal_synced w' = (if tail = [] then wal_synced w else wal_file w')"
proof -
  have "take (16 + length (log_bytes rs)) (wal_file w) = wal_header @ log_bytes rs"
    by (simp add: assms(4))
  then show ?thesis
    using assms
    by (simp add: open_reads_file load_log_scan scan_chain_stops resume_log_def os_good_def
        ftruncate_le Let_def log_holds_def)
qed

text \<open>A file shorter than a header is started afresh.\<close>

lemma start_log_good:
  assumes "os_good os" and "wal_file w = []"
  shows "\<exists>w'. start_log os w = (Inr [], w') \<and> log_holds 0 [] w' \<and> wal_synced w' = wal_synced w"
  using assms by (simp add: start_log_def write_header_good log_holds_def)

lemma open_short:
  assumes "os_good os" and "length (wal_file w) < 16"
  shows "\<exists>w'. open_and_recover os w = (Inr [], w') \<and> log_holds 0 [] w' \<and>
    wal_synced w' = wal_synced w"
  using assms start_log_good [of os "w\<lparr>wal_fd := Some (length (wal_file w)), wal_file := []\<rparr>"]
    start_log_good [of os "w\<lparr>wal_fd := Some (length (wal_file w))\<rparr>"]
  by (cases "wal_file w = []")
    (simp_all add: open_and_recover_def os_good_def restart_log_def ftruncate_def zero_bytes_def Let_def)

section \<open>Appending and rotating\<close>

definition next_record :: "wal \<Rightarrow> wal_opcode \<Rightarrow> string \<Rightarrow> wal_record" where
  "next_record w opcode payload =
     \<lparr>rec_offset = wal_last_offset w + 1, rec_opcode = opcode_code opcode, rec_payload = payload\<rparr>"

lemma wal_append_eq:
  "wal_append os opcode payload w =
     (case wal_fd w of
        None \<Rightarrow> (Inl (Runtime_error ''WAL is not open''), w)
      | Some pos \<Rightarrow>
          (case write_fd os pos (record_bytes (next_record w opcode payload)) w of
             (Inl e, w') \<Rightarrow> (Inl e, w')
           | (Inr _, w') \<Rightarrow>
               (Inr (wal_last_offset w + 1), w'\<lparr>wal_last_offset := wal_last_offset w + 1\<rparr>)))"
  by (simp add: wal_append_def record_bytes_def framed_def record_body_def next_record_def Let_def
      append_u32_def split: option.split)

text \<open>
  Appending to a log: on success the file has one more record, on failure it has at most a
  proper prefix of it.
\<close>

lemma wal_append_outcome:
  assumes "log_holds b rs w" and "wal_append os opcode payload w = (r, w')"
  shows "case r of
      Inr offset \<Rightarrow> offset = wal_last_offset w + 1 \<and>
        w' = w\<lparr>wal_file := wal_file w @ record_bytes (next_record w opcode payload),
              wal_fd := Some (length (wal_file w @ record_bytes (next_record w opcode payload))),
              wal_last_offset := offset\<rparr>
    | Inl _ \<Rightarrow> wal_last_offset w' = wal_last_offset w \<and> wal_synced w' = wal_synced w \<and>
        (\<exists>torn. strict_prefix torn (record_bytes (next_record w opcode payload)) \<and>
          wal_file w' = wal_file w @ torn)"
proof -
  have fd: "wal_fd w = Some (length (wal_file w))" using assms(1) by (simp add: log_holds_def)
  obtain q st where q: "write_all ''short write to WAL'' (io_writes os)
      (record_bytes (next_record w opcode payload)) (length (wal_file w), wal_file w) = (q, st)"
    by (rule prod.exhaust)
  obtain d where d: "st = (length (wal_file w @ d), wal_file w @ d)"
      "case q of Inr _ \<Rightarrow> d = record_bytes (next_record w opcode payload)
        | Inl _ \<Rightarrow> strict_prefix d (record_bytes (next_record w opcode payload))"
    using write_all_appends [OF q] by blast
  show ?thesis
    using assms(2) d q by (cases q) (auto simp: wal_append_eq fd write_fd_def)
qed

lemma wal_append_good:
  assumes "log_holds b rs w" and "os_good os" and "length payload + 18 < 2 ^ 32"
    and "wal_last_offset w \<noteq> - 1"
  shows "\<exists>w'. wal_append os opcode payload w = (Inr (wal_last_offset w + 1), w') \<and>
    log_holds b (rs @ [next_record w opcode payload]) w' \<and> wal_synced w' = wal_synced w"
proof -
  have lt: "wal_last_offset w < wal_last_offset w + 1"
    using assms(4) by (rule word_less_inc)
  have "write_fd os (length (wal_file w)) (record_bytes (next_record w opcode payload)) w =
      (Inr (), w\<lparr>wal_fd := Some (length (wal_file w @ record_bytes (next_record w opcode payload))),
        wal_file := wal_file w @ record_bytes (next_record w opcode payload)\<rparr>)"
    using assms(2) by (simp add: write_fd_def write_all_good os_good_def)
  then show ?thesis
    using assms(1,3) lt
    by (simp add: wal_append_eq log_holds_def chain_append next_record_def record_ok_def)
qed

lemma wal_sync_good:
  "log_holds b rs w \<Longrightarrow> os_good os \<Longrightarrow>
   wal_sync os w = (Inr (), w\<lparr>wal_synced := wal_file w\<rparr>)"
  by (simp add: wal_sync_def log_holds_def os_good_def)

lemma truncate_after_good:
  assumes "log_holds b rs w" and "os_good os"
  shows "\<exists>w'. truncate_after os l w = (Inr (), w') \<and> log_holds l [] w' \<and> wal_synced w' = wal_file w'"
  using assms by (simp add: truncate_after_def write_header_good ftruncate_def zero_bytes_def
      os_good_def log_holds_def Let_def)

lemma chain_weaken: "chain l rs \<Longrightarrow> l' \<le> l \<Longrightarrow> chain l' rs"
  by (cases rs) auto

end
