(* ===== verification/Snapshot.thy ===== *)
theory Snapshot
  imports Wal Store
begin

text \<open>
  Snapshots: \<^verbatim>\<open>src/persistence/snapshot.cpp\<close>. The encoding of values and entries with its reader,
  the conversions between wall-clock ticks and Unix milliseconds, and the two functions of
  \<^verbatim>\<open>SnapshotStore\<close> on the files of the data directory.
\<close>

section \<open>Times\<close>

text \<open>
  \<^verbatim>\<open>duration_cast<milliseconds>\<close> of the ticks since the epoch truncates towards zero; a
  millisecond count converts to ticks exactly.
\<close>

definition to_unix_ms :: "abi \<Rightarrow> int \<Rightarrow> i64" where
  "to_unix_ms A t = word_of_int (sgn t * (\<bar>t\<bar> * tick_ns A div 1000000))"

definition from_unix_ms :: "abi \<Rightarrow> i64 \<Rightarrow> int" where
  "from_unix_ms A millis = sint millis * (1000000 div tick_ns A)"

section \<open>Values and entries\<close>

definition append_items_bytes :: "string \<Rightarrow> string list \<Rightarrow> string" where
  "append_items_bytes out items =
     foldl append_bytes (append_u32 out (of_nat (length items))) items"

fun append_value :: "string \<Rightarrow> cell \<Rightarrow> string" where
  "append_value out (VString s) = append_bytes (append_u8 out 0) s"
| "append_value out (VInt i) = append_i64 (append_u8 out 1) i"
| "append_value out (VList items) = append_items_bytes (append_u8 out 2) items"
| "append_value out (VSet items) = append_items_bytes (append_u8 out 3) items"

text \<open>\<^verbatim>\<open>set.insert\<close> leaves a set unchanged when it holds the element already.\<close>

definition set_insert :: "string list \<Rightarrow> string \<Rightarrow> string list" where
  "set_insert items item = (if item \<in> set items then items else items @ [item])"

definition read_items :: "string list reader" where
  "read_items input =
     bindE (read_u32 input) (\<lambda>(count, rest). read_times read_bytes (unat count) rest)"

definition read_value :: "cell reader" where
  "read_value input =
     bindE (read_u8 input) (\<lambda>(type, rest).
       if type = 0 then bindE (read_bytes rest) (\<lambda>(s, r). Inr (VString s, r))
       else if type = 1 then bindE (read_i64 rest) (\<lambda>(i, r). Inr (VInt i, r))
       else if type = 2 then bindE (read_items rest) (\<lambda>(items, r). Inr (VList items, r))
       else if type = 3 then
         bindE (read_items rest) (\<lambda>(items, r). Inr (VSet (foldl set_insert [] items), r))
       else Inl (Runtime_error ''unknown snapshot value type''))"

definition append_entry :: "abi \<Rightarrow> string \<Rightarrow> persisted_entry \<Rightarrow> string" where
  "append_entry A body pe =
     (let body = append_bytes body (pe_key pe);
          body = append_value body (pe_value pe);
          body = append_u8 body (if pe_expiry_wall pe \<noteq> None then 1 else 0)
      in case pe_expiry_wall pe of
           None \<Rightarrow> body
         | Some t \<Rightarrow> append_i64 body (to_unix_ms A t))"

definition read_entry :: "abi \<Rightarrow> persisted_entry reader" where
  "read_entry A input =
     bindE (read_bytes input) (\<lambda>(key, r1).
     bindE (read_value r1) (\<lambda>(v, r2).
     bindE (read_u8 r2) (\<lambda>(flag, r3).
       if flag \<noteq> 0
       then bindE (read_i64 r3) (\<lambda>(ms, r4).
              Inr (\<lparr>pe_key = key, pe_value = v, pe_expiry_wall = Some (from_unix_ms A ms)\<rparr>, r4))
       else Inr (\<lparr>pe_key = key, pe_value = v, pe_expiry_wall = None\<rparr>, r3))))"

section \<open>The file\<close>

record snapshot_header =
  snap_wal_offset :: u64
  snap_entry_count :: u64

definition snapshot_magic :: string where
  "snapshot_magic = ''NCSNP'' @ zero_bytes 3"

definition snapshot_version :: u32 where
  "snapshot_version = 1"

definition snapshot_body :: "abi \<Rightarrow> u64 \<Rightarrow> persisted_entry list \<Rightarrow> string" where
  "snapshot_body A wal_offset entries =
     foldl (append_entry A)
       (append_u64 (append_u64 (append_u32 snapshot_magic snapshot_version) wal_offset)
         (of_nat (length entries))) entries"

definition snapshot_bytes :: "abi \<Rightarrow> u64 \<Rightarrow> persisted_entry list \<Rightarrow> string" where
  "snapshot_bytes A wal_offset entries =
     (let body = snapshot_body A wal_offset entries in append_u32 body (crc32 body))"

text \<open>The files a snapshot touches; \<open>None\<close> is a file that does not exist.\<close>

record data_dir =
  dump :: "string option"
  dump_tmp :: "string option"

text \<open>
  \<^verbatim>\<open>SnapshotStore::write\<close>. The temporary file is created or emptied, written, synced and closed,
  and then renamed; each call may fail, and what was done before stays done. The directory sync
  at the end ignores errors.
\<close>

definition snapshot_write ::
    "os \<Rightarrow> abi \<Rightarrow> u64 \<Rightarrow> persisted_entry list \<Rightarrow> data_dir \<Rightarrow> unit result \<times> data_dir" where
  "snapshot_write os A wal_offset entries d =
     (if \<not> sys_ok os ''create_directories'' then (Inl (System_error ''create_directories''), d)
      else if \<not> sys_ok os ''open(snapshot tmp)'' then (Inl (System_error ''open(snapshot tmp)''), d)
      else case write_all ''short write to snapshot'' (io_writes os)
                  (snapshot_bytes A wal_offset entries) (0, []) of
        (Inl e, (_, contents)) \<Rightarrow> (Inl e, d\<lparr>dump_tmp := Some contents\<rparr>)
      | (Inr _, (_, contents)) \<Rightarrow>
          (let d' = d\<lparr>dump_tmp := Some contents\<rparr> in
           if \<not> sys_ok os ''fsync(snapshot tmp)'' then (Inl (System_error ''fsync(snapshot tmp)''), d')
           else if \<not> sys_ok os ''close(snapshot tmp)''
           then (Inl (System_error ''close(snapshot tmp)''), d')
           else if \<not> sys_ok os ''rename snapshot'' then (Inl (System_error ''rename snapshot''), d')
           else (Inr (), d'\<lparr>dump := dump_tmp d', dump_tmp := None\<rparr>)))"

definition decode_snapshot ::
    "abi \<Rightarrow> string \<Rightarrow> (snapshot_header \<times> persisted_entry list) option result" where
  "decode_snapshot A file =
     (let content = take (length file - 4) file; trailer = drop (length file - 4) file in
      bindE (read_u32 trailer) (\<lambda>(expected, _).
        if crc32 content \<noteq> expected then Inr None
        else bindE (read_u32 (drop 8 content)) (\<lambda>(version, c1).
          if version \<noteq> snapshot_version then Inr None
          else bindE (read_u64 c1) (\<lambda>(wal_offset, c2).
               bindE (read_u64 c2) (\<lambda>(entry_count, c3).
               bindE (read_times (read_entry A) (unat entry_count) c3) (\<lambda>(entries, cursor).
                 if cursor \<noteq> [] then Inr None
                 else Inr (Some (\<lparr>snap_wal_offset = wal_offset, snap_entry_count = entry_count\<rparr>,
                                 entries))))))))"

definition snapshot_read ::
    "os \<Rightarrow> abi \<Rightarrow> data_dir \<Rightarrow> (snapshot_header \<times> persisted_entry list) option" where
  "snapshot_read os A d =
     (case dump d of
        None \<Rightarrow> None
      | Some contents \<Rightarrow>
          if \<not> sys_ok os ''open(snapshot)'' \<or> \<not> sys_ok os ''lseek(snapshot end)''
             \<or> \<not> sys_ok os ''lseek(snapshot start)'' then None
          else case read_all ''read(snapshot)'' (io_reads os) contents of
            Inl _ \<Rightarrow> None
          | Inr file \<Rightarrow>
              if length file < 8 + 4 + 8 + 8 + 4 \<or> \<not> prefix snapshot_magic file then None
              else case decode_snapshot A file of Inl _ \<Rightarrow> None | Inr r \<Rightarrow> r)"

end
