(* ===== verification/Engine.thy ===== *)
theory Engine
  imports Wal_Laws Snapshot Store
begin

text \<open>
  The persistence engine of \<^verbatim>\<open>src/persistence/engine.cpp\<close>: a log and a snapshot file beside a
  store. Every member function is a function on the engine and the store it is given; a call that
  throws returns what it did before. The environment of the log's calls and that of the
  snapshot's calls are separate arguments, as are the readings of the clock.
\<close>

section \<open>State\<close>

datatype fsync_mode = Fsync_always | Fsync_everysec | Fsync_none

record persistence_config =
  data_dir_path :: string
  fsync_mode :: fsync_mode
  snapshot_interval_seconds :: int

text \<open>
  \<open>has_wal\<close> tells whether \<^verbatim>\<open>wal_\<close> is non-null; the log file outlives the pointer. \<open>fsync_thread\<close>
  tells whether the background thread is joinable.
\<close>

record engine =
  config :: persistence_config
  has_wal :: bool
  eng_wal :: wal
  eng_dir :: data_dir
  next_snapshot_at :: int
  fsync_thread :: bool
  stopping :: bool

type_synonym 'a on_engine = "'a result \<times> engine \<times> store"

text \<open>Using \<^verbatim>\<open>wal_\<close> after \<^verbatim>\<open>abandon\<close> has reset it.\<close>

definition null_wal :: exn where
  "null_wal = Undefined_behaviour ''null WAL pointer''"

definition seconds_ns :: "int \<Rightarrow> int" where
  "seconds_ns s = s * 1000000000"

text \<open>
  The constructor, on the files found in the data directory; \<open>t\<close> is the steady clock.
\<close>

definition new_engine ::
    "os \<Rightarrow> persistence_config \<Rightarrow> clock_reading option \<Rightarrow> int \<Rightarrow> string \<Rightarrow> data_dir \<Rightarrow> engine result" where
  "new_engine os cfg clock t wal_disk d =
     (if data_dir_path cfg = [] then Inl (Invalid_argument ''persistence data_dir must not be empty'')
      else if clock = None then Inl (Invalid_argument ''persistence clock must not be null'')
      else if \<not> sys_ok os ''create_directories'' then Inl (System_error ''create_directories'')
      else Inr \<lparr>config = cfg, has_wal = True, eng_wal = new_wal wal_disk, eng_dir = d,
                next_snapshot_at = (if snapshot_interval_seconds cfg > 0
                                    then t + seconds_ns (snapshot_interval_seconds cfg) else t),
                fsync_thread = False, stopping = False\<rparr>)"

section \<open>The background thread\<close>

definition start_fsync_thread :: "engine \<Rightarrow> engine" where
  "start_fsync_thread e = (if fsync_thread e then e else e\<lparr>stopping := False, fsync_thread := True\<rparr>)"

definition stop_fsync_thread :: "engine \<Rightarrow> engine" where
  "stop_fsync_thread e = e\<lparr>stopping := True, fsync_thread := False\<rparr>"

text \<open>One round of the thread: it ends when it is told to stop, else it syncs and ignores errors.\<close>

definition fsync_round :: "os \<Rightarrow> engine \<Rightarrow> engine" where
  "fsync_round os e =
     (if \<not> fsync_thread e \<or> stopping e then e
      else e\<lparr>eng_wal := snd (wal_sync os (eng_wal e))\<rparr>)"

section \<open>Durable operations\<close>

definition durability_action :: "os \<Rightarrow> engine \<Rightarrow> unit result \<times> engine" where
  "durability_action os e =
     (if fsync_mode (config e) = Fsync_always
      then (case wal_sync os (eng_wal e) of (r, w) \<Rightarrow> (r, e\<lparr>eng_wal := w\<rparr>))
      else (Inr (), e))"

text \<open>What the durable operations share: append the record, then make it durable.\<close>

definition log_record :: "os \<Rightarrow> wal_opcode \<Rightarrow> string \<Rightarrow> engine \<Rightarrow> unit result \<times> engine" where
  "log_record os opcode payload e =
     (if \<not> has_wal e then (Inl null_wal, e)
      else case wal_append os opcode payload (eng_wal e) of
        (Inl x, w) \<Rightarrow> (Inl x, e\<lparr>eng_wal := w\<rparr>)
      | (Inr _, w) \<Rightarrow> durability_action os (e\<lparr>eng_wal := w\<rparr>))"

definition durable_set ::
    "os \<Rightarrow> abi \<Rightarrow> clock_reading \<Rightarrow> string \<Rightarrow> string \<Rightarrow> engine \<Rightarrow> store \<Rightarrow> unit on_engine" where
  "durable_set os A c key v e st =
     (case log_record os Op_set (encode_set_payload key v None) e of
        (Inl x, e') \<Rightarrow> (Inl x, e', st)
      | (Inr _, e') \<Rightarrow> (Inr (), e', store_set A c key (VString v) st))"

definition durable_del ::
    "os \<Rightarrow> abi \<Rightarrow> clock_reading \<Rightarrow> string list \<Rightarrow> engine \<Rightarrow> store \<Rightarrow> nat on_engine" where
  "durable_del os A c ks e st =
     (case log_record os Op_del (encode_del_payload ks) e of
        (Inl x, e') \<Rightarrow> (Inl x, e', st)
      | (Inr _, e') \<Rightarrow>
          (case store_del_many A c ks st of (n, st') \<Rightarrow> (Inr n, e', st')))"

definition expiry_ms :: "abi \<Rightarrow> clock_reading \<Rightarrow> int \<Rightarrow> i64" where
  "expiry_ms A c ttl =
     (if ttl > 0 then to_unix_ms A (wall_now c + seconds_to_ticks A ttl)
      else to_unix_ms A (wall_now c))"

definition durable_expire ::
    "os \<Rightarrow> abi \<Rightarrow> clock_reading \<Rightarrow> clock_reading \<Rightarrow> clock_reading \<Rightarrow> string \<Rightarrow> int \<Rightarrow> engine \<Rightarrow> store \<Rightarrow>
     bool on_engine" where
  "durable_expire os A c0 c1 c2 key ttl e st =
     (let ms = expiry_ms A c0 ttl in
      case log_record os Op_expire (encode_expire_payload key ms) e of
        (Inl x, e') \<Rightarrow> (Inl x, e', st)
      | (Inr _, e') \<Rightarrow>
          (case store_expire_at A c1 c2 key (Some (from_unix_ms A ms)) st of
             (found, st') \<Rightarrow> (Inr found, e', st')))"

section \<open>Snapshots\<close>

text \<open>What \<^verbatim>\<open>snapshot_now\<close> and \<^verbatim>\<open>shutdown\<close> share: sync, export, write the snapshot, rotate the log.\<close>

definition write_snapshot ::
    "os \<Rightarrow> os \<Rightarrow> abi \<Rightarrow> clock_reading \<Rightarrow> engine \<Rightarrow> store \<Rightarrow> unit on_engine" where
  "write_snapshot os os' A c e st =
     (case (if fsync_mode (config e) \<noteq> Fsync_none then wal_sync os (eng_wal e)
            else (Inr (), eng_wal e)) of
        (Inl x, w) \<Rightarrow> (Inl x, e\<lparr>eng_wal := w\<rparr>, st)
      | (Inr _, w) \<Rightarrow>
          (case export_snapshot_entries c st of
             (entries, st') \<Rightarrow>
               (let offset = wal_last_offset w in
                case snapshot_write os' A offset entries (eng_dir e) of
                  (Inl x, d) \<Rightarrow> (Inl x, e\<lparr>eng_wal := w, eng_dir := d\<rparr>, st')
                | (Inr _, d) \<Rightarrow>
                    (case truncate_after os offset w of
                       (Inl x, w') \<Rightarrow> (Inl x, e\<lparr>eng_wal := w', eng_dir := d\<rparr>, st')
                     | (Inr _, w') \<Rightarrow> (Inr (), e\<lparr>eng_wal := w', eng_dir := d\<rparr>, st')))))"

definition snapshot_now ::
    "os \<Rightarrow> os \<Rightarrow> abi \<Rightarrow> clock_reading \<Rightarrow> int \<Rightarrow> engine \<Rightarrow> store \<Rightarrow> unit on_engine" where
  "snapshot_now os os' A c t e st =
     (if \<not> has_wal e then (Inl null_wal, e, st)
      else case write_snapshot os os' A c e st of
        (Inl x, e', st') \<Rightarrow> (Inl x, e', st')
      | (Inr _, e', st') \<Rightarrow>
          (Inr (), if snapshot_interval_seconds (config e') > 0
                   then e'\<lparr>next_snapshot_at := t + seconds_ns (snapshot_interval_seconds (config e'))\<rparr>
                   else e', st'))"

definition maybe_snapshot ::
    "os \<Rightarrow> os \<Rightarrow> abi \<Rightarrow> clock_reading \<Rightarrow> int \<Rightarrow> int \<Rightarrow> engine \<Rightarrow> store \<Rightarrow> unit on_engine" where
  "maybe_snapshot os os' A c t t' e st =
     (if snapshot_interval_seconds (config e) \<le> 0 then (Inr (), e, st)
      else if t < next_snapshot_at e then (Inr (), e, st)
      else snapshot_now os os' A c t' e st)"

definition shutdown ::
    "os \<Rightarrow> os \<Rightarrow> abi \<Rightarrow> clock_reading \<Rightarrow> engine \<Rightarrow> store \<Rightarrow> unit on_engine" where
  "shutdown os os' A c e st =
     (let e' = stop_fsync_thread e in
      if \<not> has_wal e' then (Inr (), e', st) else write_snapshot os os' A c e' st)"

definition abandon :: "os \<Rightarrow> engine \<Rightarrow> engine" where
  "abandon os e =
     (let e' = stop_fsync_thread e;
          w = (if has_wal e' \<and> fsync_mode (config e') = Fsync_always
               then snd (wal_sync os (eng_wal e')) else eng_wal e')
      in e'\<lparr>eng_wal := close_unlocked w, has_wal := False\<rparr>)"

definition last_offset :: "engine \<Rightarrow> u64" where
  "last_offset e = (if \<not> has_wal e then 0 else wal_last_offset (eng_wal e))"

section \<open>Recovery\<close>

text \<open>
  Replaying one record. \<open>c\<close> is the clock reading of the store operation; \<open>c'\<close> the second reading
  of \<^verbatim>\<open>expire_at\<close>.
\<close>

definition apply_record ::
    "abi \<Rightarrow> clock_reading \<Rightarrow> clock_reading \<Rightarrow> wal_record \<Rightarrow> store \<Rightarrow> store result" where
  "apply_record A c c' r st =
     (if rec_opcode r = 1 then
        bindE (read_bytes (rec_payload r)) (\<lambda>(key, p1).
        bindE (read_bytes p1) (\<lambda>(v, p2).
        bindE (read_u8 p2) (\<lambda>(flag, p3).
          if flag \<noteq> 0
          then bindE (read_i64 p3) (\<lambda>(ms, _).
                 Inr (store_set_expiry A c key (VString v) (Some (from_unix_ms A ms)) st))
          else Inr (store_set_expiry A c key (VString v) None st))))
      else if rec_opcode r = 2 then
        bindE (read_items (rec_payload r)) (\<lambda>(ks, _). Inr (snd (store_del_many A c ks st)))
      else if rec_opcode r = 3 then
        bindE (read_bytes (rec_payload r)) (\<lambda>(key, p1).
        bindE (read_i64 p1) (\<lambda>(ms, _).
          Inr (snd (store_expire_at A c c' key (Some (from_unix_ms A ms)) st))))
      else Inl (Runtime_error ''unknown WAL opcode during recovery''))"

text \<open>
  The two loops of \<^verbatim>\<open>recover_into\<close>. The clock is asked anew for every entry and every record:
  \<open>cl n\<close> gives the readings of the \<open>n\<close>-th store operation of the recovery.
\<close>

fun import_entries ::
    "abi \<Rightarrow> (nat \<Rightarrow> clock_reading) \<Rightarrow> nat \<Rightarrow> persisted_entry list \<Rightarrow> store \<Rightarrow> store" where
  "import_entries A cl n [] st = st"
| "import_entries A cl n (pe # pes) st =
     import_entries A cl (Suc n) pes (import_snapshot_entry A (cl n) pe st)"

fun apply_records ::
    "abi \<Rightarrow> (nat \<Rightarrow> clock_reading) \<Rightarrow> nat \<Rightarrow> u64 \<Rightarrow> wal_record list \<Rightarrow> store \<Rightarrow> unit result \<times> store" where
  "apply_records A cl n snapshot_offset [] st = (Inr (), st)"
| "apply_records A cl n snapshot_offset (r # rs) st =
     (if rec_offset r \<le> snapshot_offset then apply_records A cl n snapshot_offset rs st
      else case apply_record A (cl n) (cl (Suc n)) r st of
        Inl x \<Rightarrow> (Inl x, st)
      | Inr st' \<Rightarrow> apply_records A cl (Suc (Suc n)) snapshot_offset rs st')"

definition recover_into ::
    "os \<Rightarrow> os \<Rightarrow> abi \<Rightarrow> (nat \<Rightarrow> clock_reading) \<Rightarrow> engine \<Rightarrow> store \<Rightarrow> unit on_engine" where
  "recover_into os os' A cl e st =
     (let st0 = store_clear st;
          (snapshot_offset, entries) =
            (case snapshot_read os' A (eng_dir e) of
               None \<Rightarrow> (0, [])
             | Some (header, pes) \<Rightarrow> (snap_wal_offset header, pes));
          st1 = import_entries A cl 0 entries st0
      in if \<not> has_wal e then (Inl null_wal, e, st1)
         else case open_and_recover os (eng_wal e) of
           (Inl x, w) \<Rightarrow> (Inl x, e\<lparr>eng_wal := w\<rparr>, st1)
         | (Inr records, w) \<Rightarrow>
             (case apply_records A cl (length entries) snapshot_offset records st1 of
                (Inl x, st2) \<Rightarrow> (Inl x, e\<lparr>eng_wal := w\<rparr>, st2)
              | (Inr _, st2) \<Rightarrow>
                  (Inr (), if fsync_mode (config e) = Fsync_everysec
                           then start_fsync_thread (e\<lparr>eng_wal := w\<rparr>) else e\<lparr>eng_wal := w\<rparr>, st2)))"

section \<open>Opening the database\<close>

text \<open>
  What the constructor of \<^verbatim>\<open>Server\<close> does with the store and the engine when persistence is enabled:
  \<open>n\<close> shards, the files found on disk, and the readings \<open>c\<close>, \<open>t\<close> and \<open>cl\<close> of the clocks.
\<close>

definition open_database ::
    "os \<Rightarrow> os \<Rightarrow> abi \<Rightarrow> persistence_config \<Rightarrow> nat \<Rightarrow> clock_reading \<Rightarrow> int \<Rightarrow> (nat \<Rightarrow> clock_reading) \<Rightarrow>
     string \<Rightarrow> data_dir \<Rightarrow> (engine \<times> store) result" where
  "open_database os os' A cfg n c t cl wal_disk d =
     bindE (new_store n (Some c)) (\<lambda>st.
       if data_dir_path cfg = [] then Inl (Invalid_argument ''persistence requires --data-dir'')
       else bindE (new_engine os cfg (Some c) t wal_disk d) (\<lambda>e.
         case recover_into os os' A cl e st of
           (Inl x, _) \<Rightarrow> Inl x
         | (Inr _, e', st') \<Rightarrow> Inr (e', st')))"

end
