(* ===== verification/Stats.thy ===== *)
theory Stats
  imports Encoder
begin

text \<open>
  The counters of \<^verbatim>\<open>src/server/stats.cpp\<close>. Each is an atomic 64-bit integer that wraps around.
\<close>

record stats =
  accepted_connections :: u64
  active_connections :: u64
  total_commands :: u64
  command_errors :: u64
  bytes_in :: u64
  bytes_out :: u64
  stat_expired_keys :: u64
  evicted_keys :: u64
  used_memory :: u64

definition new_stats :: stats where
  "new_stats = \<lparr>accepted_connections = 0, active_connections = 0, total_commands = 0,
     command_errors = 0, bytes_in = 0, bytes_out = 0, stat_expired_keys = 0, evicted_keys = 0,
     used_memory = 0\<rparr>"

definition on_accept :: "stats \<Rightarrow> stats" where
  "on_accept s = s\<lparr>accepted_connections := accepted_connections s + 1,
                    active_connections := active_connections s + 1\<rparr>"

definition on_disconnect :: "stats \<Rightarrow> stats" where
  "on_disconnect s = s\<lparr>active_connections := active_connections s - 1\<rparr>"

definition on_command :: "bool \<Rightarrow> stats \<Rightarrow> stats" where
  "on_command error s =
     (let s' = s\<lparr>total_commands := total_commands s + 1\<rparr>
      in if error then s'\<lparr>command_errors := command_errors s' + 1\<rparr> else s')"

definition add_bytes_in :: "u64 \<Rightarrow> stats \<Rightarrow> stats" where
  "add_bytes_in n s = s\<lparr>bytes_in := bytes_in s + n\<rparr>"

definition add_bytes_out :: "u64 \<Rightarrow> stats \<Rightarrow> stats" where
  "add_bytes_out n s = s\<lparr>bytes_out := bytes_out s + n\<rparr>"

definition add_expired :: "u64 \<Rightarrow> stats \<Rightarrow> stats" where
  "add_expired n s = s\<lparr>stat_expired_keys := stat_expired_keys s + n\<rparr>"

definition add_evicted :: "u64 \<Rightarrow> stats \<Rightarrow> stats" where
  "add_evicted n s = s\<lparr>evicted_keys := evicted_keys s + n\<rparr>"

definition set_used_memory :: "u64 \<Rightarrow> stats \<Rightarrow> stats" where
  "set_used_memory n s = s\<lparr>used_memory := n\<rparr>"

text \<open>The text of \<^verbatim>\<open>INFO\<close>; the stream prints unsigned integers in decimal.\<close>

definition show_u64 :: "u64 \<Rightarrow> string" where
  "show_u64 n = show_nat (unat n)"

definition render_info :: "string \<Rightarrow> u16 \<Rightarrow> nat \<Rightarrow> nat \<Rightarrow> stats \<Rightarrow> string" where
  "render_info version tcp_port worker_count shard_count s =
     ''# Server'' @ crlf @
     ''novacache_version:'' @ version @ crlf @
     ''tcp_port:'' @ show_nat (unat tcp_port) @ crlf @
     ''io_threads:1'' @ crlf @
     ''worker_threads:'' @ show_nat worker_count @ crlf @
     ''shard_count:'' @ show_nat shard_count @ crlf @
     crlf @
     ''# Clients'' @ crlf @
     ''connected_clients:'' @ show_u64 (active_connections s) @ crlf @
     ''total_connections_received:'' @ show_u64 (accepted_connections s) @ crlf @
     crlf @
     ''# Stats'' @ crlf @
     ''total_commands_processed:'' @ show_u64 (total_commands s) @ crlf @
     ''total_error_replies:'' @ show_u64 (command_errors s) @ crlf @
     ''total_net_input_bytes:'' @ show_u64 (bytes_in s) @ crlf @
     ''total_net_output_bytes:'' @ show_u64 (bytes_out s) @ crlf @
     ''expired_keys:'' @ show_u64 (stat_expired_keys s) @ crlf @
     ''evicted_keys:'' @ show_u64 (evicted_keys s) @ crlf @
     crlf @
     ''# Memory'' @ crlf @
     ''used_memory:'' @ show_u64 (used_memory s) @ crlf"

end
