(* ===== verification/Registry.thy ===== *)
theory Registry
  imports Engine Stats
begin

text \<open>
  The command registry of \<^verbatim>\<open>src/commands/registry.cpp\<close>: argument extraction, the table of
  commands with their arities and the ten handlers. A handler works on the command context and
  returns a reply, or throws what the store or the engine throws.
\<close>

section \<open>Contexts and tables\<close>

datatype command_access = Read_only | Write_access

record command_metadata =
  cmd_name :: string
  minimum_arity :: nat
  maximum_arity :: nat
  access :: command_access
  persistent :: bool
  replicated :: bool

text \<open>The null pointers of the context are \<open>None\<close>.\<close>

record command_context =
  ctx_store :: store
  ctx_stats :: "stats option"
  ctx_persistence :: "engine option"
  ctx_version :: string
  ctx_tcp_port :: u16
  ctx_worker_count :: nat

text \<open>
  What a command asks of its surroundings: the system calls of the log, the implementation, up to
  three readings of the clock of the store, and \<^verbatim>\<open>steady_clock::now()\<close>.
\<close>

record command_env =
  env_os :: os
  env_abi :: abi
  clock0 :: clock_reading
  clock1 :: clock_reading
  clock2 :: clock_reading
  steady_now :: int

type_synonym handler =
  "string list \<Rightarrow> command_env \<Rightarrow> command_context \<Rightarrow> resp_value result \<times> command_context"

record command_entry =
  cmd_metadata :: command_metadata
  cmd_handler :: handler

type_synonym registry = "(string \<times> command_entry) list"

section \<open>Helpers\<close>

definition wrong_arity :: string where
  "wrong_arity = ''ERR wrong number of arguments''"

definition invalid_integer :: string where
  "invalid_integer = ''ERR value is not an integer or out of range''"

definition wrong_type :: string where
  "wrong_type = ''WRONGTYPE Operation against a key holding the wrong kind of value''"

definition upper_char :: "char \<Rightarrow> char" where
  "upper_char c = (if CHR ''a'' \<le> c \<and> c \<le> CHR ''z'' then char_of (of_char c - 97 + 65 :: nat) else c)"

definition normalize :: "string \<Rightarrow> string" where
  "normalize name = map upper_char name"

definition parse_int64 :: "string \<Rightarrow> i64 option" where
  "parse_int64 txt =
     (if txt = [] \<or> hd txt = CHR ''+'' then None
      else case from_chars int64_min int64_max txt of
        (ec, rest, v) \<Rightarrow> if ec \<noteq> Ec_ok \<or> rest \<noteq> [] then None else Some (of_int v))"

text \<open>\<^verbatim>\<open>steady_clock::time_point::max()\<close> in nanoseconds.\<close>

definition steady_max :: int where
  "steady_max = 2 ^ 63 - 1"

definition expiration_is_representable :: "int \<Rightarrow> i64 \<Rightarrow> bool" where
  "expiration_is_representable t seconds =
     (if sint seconds \<le> 0 then True else sint seconds \<le> whole_seconds (steady_max - t))"

text \<open>\<^verbatim>\<open>arguments[i]\<close>, which is undefined outside the vector.\<close>

definition with_arg ::
    "nat \<Rightarrow> string list \<Rightarrow> command_context \<Rightarrow>
     (string \<Rightarrow> resp_value result \<times> command_context) \<Rightarrow> resp_value result \<times> command_context" where
  "with_arg i arguments ctx f =
     (if i < length arguments then f (arguments ! i)
      else (Inl (Undefined_behaviour ''argument index out of range''), ctx))"

text \<open>The state of the engine and the store after a durable operation, and its reply.\<close>

definition after_durable ::
    "('a \<Rightarrow> resp_value) \<Rightarrow> 'a on_engine \<Rightarrow> command_context \<Rightarrow> resp_value result \<times> command_context" where
  "after_durable reply r ctx =
     (case r of
        (Inl x, e, st) \<Rightarrow> (Inl x, ctx\<lparr>ctx_persistence := Some e, ctx_store := st\<rparr>)
      | (Inr a, e, st) \<Rightarrow> (Inr (reply a), ctx\<lparr>ctx_persistence := Some e, ctx_store := st\<rparr>))"

section \<open>Handlers\<close>

definition cmd_ping :: handler where
  "cmd_ping arguments E ctx =
     (if length arguments = 1 then (Inr (SimpleString ''PONG''), ctx)
      else with_arg 1 arguments ctx (\<lambda>m. (Inr (BulkString (Some m)), ctx)))"

definition cmd_echo :: handler where
  "cmd_echo arguments E ctx = with_arg 1 arguments ctx (\<lambda>m. (Inr (BulkString (Some m)), ctx))"

definition cmd_set :: handler where
  "cmd_set arguments E ctx =
     with_arg 1 arguments ctx (\<lambda>key. with_arg 2 arguments ctx (\<lambda>v.
       case ctx_persistence ctx of
         Some e \<Rightarrow> after_durable (\<lambda>_. SimpleString ''OK'')
           (durable_set (env_os E) (env_abi E) (clock0 E) key v e (ctx_store ctx)) ctx
       | None \<Rightarrow> (Inr (SimpleString ''OK''),
           ctx\<lparr>ctx_store := store_set (env_abi E) (clock0 E) key (VString v) (ctx_store ctx)\<rparr>)))"

definition cmd_get :: handler where
  "cmd_get arguments E ctx =
     with_arg 1 arguments ctx (\<lambda>key.
       case store_get (env_abi E) (clock0 E) key (ctx_store ctx) of
         (v, st) \<Rightarrow>
           (Inr (case v of
                   None \<Rightarrow> BulkString None
                 | Some (VString s) \<Rightarrow> BulkString (Some s)
                 | Some _ \<Rightarrow> Error wrong_type), ctx\<lparr>ctx_store := st\<rparr>))"

definition cmd_del :: handler where
  "cmd_del arguments E ctx =
     (let ks = drop 1 arguments; reply = (\<lambda>n. Integer (of_nat n)) in
      case ctx_persistence ctx of
        Some e \<Rightarrow> after_durable reply
          (durable_del (env_os E) (env_abi E) (clock0 E) ks e (ctx_store ctx)) ctx
      | None \<Rightarrow>
          (case store_del_many (env_abi E) (clock0 E) ks (ctx_store ctx) of
             (n, st) \<Rightarrow> (Inr (reply n), ctx\<lparr>ctx_store := st\<rparr>)))"

definition cmd_exists :: handler where
  "cmd_exists arguments E ctx =
     (case store_exists_many (env_abi E) (clock0 E) (drop 1 arguments) (ctx_store ctx) of
        (n, st) \<Rightarrow> (Inr (Integer (of_nat n)), ctx\<lparr>ctx_store := st\<rparr>))"

definition cmd_expire :: handler where
  "cmd_expire arguments E ctx =
     with_arg 2 arguments ctx (\<lambda>txt.
       case parse_int64 txt of
         None \<Rightarrow> (Inr (Error invalid_integer), ctx)
       | Some seconds \<Rightarrow>
           if \<not> expiration_is_representable (steady_now E) seconds
           then (Inr (Error invalid_integer), ctx)
           else with_arg 1 arguments ctx (\<lambda>key.
             let reply = (\<lambda>changed. Integer (if changed then 1 else 0)) in
             case ctx_persistence ctx of
               Some e \<Rightarrow> after_durable reply
                 (durable_expire (env_os E) (env_abi E) (clock0 E) (clock1 E) (clock2 E) key
                    (sint seconds) e (ctx_store ctx)) ctx
             | None \<Rightarrow>
                 (case store_expire (env_abi E) (clock0 E) (clock1 E) (clock2 E) key (sint seconds)
                         (ctx_store ctx) of
                    (changed, st) \<Rightarrow> (Inr (reply changed), ctx\<lparr>ctx_store := st\<rparr>))))"

definition cmd_ttl :: handler where
  "cmd_ttl arguments E ctx =
     with_arg 1 arguments ctx (\<lambda>key.
       case store_ttl (env_abi E) (clock0 E) key (ctx_store ctx) of
         (v, st) \<Rightarrow> (Inr (Integer (of_int v)), ctx\<lparr>ctx_store := st\<rparr>))"

definition cmd_keys :: handler where
  "cmd_keys arguments E ctx =
     with_arg 1 arguments ctx (\<lambda>pattern.
       case store_keys (clock0 E) pattern (ctx_store ctx) of
         (r, st) \<Rightarrow>
           (Inr (if keys_status r \<noteq> Keys_ok then Error ''ERR unsupported pattern''
                 else Array (Some (map (\<lambda>k. BulkString (Some k)) (keys_found r)))),
            ctx\<lparr>ctx_store := st\<rparr>))"

definition cmd_info :: handler where
  "cmd_info arguments E ctx =
     (case ctx_stats ctx of
        None \<Rightarrow> (Inr (BulkString (Some [])), ctx)
      | Some s \<Rightarrow> (Inr (BulkString (Some (render_info (ctx_version ctx) (ctx_tcp_port ctx)
                     (ctx_worker_count ctx) (shard_count (ctx_store ctx)) s))), ctx))"

section \<open>The registry\<close>

fun bulk_arguments :: "resp_value list \<Rightarrow> string list option" where
  "bulk_arguments [] = Some []"
| "bulk_arguments (BulkString (Some s) # items) = map_option ((#) s) (bulk_arguments items)"
| "bulk_arguments (_ # items) = None"

definition extract_arguments :: "resp_value \<Rightarrow> string list option" where
  "extract_arguments request =
     (case request of
        Array (Some items) \<Rightarrow> if items = [] then None else bulk_arguments items
      | _ \<Rightarrow> None)"

definition registry_add ::
    "string \<Rightarrow> nat \<Rightarrow> nat \<Rightarrow> command_access \<Rightarrow> handler \<Rightarrow> registry \<Rightarrow> registry" where
  "registry_add name minimum maximum acc h commands =
     (let key = normalize name; mutating = (acc = Write_access) in
      if um_find key commands \<noteq> None then commands
      else um_store key
        \<lparr>cmd_metadata = \<lparr>cmd_name = name, minimum_arity = minimum, maximum_arity = maximum,
                         access = acc, persistent = mutating, replicated = mutating\<rparr>,
         cmd_handler = h\<rparr> commands)"

definition size_max :: nat where
  "size_max = 2 ^ 64 - 1"

definition new_registry :: registry where
  "new_registry =
     registry_add ''INFO'' 1 2 Read_only cmd_info
     (registry_add ''KEYS'' 2 2 Read_only cmd_keys
     (registry_add ''TTL'' 2 2 Read_only cmd_ttl
     (registry_add ''EXPIRE'' 3 3 Write_access cmd_expire
     (registry_add ''EXISTS'' 2 size_max Read_only cmd_exists
     (registry_add ''DEL'' 2 size_max Write_access cmd_del
     (registry_add ''GET'' 2 2 Read_only cmd_get
     (registry_add ''SET'' 3 3 Write_access cmd_set
     (registry_add ''ECHO'' 2 2 Read_only cmd_echo
     (registry_add ''PING'' 1 2 Read_only cmd_ping [])))))))))"

definition execute ::
    "registry \<Rightarrow> resp_value \<Rightarrow> command_env \<Rightarrow> command_context \<Rightarrow> resp_value result \<times> command_context" where
  "execute commands request E ctx =
     (case extract_arguments request of
        None \<Rightarrow> (Inr (Error ''ERR Protocol error''), ctx)
      | Some arguments \<Rightarrow>
          (case um_find (normalize (hd arguments)) commands of
             None \<Rightarrow> (Inr (Error ''ERR unknown command''), ctx)
           | Some entry \<Rightarrow>
               if length arguments < minimum_arity (cmd_metadata entry) \<or>
                  length arguments > maximum_arity (cmd_metadata entry)
               then (Inr (Error wrong_arity), ctx)
               else cmd_handler entry arguments E ctx))"

text \<open>The overload on a bare store, and the two remaining members.\<close>

definition execute_store :: "registry \<Rightarrow> resp_value \<Rightarrow> command_env \<Rightarrow> store \<Rightarrow> resp_value result \<times> store" where
  "execute_store commands request E st =
     (case execute commands request E
             \<lparr>ctx_store = st, ctx_stats = None, ctx_persistence = None, ctx_version = ''0.1.0'',
              ctx_tcp_port = 0, ctx_worker_count = 0\<rparr> of
        (r, ctx) \<Rightarrow> (r, ctx_store ctx))"

definition dispatch ::
    "registry \<Rightarrow> resp_value \<Rightarrow> command_env \<Rightarrow> command_context \<Rightarrow> resp_value result \<times> command_context" where
  "dispatch commands request E ctx = execute commands request E ctx"

definition registry_metadata :: "registry \<Rightarrow> string \<Rightarrow> command_metadata option" where
  "registry_metadata commands name = map_option cmd_metadata (um_find (normalize name) commands)"

end
