(* ===== verification/Thread_Pool.thy ===== *)
theory Thread_Pool
  imports Prelude "HOL-Library.Multiset"
begin

text \<open>
  The thread pool of \<^verbatim>\<open>src/util/thread_pool.cpp\<close>. Its critical sections are functions on the
  state; what the threads do between them is a step relation, so that every interleaving of the
  submitting thread, the workers and \<^verbatim>\<open>shutdown\<close> is covered.
\<close>

section \<open>State and operations\<close>

text \<open>
  A worker waits on the condition variable, runs a job that it has taken, or has returned from
  \<^verbatim>\<open>worker_main\<close>.
\<close>

datatype 'j worker = Waiting | Running 'j | Returned

record 'j thread_pool =
  max_queue_size :: nat
  jobs :: "'j list"
  pool_workers :: "'j worker list"
  pool_stopping :: bool

definition new_thread_pool :: "nat \<Rightarrow> nat \<Rightarrow> 'j thread_pool result" where
  "new_thread_pool thread_count queue_limit =
     (if thread_count = 0 then Inl (Invalid_argument ''thread pool requires at least one worker'')
      else if queue_limit = 0 then Inl (Invalid_argument ''thread pool queue limit must be positive'')
      else Inr \<lparr>max_queue_size = queue_limit, jobs = [], pool_workers = replicate thread_count Waiting,
                pool_stopping = False\<rparr>)"

definition try_submit :: "'j \<Rightarrow> 'j thread_pool \<Rightarrow> bool \<times> 'j thread_pool" where
  "try_submit job p =
     (if pool_stopping p \<or> length (jobs p) \<ge> max_queue_size p then (False, p)
      else (True, p\<lparr>jobs := jobs p @ [job]\<rparr>))"

text \<open>
  The critical section of \<^verbatim>\<open>worker_main\<close>: \<open>None\<close> while the predicate of the wait is false;
  otherwise the worker returns, or takes the first job.
\<close>

definition worker_wake :: "'j thread_pool \<Rightarrow> ('j worker \<times> 'j thread_pool) option" where
  "worker_wake p =
     (if \<not> (pool_stopping p \<or> jobs p \<noteq> []) then None
      else if pool_stopping p \<and> jobs p = [] then Some (Returned, p)
      else Some (Running (hd (jobs p)), p\<lparr>jobs := tl (jobs p)\<rparr>))"

text \<open>The two critical sections of \<^verbatim>\<open>shutdown\<close>, before and after joining the workers.\<close>

definition begin_shutdown :: "'j thread_pool \<Rightarrow> bool \<times> 'j thread_pool" where
  "begin_shutdown p = (if pool_stopping p then (False, p) else (True, p\<lparr>pool_stopping := True\<rparr>))"

definition end_shutdown :: "'j thread_pool \<Rightarrow> 'j thread_pool" where
  "end_shutdown p = p\<lparr>pool_workers := [], jobs := []\<rparr>"

definition thread_count :: "'j thread_pool \<Rightarrow> nat" where
  "thread_count p = length (pool_workers p)"

definition queued_jobs :: "'j thread_pool \<Rightarrow> nat" where
  "queued_jobs p = length (jobs p)"

definition accepting :: "'j thread_pool \<Rightarrow> bool" where
  "accepting p = (\<not> pool_stopping p)"

section \<open>Steps\<close>

datatype 'j pool_event =
    Submit 'j bool
  | Start nat 'j
  | Finish nat 'j
  | Return nat
  | Stop
  | Join

inductive pool_step :: "'j thread_pool \<Rightarrow> 'j pool_event \<Rightarrow> 'j thread_pool \<Rightarrow> bool" where
  submit: "try_submit job p = (ok, p') \<Longrightarrow> pool_step p (Submit job ok) p'"
| start: "i < length (pool_workers p) \<Longrightarrow> pool_workers p ! i = Waiting \<Longrightarrow>
    worker_wake p = Some (Running job, p') \<Longrightarrow>
    pool_step p (Start i job) (p'\<lparr>pool_workers := (pool_workers p)[i := Running job]\<rparr>)"
| finish: "i < length (pool_workers p) \<Longrightarrow> pool_workers p ! i = Running job \<Longrightarrow>
    pool_step p (Finish i job) (p\<lparr>pool_workers := (pool_workers p)[i := Waiting]\<rparr>)"
| return: "i < length (pool_workers p) \<Longrightarrow> pool_workers p ! i = Waiting \<Longrightarrow>
    worker_wake p = Some (Returned, p') \<Longrightarrow>
    pool_step p (Return i) (p'\<lparr>pool_workers := (pool_workers p)[i := Returned]\<rparr>)"
| stop: "begin_shutdown p = (True, p') \<Longrightarrow> pool_step p Stop p'"
| join: "pool_stopping p \<Longrightarrow> pool_workers p \<noteq> [] \<Longrightarrow> list_all (\<lambda>w. w = Returned) (pool_workers p) \<Longrightarrow>
    pool_step p Join (end_shutdown p)"

inductive_cases pool_stepE: "pool_step p ev p'"

text \<open>Runs with the list of their events.\<close>

inductive pool_run :: "'j thread_pool \<Rightarrow> 'j pool_event list \<Rightarrow> 'j thread_pool \<Rightarrow> bool" for p where
  none: "pool_run p [] p"
| snoc: "pool_run p evs p' \<Longrightarrow> pool_step p' ev p'' \<Longrightarrow> pool_run p (evs @ [ev]) p''"

section \<open>What happened in a run\<close>

fun accepted_jobs :: "'j pool_event list \<Rightarrow> 'j list" where
  "accepted_jobs [] = []"
| "accepted_jobs (Submit j ok # evs) = (if ok then j # accepted_jobs evs else accepted_jobs evs)"
| "accepted_jobs (_ # evs) = accepted_jobs evs"

fun started_jobs :: "'j pool_event list \<Rightarrow> 'j list" where
  "started_jobs [] = []"
| "started_jobs (Start i j # evs) = j # started_jobs evs"
| "started_jobs (_ # evs) = started_jobs evs"

fun finished_jobs :: "'j pool_event list \<Rightarrow> 'j list" where
  "finished_jobs [] = []"
| "finished_jobs (Finish i j # evs) = j # finished_jobs evs"
| "finished_jobs (_ # evs) = finished_jobs evs"

fun running_jobs :: "'j worker list \<Rightarrow> 'j list" where
  "running_jobs [] = []"
| "running_jobs (Running j # ws) = j # running_jobs ws"
| "running_jobs (_ # ws) = running_jobs ws"

lemma accepted_append [simp]: "accepted_jobs (evs @ evs') = accepted_jobs evs @ accepted_jobs evs'"
  by (induction evs rule: accepted_jobs.induct) simp_all

lemma started_append [simp]: "started_jobs (evs @ evs') = started_jobs evs @ started_jobs evs'"
  by (induction evs rule: started_jobs.induct) simp_all

lemma finished_append [simp]: "finished_jobs (evs @ evs') = finished_jobs evs @ finished_jobs evs'"
  by (induction evs rule: finished_jobs.induct) simp_all

lemma running_update:
  assumes "i < length ws"
  shows "mset (running_jobs (ws[i := w])) + mset (running_jobs [ws ! i]) =
    mset (running_jobs ws) + mset (running_jobs [w])"
  using assms
proof (induction ws arbitrary: i)
  case (Cons v ws)
  then show ?case by (cases v; cases w; cases i) force+
qed simp

lemma running_returned: "list_all (\<lambda>w. w = Returned) ws \<Longrightarrow> running_jobs ws = []"
  by (induction ws) auto

text \<open>
  The invariant: the queue holds, in order, what was accepted and not started; the workers run
  what was started and not finished; after the join there is neither.
\<close>

definition pool_inv :: "'j pool_event list \<Rightarrow> 'j thread_pool \<Rightarrow> bool" where
  "pool_inv evs p \<longleftrightarrow>
     accepted_jobs evs = started_jobs evs @ jobs p \<and>
     mset (started_jobs evs) = mset (finished_jobs evs) + mset (running_jobs (pool_workers p)) \<and>
     length (jobs p) \<le> max_queue_size p \<and> (Join \<in> set evs \<longrightarrow> pool_workers p = []) \<and>
     (Returned \<in> set (pool_workers p) \<or> pool_workers p = [] \<longrightarrow> jobs p = [] \<and> pool_stopping p)"

lemma pool_inv_step:
  assumes "pool_inv evs p" and "pool_step p ev p'"
  shows "pool_inv (evs @ [ev]) p'"
  using assms(2)
proof cases
  case (submit job ok)
  then show ?thesis
    using assms(1) by (auto simp: pool_inv_def try_submit_def split: if_splits)
next
  case (start i job q)
  then have "jobs p = job # jobs q" "pool_stopping q = pool_stopping p" "max_queue_size q = max_queue_size p"
    by (auto simp: worker_wake_def split: if_splits)
  then show ?thesis
    using assms(1) start running_update [of i "pool_workers p" "Running job"]
    by (auto simp: pool_inv_def dest!: subsetD [OF set_update_subset_insert])
next
  case (finish i job)
  then show ?thesis
    using assms(1) running_update [of i "pool_workers p" Waiting]
    by (auto simp: pool_inv_def dest!: subsetD [OF set_update_subset_insert])
next
  case (return i q)
  then show ?thesis
    using assms(1) running_update [of i "pool_workers p" Returned]
    by (auto simp: pool_inv_def worker_wake_def split: if_splits)
next
  case stop
  then show ?thesis
    using assms(1) by (auto simp: pool_inv_def begin_shutdown_def split: if_splits)
next
  case join
  then show ?thesis
    using assms(1) running_returned [of "pool_workers p"]
    by (cases "pool_workers p") (auto simp: pool_inv_def end_shutdown_def)
qed

lemma pool_inv_run:
  assumes "new_thread_pool n q = Inr p" and "pool_run p evs p'"
  shows "pool_inv evs p' \<and> max_queue_size p' = q"
  using assms(2)
proof induction
  case none
  have "running_jobs (replicate n Waiting) = []" by (induction n) auto
  then show ?case using assms(1) by (auto simp: new_thread_pool_def pool_inv_def split: if_splits)
next
  case (snoc evs p' ev p'')
  have "max_queue_size p'' = max_queue_size p'"
    using snoc.hyps(2) by (auto elim!: pool_stepE simp: try_submit_def worker_wake_def begin_shutdown_def
        end_shutdown_def split: if_splits)
  then show ?case using snoc pool_inv_step by auto
qed







section \<open>Properties of the thread pool\<close>

text \<open>
  C36: Every accepted job runs exactly once, in order. In every interleaving of submissions, workers
  and shutdown, jobs are started in the order in which they were accepted, the queue holds exactly
  the accepted jobs that have not been started and never more than the limit, and once
  \<^verbatim>\<open>shutdown\<close> has joined the workers every accepted job has finished, each as often as it was
  accepted.
\<close>

theorem pool_exactly_once:
  assumes "new_thread_pool n q = Inr p" and "pool_run p evs p'"
  shows "accepted_jobs evs = started_jobs evs @ jobs p' \<and> queued_jobs p' \<le> q \<and>
    mset (started_jobs evs) = mset (finished_jobs evs) + mset (running_jobs (pool_workers p')) \<and>
    (Join \<in> set evs \<longrightarrow> mset (finished_jobs evs) = mset (accepted_jobs evs))"
  using pool_inv_run [OF assms] by (auto simp: pool_inv_def queued_jobs_def)

definition sample_pool :: "nat thread_pool" where
  "sample_pool = \<lparr>max_queue_size = 1, jobs = [], pool_workers = [Waiting], pool_stopping = False\<rparr>"

definition sample_events :: "nat pool_event list" where
  "sample_events = [Submit 7 True, Submit 8 False, Stop, Start 0 7, Finish 0 7, Return 0, Join]"

lemma sample_pool_run: "\<exists>p. pool_run sample_pool sample_events p"
proof -
  note s = pool_run.none [of sample_pool]
  note s = pool_run.snoc [OF s pool_step.submit, of 7 True "sample_pool\<lparr>jobs := [7]\<rparr>"]
  have "pool_run sample_pool [Submit 7 True] (sample_pool\<lparr>jobs := [7]\<rparr>)"
    using s by (simp add: try_submit_def sample_pool_def)
  note s = pool_run.snoc [OF this pool_step.submit, of 8 False "sample_pool\<lparr>jobs := [7]\<rparr>"]
  have "pool_run sample_pool [Submit 7 True, Submit 8 False] (sample_pool\<lparr>jobs := [7]\<rparr>)"
    using s by (simp add: try_submit_def sample_pool_def)
  note s = pool_run.snoc [OF this pool_step.stop, of "sample_pool\<lparr>jobs := [7], pool_stopping := True\<rparr>"]
  have "pool_run sample_pool [Submit 7 True, Submit 8 False, Stop]
      (sample_pool\<lparr>jobs := [7], pool_stopping := True\<rparr>)"
    using s by (simp add: begin_shutdown_def sample_pool_def)
  note s = pool_run.snoc [OF this pool_step.start, of 0 7 "sample_pool\<lparr>jobs := [], pool_stopping := True\<rparr>"]
  have "pool_run sample_pool [Submit 7 True, Submit 8 False, Stop, Start 0 7]
      (sample_pool\<lparr>jobs := [], pool_stopping := True, pool_workers := [Running 7]\<rparr>)"
    using s by (simp add: worker_wake_def sample_pool_def)
  note s = pool_run.snoc [OF this pool_step.finish, of 0 7]
  have "pool_run sample_pool [Submit 7 True, Submit 8 False, Stop, Start 0 7, Finish 0 7]
      (sample_pool\<lparr>jobs := [], pool_stopping := True, pool_workers := [Waiting]\<rparr>)"
    using s by (simp add: sample_pool_def)
  note s = pool_run.snoc [OF this pool_step.return, of 0 "sample_pool\<lparr>jobs := [], pool_stopping := True\<rparr>"]
  have "pool_run sample_pool [Submit 7 True, Submit 8 False, Stop, Start 0 7, Finish 0 7, Return 0]
      (sample_pool\<lparr>jobs := [], pool_stopping := True, pool_workers := [Returned]\<rparr>)"
    using s by (simp add: worker_wake_def sample_pool_def)
  from pool_run.snoc [OF this pool_step.join] show ?thesis
    by (auto simp: sample_events_def)
qed

theorem pool_exactly_once_witness:
  "new_thread_pool 1 1 = Inr sample_pool \<and>
   (\<exists>p. pool_run sample_pool sample_events p \<and>
     mset (finished_jobs sample_events) = mset (accepted_jobs sample_events))"
proof -
  have n: "new_thread_pool 1 1 = Inr sample_pool" by (simp add: new_thread_pool_def sample_pool_def)
  obtain p where p: "pool_run sample_pool sample_events p" using sample_pool_run by blast
  from pool_exactly_once [OF n p] show ?thesis using n p by (auto simp: sample_events_def)
qed



end
