(* ===== verification/Reactor.thy ===== *)
theory Reactor
  imports Files
begin

text \<open>
  The kqueue reactor of \<^verbatim>\<open>src/net/reactor.cpp\<close>. The state is the map \<^verbatim>\<open>registered_\<close> and, as the
  part of the kernel it talks to, the list of the filters installed in the queue. A call of
  \<^verbatim>\<open>kevent\<close> with changes either applies them all or fails.
\<close>

section \<open>Interests and events\<close>

text \<open>\<^verbatim>\<open>Interest\<close> is an 8-bit set of flags.\<close>

type_synonym interest = u8

definition interest_none :: interest where
  "interest_none = 0"

definition interest_read :: interest where
  "interest_read = 1"

definition interest_write :: interest where
  "interest_write = 2"

definition has_interest :: "interest \<Rightarrow> interest \<Rightarrow> bool" where
  "has_interest v flag \<longleftrightarrow> v AND flag \<noteq> interest_none"

datatype kfilter = Evfilt_read | Evfilt_write | Evfilt_user

record kevent =
  kev_ident :: int
  kev_filter :: kfilter
  kev_error :: bool
  kev_eof :: bool

record fired_event =
  fired_fd :: int
  fired_ready :: interest
  fired_error :: bool
  fired_hangup :: bool

section \<open>The reactor\<close>

record reactor =
  registered :: "(int \<times> interest) list"
  kernel :: "(int \<times> kfilter) list"

definition wakeup_ident :: int where
  "wakeup_ident = 1"

definition create_reactor :: "os \<Rightarrow> reactor result" where
  "create_reactor os =
     (if \<not> sys_ok os ''kqueue'' then Inl (System_error ''kqueue'')
      else if \<not> sys_ok os ''kevent(EVFILT_USER ADD)'' then Inl (System_error ''kevent(EVFILT_USER ADD)'')
      else Inr \<lparr>registered = [], kernel = [(wakeup_ident, Evfilt_user)]\<rparr>)"

text \<open>
  A change of the kernel's list: \<^verbatim>\<open>EV_ADD\<close>, or \<^verbatim>\<open>EV_DELETE\<close>, which gives \<^verbatim>\<open>ENOENT\<close> (\<open>None\<close>) when the
  filter is not installed. The changes of one call are applied in order up to the first error.
\<close>

datatype kchange = Ev_add int kfilter | Ev_delete int kfilter

fun kevent_change :: "kchange \<Rightarrow> (int \<times> kfilter) list \<Rightarrow> (int \<times> kfilter) list option" where
  "kevent_change (Ev_add fd f) ks = Some (if (fd, f) \<in> set ks then ks else (fd, f) # ks)"
| "kevent_change (Ev_delete fd f) ks =
     (if (fd, f) \<in> set ks then Some (filter (\<lambda>k. k \<noteq> (fd, f)) ks) else None)"

fun kevent_changes :: "kchange list \<Rightarrow> (int \<times> kfilter) list \<Rightarrow> bool \<times> (int \<times> kfilter) list" where
  "kevent_changes [] ks = (True, ks)"
| "kevent_changes (c # cs) ks =
     (case kevent_change c ks of None \<Rightarrow> (False, ks) | Some ks' \<Rightarrow> kevent_changes cs ks')"

text \<open>The lambda \<^verbatim>\<open>ensure\<close> of \<^verbatim>\<open>apply\<close>.\<close>

definition ensure :: "int \<Rightarrow> interest \<Rightarrow> interest \<Rightarrow> interest \<Rightarrow> kfilter \<Rightarrow> kchange list" where
  "ensure fd interest previous flag f =
     (let want = has_interest interest flag; had = has_interest previous flag in
      if want \<and> \<not> had then [Ev_add fd f] else if \<not> want \<and> had then [Ev_delete fd f] else [])"

definition registered_interest :: "int \<Rightarrow> reactor \<Rightarrow> interest" where
  "registered_interest fd r = (case um_find fd (registered r) of None \<Rightarrow> interest_none | Some i \<Rightarrow> i)"

definition reactor_apply :: "os \<Rightarrow> int \<Rightarrow> interest \<Rightarrow> reactor \<Rightarrow> unit result \<times> reactor" where
  "reactor_apply os fd interest r =
     (let previous = registered_interest fd r;
          changes = ensure fd interest previous interest_read Evfilt_read @
                    ensure fd interest previous interest_write Evfilt_write;
          call = (if changes \<noteq> [] \<and> \<not> sys_ok os ''kevent(apply)'' then (False, kernel r)
                  else kevent_changes changes (kernel r))
      in if \<not> fst call then (Inl (System_error ''kevent(apply)''), r\<lparr>kernel := snd call\<rparr>)
         else (Inr (), \<lparr>registered = (if interest = interest_none then um_erase fd (registered r)
                                      else um_store fd interest (registered r)),
                        kernel = snd call\<rparr>))"

definition reactor_add :: "os \<Rightarrow> int \<Rightarrow> interest \<Rightarrow> reactor \<Rightarrow> unit result \<times> reactor" where
  "reactor_add os fd interest r = reactor_apply os fd interest r"

definition reactor_modify :: "os \<Rightarrow> int \<Rightarrow> interest \<Rightarrow> reactor \<Rightarrow> unit result \<times> reactor" where
  "reactor_modify os fd interest r = reactor_apply os fd interest r"

text \<open>
  \<^verbatim>\<open>remove\<close> deletes the two filters one after the other and accepts \<^verbatim>\<open>ENOENT\<close>; \<open>os\<close> decides
  whether another error occurs in one of the calls.
\<close>

fun remove_filters :: "os \<Rightarrow> int \<Rightarrow> kfilter list \<Rightarrow> (int \<times> kfilter) list \<Rightarrow> bool \<times> (int \<times> kfilter) list" where
  "remove_filters os fd [] ks = (True, ks)"
| "remove_filters os fd (f # fs) ks =
     (if \<not> sys_ok os (if f = Evfilt_read then ''kevent(DELETE read)'' else ''kevent(DELETE write)'')
      then (False, ks)
      else remove_filters os fd fs (case kevent_change (Ev_delete fd f) ks of None \<Rightarrow> ks | Some ks' \<Rightarrow> ks'))"

definition reactor_remove :: "os \<Rightarrow> int \<Rightarrow> reactor \<Rightarrow> unit result \<times> reactor" where
  "reactor_remove os fd r =
     (case remove_filters os fd [Evfilt_read, Evfilt_write] (kernel r) of
        (False, ks) \<Rightarrow> (Inl (System_error ''kevent(DELETE)''), r\<lparr>kernel := ks\<rparr>)
      | (True, ks) \<Rightarrow> (Inr (), \<lparr>registered = um_erase fd (registered r), kernel = ks\<rparr>))"

definition reactor_wakeup :: "os \<Rightarrow> unit result" where
  "reactor_wakeup os =
     (if \<not> sys_ok os ''kevent(NOTE_TRIGGER)'' then Inl (System_error ''kevent(NOTE_TRIGGER)'') else Inr ())"

section \<open>Waiting\<close>

text \<open>The \<^verbatim>\<open>timespec\<close> of a timeout in milliseconds; division truncates towards zero.\<close>

definition timeout_value :: "int \<Rightarrow> int \<times> int" where
  "timeout_value ms = (sgn ms * (\<bar>ms\<bar> div 1000), sgn ms * (\<bar>ms\<bar> mod 1000) * 1000000)"

text \<open>
  The outcomes of the successive \<^verbatim>\<open>kevent\<close> calls of one wait. When they are used up the call
  returns no event, as it does when the timeout expires.
\<close>

datatype wait_outcome = Fired "kevent list" | Wait_interrupted | Wait_failed

fun wait_events :: "wait_outcome list \<Rightarrow> kevent list result" where
  "wait_events [] = Inr []"
| "wait_events (Fired evs # later) = Inr evs"
| "wait_events (Wait_interrupted # later) = wait_events later"
| "wait_events (Wait_failed # later) = Inl (System_error ''kevent(wait)'')"

definition fire :: "kevent \<Rightarrow> fired_event \<Rightarrow> fired_event" where
  "fire ev slot =
     \<lparr>fired_fd = fired_fd slot,
      fired_ready = (case kev_filter ev of
          Evfilt_read \<Rightarrow> fired_ready slot OR interest_read
        | Evfilt_write \<Rightarrow> fired_ready slot OR interest_write
        | Evfilt_user \<Rightarrow> fired_ready slot),
      fired_error = (fired_error slot \<or> kev_error ev),
      fired_hangup = (fired_hangup slot \<or> kev_eof ev)\<rparr>"

text \<open>The slot of a descriptor is searched among those produced; a new one is added at the end.\<close>

fun fire_slot :: "kevent \<Rightarrow> fired_event list \<Rightarrow> fired_event list" where
  "fire_slot ev [] =
     [fire ev \<lparr>fired_fd = kev_ident ev, fired_ready = interest_none, fired_error = False, fired_hangup = False\<rparr>]"
| "fire_slot ev (slot # slots) =
     (if fired_fd slot = kev_ident ev then fire ev slot # slots else slot # fire_slot ev slots)"

definition collect_event :: "fired_event list \<Rightarrow> kevent \<Rightarrow> fired_event list" where
  "collect_event out ev = (if kev_filter ev = Evfilt_user then out else fire_slot ev out)"

text \<open>The kernel answers a timeout and a capacity with the outcomes of the calls.\<close>

type_synonym kevent_wait = "(int \<times> int) option \<Rightarrow> nat \<Rightarrow> wait_outcome list"

definition reactor_wait :: "kevent_wait \<Rightarrow> nat \<Rightarrow> int option \<Rightarrow> fired_event list result" where
  "reactor_wait kq out_size timeout =
     (if out_size = 0 then Inr []
      else bindE (wait_events (kq (map_option timeout_value timeout) out_size))
        (\<lambda>events. Inr (foldl collect_event [] events)))"

section \<open>Laws of the interests\<close>

lemma has_interest_flags [simp]:
  "\<not> has_interest interest_none f"
  "has_interest interest_read interest_read" "has_interest interest_write interest_write"
  "\<not> has_interest interest_read interest_write" "\<not> has_interest interest_write interest_read"
  by (simp_all add: has_interest_def interest_none_def interest_read_def interest_write_def)

lemma has_interest_or [simp]: "has_interest (a OR b) f \<longleftrightarrow> has_interest a f \<or> has_interest b f"
  by (simp add: has_interest_def interest_none_def bit.conj_disj_distrib2 or_eq_0_iff)

text \<open>What is installed for a descriptor is what is registered for it.\<close>

definition reactor_ok :: "reactor \<Rightarrow> bool" where
  "reactor_ok r \<longleftrightarrow> um_wf (registered r) \<and>
     (\<forall>fd. ((fd, Evfilt_read) \<in> set (kernel r) \<longleftrightarrow> has_interest (registered_interest fd r) interest_read) \<and>
           ((fd, Evfilt_write) \<in> set (kernel r) \<longleftrightarrow> has_interest (registered_interest fd r) interest_write))"

lemma kevent_ensure:
  assumes "(fd, f) \<in> set ks \<longleftrightarrow> has_interest previous flag"
  shows "\<exists>ks'. kevent_changes (ensure fd interest previous flag f @ cs) ks = kevent_changes cs ks' \<and>
    set ks' = (if has_interest interest flag then insert (fd, f) (set ks) else set ks - {(fd, f)})"
  using assms by (auto simp: ensure_def Let_def)

lemma reactor_apply_effect:
  assumes ok: "reactor_ok r" and calls: "sys_ok os ''kevent(apply)''"
  shows "\<exists>r'. reactor_apply os fd interest r = (Inr (), r') \<and> reactor_ok r' \<and>
    (\<lambda>j. registered_interest j r') = (\<lambda>j. registered_interest j r)(fd := interest)"
proof -
  let ?p = "registered_interest fd r"
  have pre: "(fd, Evfilt_read) \<in> set (kernel r) \<longleftrightarrow> has_interest ?p interest_read"
      "(fd, Evfilt_write) \<in> set (kernel r) \<longleftrightarrow> has_interest ?p interest_write"
    using ok by (auto simp: reactor_ok_def)
  obtain k1 where k1: "kevent_changes (ensure fd interest ?p interest_read Evfilt_read @
        ensure fd interest ?p interest_write Evfilt_write) (kernel r) =
      kevent_changes (ensure fd interest ?p interest_write Evfilt_write) k1"
    "set k1 = (if has_interest interest interest_read then insert (fd, Evfilt_read) (set (kernel r))
       else set (kernel r) - {(fd, Evfilt_read)})"
    using kevent_ensure [OF pre(1)] by blast
  have "(fd, Evfilt_write) \<in> set k1 \<longleftrightarrow> has_interest ?p interest_write" using pre(2) k1(2) by simp
  from kevent_ensure [OF this, of interest "[]"] obtain k2 where
    k2: "kevent_changes (ensure fd interest ?p interest_write Evfilt_write) k1 = (True, k2)"
    "set k2 = (if has_interest interest interest_write then insert (fd, Evfilt_write) (set k1)
       else set k1 - {(fd, Evfilt_write)})"
    by auto
  define r' where "r' = \<lparr>registered = (if interest = interest_none then um_erase fd (registered r)
      else um_store fd interest (registered r)), kernel = k2\<rparr>"
  have wf: "um_wf (registered r)" using ok by (simp add: reactor_ok_def)
  have reg: "registered_interest j r' = (if j = fd then interest else registered_interest j r)" for j
    using wf by (simp add: registered_interest_def r'_def um_facts)
  have "reactor_apply os fd interest r = (Inr (), r')"
    using k1 k2 calls by (simp add: reactor_apply_def Let_def r'_def)
  moreover have "reactor_ok r'"
    using ok wf k1(2) k2(2) unfolding reactor_ok_def reg
    by (simp add: r'_def um_facts)
  moreover have "(\<lambda>j. registered_interest j r') = (\<lambda>j. registered_interest j r)(fd := interest)"
    by (simp add: reg fun_eq_iff)
  ultimately show ?thesis by blast
qed

lemma reactor_remove_effect:
  assumes ok: "reactor_ok r"
    and calls: "sys_ok os ''kevent(DELETE read)''" "sys_ok os ''kevent(DELETE write)''"
  shows "\<exists>r'. reactor_remove os fd r = (Inr (), r') \<and> reactor_ok r' \<and>
    (\<lambda>j. registered_interest j r') = (\<lambda>j. registered_interest j r)(fd := interest_none)"
proof -
  let ?drop = "\<lambda>f ks. case kevent_change (Ev_delete fd f) ks of None \<Rightarrow> ks | Some ks' \<Rightarrow> ks'"
  have drop: "set (?drop f ks) = set ks - {(fd, f)}" for f ks by auto
  define r' where "r' = \<lparr>registered = um_erase fd (registered r),
    kernel = ?drop Evfilt_write (?drop Evfilt_read (kernel r))\<rparr>"
  have wf: "um_wf (registered r)" using ok by (simp add: reactor_ok_def)
  have reg: "registered_interest j r' = (if j = fd then interest_none else registered_interest j r)" for j
    using wf by (simp add: registered_interest_def r'_def um_facts)
  have "set (kernel r') = set (kernel r) - {(fd, Evfilt_read)} - {(fd, Evfilt_write)}"
    unfolding r'_def reactor.select_convs drop ..
  then have "reactor_ok r'"
    using ok wf unfolding reactor_ok_def reg by (auto simp: r'_def um_facts)
  moreover have "reactor_remove os fd r = (Inr (), r')"
    using calls by (simp add: reactor_remove_def r'_def)
  moreover have "(\<lambda>j. registered_interest j r') = (\<lambda>j. registered_interest j r)(fd := interest_none)"
    by (simp add: reg fun_eq_iff)
  ultimately show ?thesis by blast
qed

section \<open>Sequences of calls\<close>

text \<open>The calls of a client, and the interest that the last call for a descriptor asked for.\<close>

datatype reactor_op = Watch int interest | Rewatch int interest | Forget int

fun reactor_call :: "os \<Rightarrow> reactor_op \<Rightarrow> reactor \<Rightarrow> unit result \<times> reactor" where
  "reactor_call os (Watch fd i) r = reactor_add os fd i r"
| "reactor_call os (Rewatch fd i) r = reactor_modify os fd i r"
| "reactor_call os (Forget fd) r = reactor_remove os fd r"

fun reactor_calls :: "os \<Rightarrow> reactor_op list \<Rightarrow> reactor \<Rightarrow> unit result \<times> reactor" where
  "reactor_calls os [] r = (Inr (), r)"
| "reactor_calls os (c # cs) r =
     (case reactor_call os c r of (Inl x, r') \<Rightarrow> (Inl x, r') | (Inr _, r') \<Rightarrow> reactor_calls os cs r')"

fun wanted :: "reactor_op list \<Rightarrow> (int \<Rightarrow> interest) \<Rightarrow> int \<Rightarrow> interest" where
  "wanted [] w = w"
| "wanted (Watch fd i # cs) w = wanted cs (w(fd := i))"
| "wanted (Rewatch fd i # cs) w = wanted cs (w(fd := i))"
| "wanted (Forget fd # cs) w = wanted cs (w(fd := interest_none))"

lemma reactor_call_effect:
  assumes "reactor_ok r" and "\<forall>label. sys_ok os label"
  shows "\<exists>r'. reactor_call os c r = (Inr (), r') \<and> reactor_ok r' \<and>
    (\<lambda>fd. registered_interest fd r') = wanted [c] (\<lambda>fd. registered_interest fd r)"
  using assms reactor_apply_effect [OF assms(1), of os] reactor_remove_effect [OF assms(1), of os]
  by (cases c) (simp_all add: reactor_add_def reactor_modify_def)

lemma wanted_Cons: "wanted (c # cs) w = wanted cs (wanted [c] w)"
  by (cases c) simp_all

lemma reactor_calls_effect:
  assumes "reactor_ok r" and "\<forall>label. sys_ok os label"
  shows "\<exists>r'. reactor_calls os cs r = (Inr (), r') \<and> reactor_ok r' \<and>
    (\<lambda>fd. registered_interest fd r') = wanted cs (\<lambda>fd. registered_interest fd r)"
  using assms(1)
proof (induction cs arbitrary: r)
  case (Cons c cs)
  obtain r1 where "reactor_call os c r = (Inr (), r1)" "reactor_ok r1"
    "(\<lambda>fd. registered_interest fd r1) = wanted [c] (\<lambda>fd. registered_interest fd r)"
    using reactor_call_effect [OF Cons.prems assms(2)] by blast
  with Cons.IH [of r1] show ?case by (simp add: wanted_Cons [of c cs])
qed simp

lemma create_reactor_ok: "create_reactor os = Inr r \<Longrightarrow> reactor_ok r \<and> registered r = []"
  by (auto simp: create_reactor_def reactor_ok_def registered_interest_def split: if_splits)

section \<open>What a wait reports\<close>

definition socket_events :: "kevent list \<Rightarrow> kevent list" where
  "socket_events events = filter (\<lambda>ev. kev_filter ev \<noteq> Evfilt_user) events"

lemma socket_events_simps [simp]:
  "socket_events [] = []"
  "socket_events (events @ [ev]) =
     (if kev_filter ev = Evfilt_user then socket_events events else socket_events events @ [ev])"
  by (simp_all add: socket_events_def)

lemma collect_event_simps:
  "kev_filter ev = Evfilt_user \<Longrightarrow> collect_event out ev = out"
  "kev_filter ev \<noteq> Evfilt_user \<Longrightarrow> collect_event out ev = fire_slot ev out"
  by (simp_all add: collect_event_def)

lemma fire_slot_fds:
  "map fired_fd (fire_slot ev out) =
     (if kev_ident ev \<in> fired_fd ` set out then map fired_fd out else map fired_fd out @ [kev_ident ev])"
  by (induction ev out rule: fire_slot.induct) (auto simp: fire_def)

lemma collected_fds:
  "map fired_fd (foldl collect_event [] events) =
     rev (remdups (rev (map kev_ident (socket_events events))))"
proof (induction events rule: rev_induct)
  case (snoc ev events)
  have "fired_fd ` set (foldl collect_event [] events) = kev_ident ` set (socket_events events)"
    using arg_cong [OF snoc, of set] by simp
  then show ?case
    using snoc by (cases "kev_filter ev = Evfilt_user") (simp_all add: collect_event_simps fire_slot_fds)
qed simp

text \<open>A slot reports what the events of its descriptor say.\<close>

definition slot_reports :: "kevent list \<Rightarrow> fired_event \<Rightarrow> bool" where
  "slot_reports events s \<longleftrightarrow>
     (let mine = filter (\<lambda>ev. kev_ident ev = fired_fd s) (socket_events events) in
      (has_interest (fired_ready s) interest_read \<longleftrightarrow> Evfilt_read \<in> kev_filter ` set mine) \<and>
      (has_interest (fired_ready s) interest_write \<longleftrightarrow> Evfilt_write \<in> kev_filter ` set mine) \<and>
      (fired_error s \<longleftrightarrow> True \<in> kev_error ` set mine) \<and> (fired_hangup s \<longleftrightarrow> True \<in> kev_eof ` set mine))"

lemma slot_reports_fire:
  assumes "slot_reports events s" and "fired_fd s = kev_ident ev" and "kev_filter ev \<noteq> Evfilt_user"
  shows "slot_reports (events @ [ev]) (fire ev s)"
  using assms by (cases "kev_filter ev")
    (auto simp: slot_reports_def fire_def Let_def)

lemma slot_reports_other:
  "slot_reports events s \<Longrightarrow> fired_fd s \<noteq> kev_ident ev \<or> kev_filter ev = Evfilt_user \<Longrightarrow>
   slot_reports (events @ [ev]) s"
  by (auto simp: slot_reports_def Let_def)

lemma slot_reports_fresh:
  "kev_ident ev \<notin> kev_ident ` set (socket_events events) \<Longrightarrow>
   slot_reports events
     \<lparr>fired_fd = kev_ident ev, fired_ready = interest_none, fired_error = False, fired_hangup = False\<rparr>"
  by (force simp: slot_reports_def Let_def)

lemma fire_slot_reports:
  assumes "kev_filter ev \<noteq> Evfilt_user" and "distinct (map fired_fd out)"
    and "\<forall>s\<in>set out. slot_reports events s"
    and "kev_ident ev \<notin> fired_fd ` set out \<Longrightarrow> kev_ident ev \<notin> kev_ident ` set (socket_events events)"
  shows "\<forall>s\<in>set (fire_slot ev out). slot_reports (events @ [ev]) s"
  using assms
proof (induction ev out rule: fire_slot.induct)
  case (1 ev)
  then show ?case using slot_reports_fire [OF slot_reports_fresh, of ev events ev] by simp
next
  case (2 ev slot slots)
  show ?case
  proof (cases "fired_fd slot = kev_ident ev")
    case True
    then show ?thesis
      using 2(2-4) by (force intro: slot_reports_fire slot_reports_other)
  next
    case False
    then show ?thesis
      using 2 by (auto intro: slot_reports_other)
  qed
qed

lemma collected_reports: "\<forall>s\<in>set (foldl collect_event [] events). slot_reports events s"
proof (induction events rule: rev_induct)
  case (snoc ev events)
  let ?out = "foldl collect_event [] events"
  have fds: "fired_fd ` set ?out = kev_ident ` set (socket_events events)" "distinct (map fired_fd ?out)"
    using arg_cong [OF collected_fds, of set] collected_fds [of events] by simp_all
  show ?case
  proof (cases "kev_filter ev = Evfilt_user")
    case True
    then show ?thesis using snoc by (auto simp: collect_event_simps intro: slot_reports_other)
  next
    case False
    then show ?thesis using fire_slot_reports [OF False fds(2) snoc] fds(1) by (simp add: collect_event_simps)
  qed
qed simp

lemma wait_result:
  assumes "reactor_wait kq n timeout = Inr out" and "n > 0"
  obtains events where "wait_events (kq (map_option timeout_value timeout) n) = Inr events"
    and "out = foldl collect_event [] events"
  using assms by (auto simp: reactor_wait_def bindE_def split: sum.splits)

section \<open>Properties of the reactor\<close>

text \<open>
  C38: The kernel watches what was asked for. After any sequence of \<^verbatim>\<open>add\<close>, \<^verbatim>\<open>modify\<close> and \<^verbatim>\<open>remove\<close>
  calls on a new reactor, in which no system call fails for an outside reason, no call throws (a
  filter is never deleted that is not installed) and the read and the write filter of each
  descriptor are installed exactly when the last call for that descriptor asked for them.
\<close>

theorem reactor_watches:
  assumes "create_reactor os = Inr r" and "\<forall>label. sys_ok os' label"
  shows "\<exists>r'. reactor_calls os' cs r = (Inr (), r') \<and>
    (\<forall>fd. let i = wanted cs (\<lambda>_. interest_none) fd in
      ((fd, Evfilt_read) \<in> set (kernel r') \<longleftrightarrow> has_interest i interest_read) \<and>
      ((fd, Evfilt_write) \<in> set (kernel r') \<longleftrightarrow> has_interest i interest_write))"
proof -
  have r: "reactor_ok r" "(\<lambda>fd. registered_interest fd r) = (\<lambda>_. interest_none)"
    using create_reactor_ok [OF assms(1)] by (auto simp: registered_interest_def)
  obtain r' where r': "reactor_calls os' cs r = (Inr (), r')" "reactor_ok r'"
    "(\<lambda>fd. registered_interest fd r') = wanted cs (\<lambda>_. interest_none)"
    using reactor_calls_effect [OF r(1) assms(2), of cs] unfolding r(2) by blast
  have "registered_interest fd r' = wanted cs (\<lambda>_. interest_none) fd" for fd
    using fun_cong [OF r'(3), of fd] by simp
  with r'(1,2) show ?thesis by (auto simp: reactor_ok_def Let_def)
qed

theorem reactor_watches_witness:
  "\<exists>r r'. create_reactor calm = Inr r \<and>
     reactor_calls calm [Watch 5 interest_read, Rewatch 5 interest_write, Watch 6 interest_read, Forget 6] r =
       (Inr (), r') \<and> (5, Evfilt_write) \<in> set (kernel r') \<and> (5, Evfilt_read) \<notin> set (kernel r') \<and>
     (6, Evfilt_read) \<notin> set (kernel r')"
proof -
  obtain r where r: "create_reactor calm = Inr r" by (simp add: create_reactor_def)
  from reactor_watches [OF r, of calm "[Watch 5 interest_read, Rewatch 5 interest_write, Watch 6 interest_read, Forget 6]"]
  obtain r' where r': "reactor_calls calm [Watch 5 interest_read, Rewatch 5 interest_write,
        Watch 6 interest_read, Forget 6] r = (Inr (), r')"
    and all: "\<And>fd. let i = wanted [Watch 5 interest_read, Rewatch 5 interest_write, Watch 6 interest_read,
        Forget 6] (\<lambda>_. interest_none) fd in
      ((fd, Evfilt_read) \<in> set (kernel r') \<longleftrightarrow> has_interest i interest_read) \<and>
      ((fd, Evfilt_write) \<in> set (kernel r') \<longleftrightarrow> has_interest i interest_write)"
    by auto
  show ?thesis
    using r r' all [of 5] all [of 6] by (intro exI [of _ r] exI [of _ r'] conjI) (simp_all add: Let_def)
qed

text \<open>
  C39: A wait reports each ready descriptor once. Where the kernel returns at most as many events as
  it was given room for, the reported slots fit into the caller's array, there is one slot for each
  descriptor with an event, in the order of the first event, and its flags are exactly those of the
  events of that descriptor; wake-ups are not reported.
\<close>

theorem reactor_wait_coalesces:
  assumes "reactor_wait kq n timeout = Inr out" and "n > 0"
    and "\<And>t events. wait_events (kq t n) = Inr events \<Longrightarrow> length events \<le> n"
  shows "\<exists>events. wait_events (kq (map_option timeout_value timeout) n) = Inr events \<and>
    length out \<le> n \<and> map fired_fd out = rev (remdups (rev (map kev_ident (socket_events events)))) \<and>
    list_all (slot_reports events) out"
proof -
  obtain events where ev: "wait_events (kq (map_option timeout_value timeout) n) = Inr events"
    "out = foldl collect_event [] events"
    using wait_result [OF assms(1,2)] .
  have fds: "map fired_fd out = rev (remdups (rev (map kev_ident (socket_events events))))"
    unfolding ev(2) by (rule collected_fds)
  have "length out \<le> length (socket_events events)"
    using arg_cong [OF fds, of length] length_remdups_leq [of "rev (map kev_ident (socket_events events))"]
    by simp
  also have "\<dots> \<le> length events" by (simp add: socket_events_def)
  finally have "length out \<le> n" using assms(3) [OF ev(1)] by simp
  then show ?thesis using ev fds collected_reports [of events] by (auto simp: list_all_iff)
qed

definition sample_kqueue :: kevent_wait where
  "sample_kqueue t n = [Wait_interrupted, Fired (take n
     [\<lparr>kev_ident = 7, kev_filter = Evfilt_read, kev_error = False, kev_eof = False\<rparr>,
      \<lparr>kev_ident = 1, kev_filter = Evfilt_user, kev_error = False, kev_eof = False\<rparr>,
      \<lparr>kev_ident = 7, kev_filter = Evfilt_write, kev_error = False, kev_eof = True\<rparr>])]"

theorem reactor_wait_coalesces_witness:
  "\<exists>out. reactor_wait sample_kqueue 64 (Some 100) = Inr out \<and> map fired_fd out = [7] \<and> length out \<le> 64"
proof -
  let ?out = "[\<lparr>fired_fd = 7, fired_ready = (interest_none OR interest_read) OR interest_write,
    fired_error = False, fired_hangup = True\<rparr>]"
  have w: "reactor_wait sample_kqueue 64 (Some 100) = Inr ?out"
    by (simp add: reactor_wait_def sample_kqueue_def bindE_def collect_event_def fire_def)
  have "length events \<le> 64" if "wait_events (sample_kqueue t 64) = Inr events" for t events
    using that by (auto simp: sample_kqueue_def)
  from reactor_wait_coalesces [OF w _ this] show ?thesis using w by auto
qed

end
