(* ===== verification/Socket.thy ===== *)
theory Socket
  imports Files Charconv
begin

text \<open>
  The socket class of \<^verbatim>\<open>src/net/socket.cpp\<close>. A socket is its descriptor and what the kernel does
  with it: the outcomes of the coming \<^verbatim>\<open>recv\<close> and \<^verbatim>\<open>send\<close> calls, and the bytes that were
  transferred so far. The functions that open descriptors also take the list of the descriptors
  that are open, which the kernel never hands out again.
\<close>

section \<open>The kernel\<close>

text \<open>
  A call of \<^verbatim>\<open>recv\<close> gets bytes (none: the peer has closed), \<^verbatim>\<open>EINTR\<close>, \<^verbatim>\<open>EAGAIN\<close> or another error. When
  the outcomes are used up nothing has arrived. Bytes that do not fit the buffer stay.
\<close>

datatype recv_outcome = Recv_bytes string | Recv_interrupted | Recv_again | Recv_failed

text \<open>A call of \<^verbatim>\<open>send\<close> takes a number of bytes; when the outcomes are used up it takes all.\<close>

datatype send_outcome = Send_bytes nat | Send_interrupted | Send_again | Send_failed

record net_socket =
  descriptor :: int
  nonblocking :: bool
  shut_down :: bool
  inbox :: "recv_outcome list"
  outbox :: "send_outcome list"
  received :: string
  sent :: string

text \<open>
  The descriptor for which \<open>d\<close> is the choice of the kernel: one that is not open.
\<close>

definition fresh_fd :: "int list \<Rightarrow> int \<Rightarrow> int" where
  "fresh_fd fds d = (let d' = max 0 d in if d' \<in> set fds then fold max fds d' + 1 else d')"

text \<open>A newly opened socket: nothing has been transferred and no flag is set.\<close>

definition open_socket :: "int list \<Rightarrow> net_socket \<Rightarrow> net_socket" where
  "open_socket fds s = s\<lparr>descriptor := fresh_fd fds (descriptor s), nonblocking := False, shut_down := False,
     received := [], sent := []\<rparr>"

section \<open>Construction\<close>

datatype connect_outcome = Connect_ok | Connect_interrupted | Connect_isconn | Connect_failed

text \<open>
  An address with the outcomes of the calls on it: the descriptor \<^verbatim>\<open>socket\<close> returns, the options,
  \<^verbatim>\<open>connect\<close>, \<^verbatim>\<open>bind\<close> and \<^verbatim>\<open>listen\<close>. The socket is what the kernel attaches to the descriptor.
\<close>

record address =
  addr_socket :: "net_socket option"
  addr_nosigpipe :: bool
  addr_connect :: "connect_outcome list"
  addr_reuse :: bool
  addr_bind :: bool
  addr_listen :: bool

text \<open>\<^verbatim>\<open>getaddrinfo\<close>: node, service and the passive flag give an error text or addresses.\<close>

type_synonym resolver = "string option \<Rightarrow> string \<Rightarrow> bool \<Rightarrow> string + address list"

definition address_info :: "resolver \<Rightarrow> string \<Rightarrow> string \<Rightarrow> bool \<Rightarrow> address list result" where
  "address_info resolve host service passive =
     (case resolve (if host = [] then None else Some host) service passive of
        Inl status \<Rightarrow> Inl (Runtime_error (''getaddrinfo: '' @ status))
      | Inr addresses \<Rightarrow> Inr addresses)"

definition configure_no_sigpipe :: "bool \<Rightarrow> unit result" where
  "configure_no_sigpipe call =
     (if call then Inr () else Inl (System_error ''setsockopt(SO_NOSIGPIPE)''))"

text \<open>A descriptor is opened, and closed again when the option cannot be set.\<close>

definition create_descriptor :: "address \<Rightarrow> int list \<Rightarrow> net_socket option result \<times> int list" where
  "create_descriptor a fds =
     (case addr_socket a of
        None \<Rightarrow> (Inr None, fds)
      | Some s \<Rightarrow>
          let s' = open_socket fds s; d = descriptor s' in
          (case configure_no_sigpipe (addr_nosigpipe a) of
             Inl x \<Rightarrow> (Inl x, remove1 d (d # fds))
           | Inr _ \<Rightarrow> (Inr (Some s'), d # fds)))"

fun connect_calls :: "connect_outcome list \<Rightarrow> bool" where
  "connect_calls [] = True"
| "connect_calls (Connect_ok # later) = True"
| "connect_calls (Connect_interrupted # later) = connect_calls later"
| "connect_calls (Connect_isconn # later) = True"
| "connect_calls (Connect_failed # later) = False"

fun connect_addresses :: "address list \<Rightarrow> int list \<Rightarrow> net_socket result \<times> int list" where
  "connect_addresses [] fds = (Inl (System_error ''connect''), fds)"
| "connect_addresses (a # addresses) fds =
     (case create_descriptor a fds of
        (Inl x, fds') \<Rightarrow> (Inl x, fds')
      | (Inr None, fds') \<Rightarrow> connect_addresses addresses fds'
      | (Inr (Some s), fds') \<Rightarrow>
          if connect_calls (addr_connect a) then (Inr s, fds')
          else connect_addresses addresses (remove1 (descriptor s) fds'))"

definition socket_connect :: "resolver \<Rightarrow> string \<Rightarrow> u16 \<Rightarrow> int list \<Rightarrow> net_socket result \<times> int list" where
  "socket_connect resolve host port fds =
     (case address_info resolve host (show_nat (unat port)) False of
        Inl x \<Rightarrow> (Inl x, fds)
      | Inr addresses \<Rightarrow> connect_addresses addresses fds)"

fun listen_addresses :: "address list \<Rightarrow> int list \<Rightarrow> net_socket result \<times> int list" where
  "listen_addresses [] fds = (Inl (System_error ''bind/listen''), fds)"
| "listen_addresses (a # addresses) fds =
     (case create_descriptor a fds of
        (Inl x, fds') \<Rightarrow> (Inl x, fds')
      | (Inr None, fds') \<Rightarrow> listen_addresses addresses fds'
      | (Inr (Some s), fds') \<Rightarrow>
          if \<not> addr_reuse a then listen_addresses addresses (remove1 (descriptor s) fds')
          else if \<not> addr_bind a \<or> \<not> addr_listen a
          then listen_addresses addresses (remove1 (descriptor s) fds')
          else (Inr s, fds'))"

definition socket_listen ::
    "resolver \<Rightarrow> string \<Rightarrow> u16 \<Rightarrow> int \<Rightarrow> int list \<Rightarrow> net_socket result \<times> int list" where
  "socket_listen resolve host port backlog fds =
     (if backlog \<le> 0 then (Inl (Invalid_argument ''socket backlog must be positive''), fds)
      else case address_info resolve host (show_nat (unat port)) True of
        Inl x \<Rightarrow> (Inl x, fds)
      | Inr addresses \<Rightarrow> listen_addresses addresses fds)"

section \<open>Accepting\<close>

text \<open>The outcome of one \<^verbatim>\<open>accept\<close>, with that of setting the option on the new descriptor.\<close>

datatype accept_outcome =
    Accepted net_socket bool
  | Accept_interrupted
  | Accept_again
  | Accept_failed

text \<open>
  \<^verbatim>\<open>try_accept\<close>; the outcomes that remain are returned. Without a further outcome there is no
  connection to accept.
\<close>

fun try_accept ::
    "accept_outcome list \<Rightarrow> int list \<Rightarrow> net_socket option result \<times> accept_outcome list \<times> int list" where
  "try_accept [] fds = (Inr None, [], fds)"
| "try_accept (Accepted s call # later) fds =
     (let s' = open_socket fds s; d = descriptor s' in
      case configure_no_sigpipe call of
        Inl x \<Rightarrow> (Inl x, later, remove1 d (d # fds))
      | Inr _ \<Rightarrow> (Inr (Some s'), later, d # fds))"
| "try_accept (Accept_interrupted # later) fds = try_accept later fds"
| "try_accept (Accept_again # later) fds = (Inr None, later, fds)"
| "try_accept (Accept_failed # later) fds = (Inl (System_error ''accept''), later, fds)"

text \<open>
  \<^verbatim>\<open>accept\<close> treats \<^verbatim>\<open>EAGAIN\<close> as an error. Without a further outcome the call blocks: \<open>None\<close>.
\<close>

fun socket_accept ::
    "accept_outcome list \<Rightarrow> int list \<Rightarrow> (net_socket result \<times> accept_outcome list \<times> int list) option" where
  "socket_accept [] fds = None"
| "socket_accept (Accepted s call # later) fds =
     (let s' = open_socket fds s; d = descriptor s' in
      case configure_no_sigpipe call of
        Inl x \<Rightarrow> Some (Inl x, later, remove1 d (d # fds))
      | Inr _ \<Rightarrow> Some (Inr s', later, d # fds))"
| "socket_accept (Accept_interrupted # later) fds = socket_accept later fds"
| "socket_accept (Accept_again # later) fds = Some (Inl (System_error ''accept''), later, fds)"
| "socket_accept (Accept_failed # later) fds = Some (Inl (System_error ''accept''), later, fds)"

section \<open>Transfer\<close>

datatype io_status = Io_ok | Io_would_block | Io_closed

definition ssize_max :: nat where
  "ssize_max = 2 ^ 63 - 1"

text \<open>The status and the bytes that \<^verbatim>\<open>try_receive\<close> has put into a buffer of \<open>n\<close> bytes.\<close>

fun recv_calls :: "nat \<Rightarrow> recv_outcome list \<Rightarrow> (io_status \<times> string) result \<times> recv_outcome list" where
  "recv_calls n [] = (Inr (Io_would_block, []), [])"
| "recv_calls n (Recv_bytes bytes # later) =
     (if bytes = [] then (Inr (Io_closed, []), later)
      else (Inr (Io_ok, take n bytes), if length bytes \<le> n then later else Recv_bytes (drop n bytes) # later))"
| "recv_calls n (Recv_interrupted # later) = recv_calls n later"
| "recv_calls n (Recv_again # later) = (Inr (Io_would_block, []), later)"
| "recv_calls n (Recv_failed # later) = (Inl (System_error ''recv''), later)"

definition try_receive :: "nat \<Rightarrow> net_socket \<Rightarrow> (io_status \<times> string) result \<times> net_socket" where
  "try_receive n s =
     (if n = 0 then (Inr (Io_ok, []), s)
      else if n > ssize_max then (Inl (Length_error ''receive buffer is too large''), s)
      else case recv_calls n (inbox s) of
        (Inl x, later) \<Rightarrow> (Inl x, s\<lparr>inbox := later\<rparr>)
      | (Inr (st, bytes), later) \<Rightarrow>
          (Inr (st, bytes), s\<lparr>inbox := later, received := received s @ bytes\<rparr>))"

definition socket_receive :: "nat \<Rightarrow> net_socket \<Rightarrow> string result \<times> net_socket" where
  "socket_receive n s =
     (case try_receive n s of
        (Inl x, s') \<Rightarrow> (Inl x, s')
      | (Inr (st, bytes), s') \<Rightarrow>
          if st = Io_ok \<or> st = Io_closed then (Inr bytes, s') else (Inl (System_error ''recv''), s'))"

fun send_calls :: "nat \<Rightarrow> send_outcome list \<Rightarrow> (io_status \<times> nat) result \<times> send_outcome list" where
  "send_calls chunk [] = (Inr (Io_ok, chunk), [])"
| "send_calls chunk (Send_bytes n # later) =
     (if n = 0 then (Inr (Io_closed, 0), later) else (Inr (Io_ok, min n chunk), later))"
| "send_calls chunk (Send_interrupted # later) = send_calls chunk later"
| "send_calls chunk (Send_again # later) = (Inr (Io_would_block, 0), later)"
| "send_calls chunk (Send_failed # later) = (Inl (System_error ''send''), later)"

definition try_send :: "string \<Rightarrow> net_socket \<Rightarrow> (io_status \<times> nat) result \<times> net_socket" where
  "try_send bytes s =
     (if bytes = [] then (Inr (Io_ok, 0), s)
      else let chunk = min (length bytes) ssize_max in
        case send_calls chunk (outbox s) of
          (Inl x, later) \<Rightarrow> (Inl x, s\<lparr>outbox := later\<rparr>)
        | (Inr (st, n), later) \<Rightarrow>
            (Inr (st, n), s\<lparr>outbox := later, sent := sent s @ take n bytes\<rparr>))"

text \<open>\<^verbatim>\<open>send_all\<close>: the first argument is what is still to be sent.\<close>

function send_all :: "string \<Rightarrow> net_socket \<Rightarrow> unit result \<times> net_socket" where
  "send_all bytes s =
     (if bytes = [] then (Inr (), s)
      else case try_send bytes s of
        (Inl x, s') \<Rightarrow> (Inl x, s')
      | (Inr (st, n), s') \<Rightarrow>
          if st = Io_ok \<and> n > 0 then send_all (drop n bytes) s'
          else (Inl (System_error ''send''), s'))"
  by pat_completeness auto
termination
  by (relation "measure (\<lambda>(bytes, s). length bytes)") auto

declare send_all.simps [simp del]

section \<open>Other operations\<close>

definition set_nonblocking :: "os \<Rightarrow> bool \<Rightarrow> net_socket \<Rightarrow> unit result \<times> net_socket" where
  "set_nonblocking os enabled s =
     (if \<not> sys_ok os ''fcntl(F_GETFL)'' then (Inl (System_error ''fcntl(F_GETFL)''), s)
      else if \<not> sys_ok os ''fcntl(F_SETFL)'' then (Inl (System_error ''fcntl(F_SETFL)''), s)
      else (Inr (), s\<lparr>nonblocking := enabled\<rparr>))"

definition socket_shutdown :: "net_socket \<Rightarrow> net_socket" where
  "socket_shutdown s = (if descriptor s \<ge> 0 then s\<lparr>shut_down := True\<rparr> else s)"

text \<open>The family and the port, two bytes in network order, that \<^verbatim>\<open>getsockname\<close> stores.\<close>

datatype sockname = Inet u8 u8 | Inet6 u8 u8 | Other_family

definition ntohs :: "u8 \<Rightarrow> u8 \<Rightarrow> u16" where
  "ntohs high low = push_bit 8 (ucast high) OR ucast low"

definition local_port :: "os \<Rightarrow> sockname \<Rightarrow> u16 result" where
  "local_port os name =
     (if \<not> sys_ok os ''getsockname'' then Inl (System_error ''getsockname'')
      else case name of
        Inet high low \<Rightarrow> Inr (ntohs high low)
      | Inet6 high low \<Rightarrow> Inr (ntohs high low)
      | Other_family \<Rightarrow> Inl (Runtime_error ''socket has an unsupported address family''))"

definition native_handle :: "net_socket \<Rightarrow> int" where
  "native_handle s = descriptor s"

definition socket_valid :: "net_socket \<Rightarrow> bool" where
  "socket_valid s = (descriptor s \<ge> 0)"

definition socket_close :: "net_socket \<Rightarrow> int list \<Rightarrow> net_socket \<times> int list" where
  "socket_close s fds =
     (if descriptor s \<ge> 0 then (s\<lparr>descriptor := -1\<rparr>, remove1 (descriptor s) fds) else (s, fds))"

text \<open>Moving: the target and the source after it; the target's own descriptor is closed.\<close>

definition socket_move :: "net_socket \<Rightarrow> net_socket \<times> net_socket" where
  "socket_move other = (other, other\<lparr>descriptor := -1\<rparr>)"

definition socket_assign :: "net_socket \<Rightarrow> net_socket \<Rightarrow> int list \<Rightarrow> net_socket \<times> net_socket \<times> int list" where
  "socket_assign s other fds =
     (case socket_close s fds of (_, fds') \<Rightarrow> (other, other\<lparr>descriptor := -1\<rparr>, fds'))"

section \<open>Laws\<close>

lemma fold_max_ge: "(d :: int) \<le> fold max fds d" "x \<in> set fds \<Longrightarrow> x \<le> fold max fds d"
  by (induction fds arbitrary: d) (auto, (meson max.boundedE)+)

lemma fresh_fd_new: "fresh_fd fds d \<notin> set fds \<and> 0 \<le> fresh_fd fds d"
  using fold_max_ge(1) [of "max 0 d" fds] fold_max_ge(2) [of "fold max fds (max 0 d) + 1" fds "max 0 d"]
  by (auto simp: fresh_fd_def Let_def)

text \<open>
  A function that opens descriptors leaves exactly one more open, the new one of the socket it
  returns, or none when it throws.
\<close>

definition opens_one :: "int list \<Rightarrow> net_socket result \<times> int list \<Rightarrow> bool" where
  "opens_one fds r =
     (case r of
        (Inl x, fds') \<Rightarrow> fds' = fds
      | (Inr s, fds') \<Rightarrow> fds' = descriptor s # fds \<and> descriptor s \<notin> set fds \<and> socket_valid s)"

lemma create_descriptor_cases:
  obtains "create_descriptor a fds = (Inr None, fds)"
  | x where "create_descriptor a fds = (Inl x, fds)"
  | s where "create_descriptor a fds = (Inr (Some s), descriptor s # fds)"
      and "descriptor s \<notin> set fds" and "socket_valid s"
proof (cases "addr_socket a")
  case (Some s)
  show thesis
  proof (cases "addr_nosigpipe a")
    case True
    show thesis
    proof (rule that(3))
      show "create_descriptor a fds = (Inr (Some (open_socket fds s)), descriptor (open_socket fds s) # fds)"
        using Some True by (simp add: create_descriptor_def configure_no_sigpipe_def Let_def)
    qed (simp_all add: fresh_fd_new socket_valid_def open_socket_def)
  next
    case False
    then show thesis
      using Some that(2) by (simp add: create_descriptor_def configure_no_sigpipe_def Let_def)
  qed
qed (use that(1) in \<open>simp add: create_descriptor_def\<close>)

lemma connect_addresses_opens: "opens_one fds (connect_addresses addresses fds)"
proof (induction addresses)
  case (Cons a addresses)
  then show ?case
    by (cases rule: create_descriptor_cases [of a fds]) (simp_all add: opens_one_def)
qed (simp add: opens_one_def)

lemma listen_addresses_opens: "opens_one fds (listen_addresses addresses fds)"
proof (induction addresses)
  case (Cons a addresses)
  then show ?case
    by (cases rule: create_descriptor_cases [of a fds]) (simp_all add: opens_one_def)
qed (simp add: opens_one_def)

lemma try_accept_opens:
  "case try_accept outcomes fds of
     (Inr (Some s), _, fds') \<Rightarrow> opens_one fds (Inr s, fds')
   | (_, _, fds') \<Rightarrow> fds' = fds"
  by (induction outcomes fds rule: try_accept.induct)
    (auto simp: opens_one_def configure_no_sigpipe_def Let_def fresh_fd_new socket_valid_def open_socket_def)

lemma try_accept_new:
  "try_accept outcomes fds = (Inr (Some s), later, fds') \<Longrightarrow>
   received s = [] \<and> sent s = [] \<and> descriptor s \<notin> set fds"
  by (induction outcomes fds rule: try_accept.induct)
    (auto simp: configure_no_sigpipe_def Let_def open_socket_def fresh_fd_new split: if_splits)

lemma try_accept_suffix:
  "try_accept outcomes fds = (r, later, fds') \<Longrightarrow> length later \<le> length outcomes"
  by (induction outcomes fds rule: try_accept.induct)
    (auto simp: configure_no_sigpipe_def Let_def split: if_splits)

lemma try_accept_shrinks:
  "try_accept outcomes fds = (Inr (Some s), later, fds') \<Longrightarrow> length later < length outcomes"
  by (induction outcomes fds rule: try_accept.induct)
    (auto simp: configure_no_sigpipe_def Let_def split: if_splits)

text \<open>How much a \<^verbatim>\<open>recv\<close> leaves to be received.\<close>

fun recv_work :: "recv_outcome list \<Rightarrow> nat" where
  "recv_work [] = 0"
| "recv_work (Recv_bytes bytes # later) = Suc (length bytes) + recv_work later"
| "recv_work (_ # later) = Suc (recv_work later)"

lemma recv_calls_work:
  "recv_calls n outcomes = (r, later) \<Longrightarrow>
   recv_work later + (case r of Inr (Io_ok, bytes) \<Rightarrow> length bytes | _ \<Rightarrow> 0) \<le> recv_work outcomes"
  by (induction n outcomes rule: recv_calls.induct) (auto split: if_splits)

lemma recv_calls_ok:
  "recv_calls n outcomes = (Inr (Io_ok, bytes), later) \<Longrightarrow> n > 0 \<Longrightarrow>
   bytes \<noteq> [] \<and> length bytes \<le> n"
  by (induction n outcomes rule: recv_calls.induct) (auto split: if_splits)

lemma recv_calls_other:
  "recv_calls n outcomes = (Inr (st, bytes), later) \<Longrightarrow> st \<noteq> Io_ok \<Longrightarrow> bytes = []"
  by (induction n outcomes rule: recv_calls.induct) (auto split: if_splits)

lemma send_calls_ok:
  "send_calls chunk outcomes = (Inr (st, n), later) \<Longrightarrow> n \<le> chunk \<and> (st = Io_ok \<and> chunk > 0 \<longleftrightarrow> n > 0)"
  by (induction chunk outcomes rule: send_calls.induct) (auto split: if_splits)

lemma try_send_effect:
  assumes "try_send bytes s = (Inr (st, n), s')"
  shows "n \<le> length bytes \<and> sent s' = sent s @ take n bytes \<and> received s' = received s \<and>
    inbox s' = inbox s \<and> descriptor s' = descriptor s \<and> (st \<noteq> Io_ok \<longrightarrow> n = 0)"
  using assms send_calls_ok [of "min (length bytes) ssize_max" "outbox s" st n]
  by (auto simp: try_send_def Let_def split: if_splits prod.splits sum.splits)

lemma send_all_effect:
  "send_all bytes s = (r, s') \<Longrightarrow>
   \<exists>n. sent s' = sent s @ take n bytes \<and> (r = Inr () \<longrightarrow> take n bytes = bytes) \<and> inbox s' = inbox s"
proof (induction bytes s arbitrary: r s' rule: send_all.induct)
  case (1 bytes s)
  show ?case
  proof (cases "bytes = []")
    case True
    then show ?thesis using 1(2) by (simp add: send_all.simps)
  next
    case False
    obtain q s1 where t: "try_send bytes s = (q, s1)" by fastforce
    show ?thesis
    proof (cases q)
      case (Inl x)
      then have "s' = s1" "r = Inl x" using 1(2) False t by (simp_all add: send_all.simps [of bytes])
      moreover have "sent s1 = sent s \<and> inbox s1 = inbox s"
        using t Inl False by (auto simp: try_send_def Let_def split: prod.splits sum.splits)
      ultimately show ?thesis by (intro exI [of _ 0]) simp
    next
      case (Inr p)
      obtain st n where p: "p = (st, n)" by fastforce
      have e: "n \<le> length bytes" "sent s1 = sent s @ take n bytes" "inbox s1 = inbox s"
        using try_send_effect [of bytes s st n s1] t Inr p by simp_all
      show ?thesis
      proof (cases "st = Io_ok \<and> n > 0")
        case True
        then have "send_all (drop n bytes) s1 = (r, s')"
          using 1(2) False t Inr p by (simp add: send_all.simps [of bytes])
        from 1(1) [OF False t [symmetric] Inr p [symmetric] True this] obtain k where
          k: "sent s' = sent s1 @ take k (drop n bytes)" "inbox s' = inbox s1"
          "r = Inr () \<longrightarrow> take k (drop n bytes) = drop n bytes" by blast
        have "take (n + k) bytes = take n bytes @ take k (drop n bytes)" by (rule take_add)
        then show ?thesis using e k by (intro exI [of _ "n + k"]) auto
      next
        case no: False
        then have "s' = s1" "r \<noteq> Inr ()"
          using 1(2) False t Inr p by (auto simp: send_all.simps [of bytes])
        then show ?thesis using e by (intro exI [of _ n]) simp
      qed
    qed
  qed
qed

section \<open>Properties of the sockets\<close>

text \<open>
  C40: No descriptor is leaked. Whatever the resolver returns and whichever system call fails,
  \<^verbatim>\<open>connect\<close> and \<^verbatim>\<open>listen\<close> either return a socket with a valid descriptor that is the only one newly
  open, or throw with exactly the same descriptors open as before; \<^verbatim>\<open>try_accept\<close> too, and it opens
  none when it reports that there is no connection.
\<close>

theorem descriptors_not_leaked:
  "opens_one fds (socket_connect resolve host port fds) \<and>
   opens_one fds (socket_listen resolve host port backlog fds) \<and>
   (case try_accept outcomes fds of
      (Inr (Some s), _, fds') \<Rightarrow> opens_one fds (Inr s, fds')
    | (_, _, fds') \<Rightarrow> fds' = fds)"
proof -
  have none: "opens_one fds (Inl x, fds)" for x by (simp add: opens_one_def)
  show ?thesis
    using none connect_addresses_opens listen_addresses_opens try_accept_opens [where fds = fds and outcomes = outcomes]
    by (auto simp: socket_connect_def socket_listen_def split: sum.split)
qed

end
