(* ===== verification/Server.thy ===== *)
theory Server
  imports Registry Protocol Thread_Pool Reactor Socket
begin

text \<open>
  The server of \<^verbatim>\<open>src/server/server.cpp\<close>. The event loop runs on one thread, the I/O thread; the
  workers of the pool run the commands and \<^verbatim>\<open>stop\<close> may be called from anywhere. The functions of
  the I/O thread are state transformers. What the other threads do meanwhile is a schedule: a list
  of bursts, one of which is played each time the I/O thread looks at something they share (the
  job queue, the list of completions, the stop flag). A command is executed in one step.

  A function that works on a \<^verbatim>\<open>Connection&\<close> takes its descriptor and looks it up; a reference to a
  connection that is gone is undefined behaviour.
\<close>

section \<open>Configuration and state\<close>

record server_config =
  cfg_host :: string
  cfg_port :: u16
  cfg_backlog :: int
  cfg_workers :: nat
  cfg_shards :: nat
  max_connections :: nat
  worker_queue_limit :: nat
  max_output_buffer_bytes :: nat
  active_expiry_hz :: int
  idle_timeout :: int
  cfg_parser_limits :: parser_limits
  persistence_enabled :: bool
  cfg_data_dir :: string
  cfg_fsync :: fsync_mode
  cfg_snapshot_interval :: int

definition default_config :: server_config where
  "default_config =
     \<lparr>cfg_host = ''127.0.0.1'', cfg_port = 6379, cfg_backlog = 128, cfg_workers = 0, cfg_shards = default_shard_count,
      max_connections = 10000, worker_queue_limit = 4096, max_output_buffer_bytes = 16 * 1024 * 1024,
      active_expiry_hz = 10, idle_timeout = 0, cfg_parser_limits = default_limits,
      persistence_enabled = False, cfg_data_dir = [], cfg_fsync = Fsync_everysec,
      cfg_snapshot_interval = 300\<rparr>"

record queued_command =
  q_sequence :: u64
  q_request :: resp_value

record connection =
  conn_id :: u64
  conn_socket :: net_socket
  conn_interest :: interest
  conn_output :: string
  conn_parser :: parser
  next_request_seq :: u64
  next_response_seq :: u64
  pending_responses :: "(u64 \<times> string) list"
  command_queue :: "queued_command list"
  strand_running :: bool
  inflight :: nat
  read_closed :: bool
  closing :: bool
  last_activity :: int

record completion =
  comp_conn :: u64
  comp_sequence :: u64
  comp_payload :: string
  comp_error :: bool

text \<open>A job of the pool: a command to execute, and then the completion to publish.\<close>

datatype job = Execute u64 u64 resp_value | Publish completion

text \<open>
  What another thread may do: a worker takes a job or goes on with it, the thread of the engine
  syncs the log, or \<^verbatim>\<open>stop\<close> is called.
\<close>

datatype thread_step = Wake nat | Work nat | Sync_log | Call_stop

text \<open>A command that was executed, for the statements about the server.\<close>

record execution =
  ex_conn :: u64
  ex_request :: resp_value
  ex_env :: command_env
  ex_payload :: string

text \<open>
  The members of \<^verbatim>\<open>Server\<close>, followed by what surrounds them: the outcomes of the coming \<^verbatim>\<open>accept\<close>
  calls, the random generator of the store, the schedule, the number of questions that were put to
  the environment, and the commands executed so far, which no function reads.
\<close>

record server =
  srv_config :: server_config
  srv_listener :: net_socket
  srv_bound_port :: u16
  srv_reactor :: reactor
  srv_store :: store
  srv_stats :: stats
  srv_persistence :: "engine option"
  srv_workers :: "job thread_pool"
  connections :: "(int \<times> connection) list"
  completions :: "completion list"
  srv_stopping :: bool
  next_connection_id :: u64
  next_expiry_tick :: int
  srv_accepts :: "accept_outcome list"
  srv_generator :: nat
  srv_schedule :: "thread_step list list"
  srv_tick :: nat
  srv_history :: "execution list"

text \<open>
  The environment answers the question number \<open>n\<close>: with what a command asks for, with the steady
  clock, or with the outcome of system calls.
\<close>

record server_env =
  version_text :: string
  command_at :: "nat \<Rightarrow> command_env"
  steady_at :: "nat \<Rightarrow> int"
  os_at :: "nat \<Rightarrow> os"
  draw :: "nat distribution"

section \<open>State transformers that may throw\<close>

text \<open>
  A function throws; or an exception leaves a thread of the pool, which ends the process; or a
  reference to a connection is used that no longer exists.
\<close>

datatype failure = Thrown exn | Terminated exn | Dangling int

type_synonym 'a on_server = "server \<Rightarrow> (failure + 'a) \<times> server"

definition returnS :: "'a \<Rightarrow> 'a on_server" where
  "returnS a s = (Inr a, s)"

definition throwS :: "exn \<Rightarrow> 'a on_server" where
  "throwS x s = (Inl (Thrown x), s)"

definition bindS :: "'a on_server \<Rightarrow> ('a \<Rightarrow> 'b on_server) \<Rightarrow> 'b on_server" where
  "bindS m f s = (case m s of (Inl x, s') \<Rightarrow> (Inl x, s') | (Inr a, s') \<Rightarrow> f a s')"

definition thenS :: "unit on_server \<Rightarrow> 'b on_server \<Rightarrow> 'b on_server" where
  "thenS m n = bindS m (\<lambda>_. n)"

definition modifyS :: "(server \<Rightarrow> server) \<Rightarrow> unit on_server" where
  "modifyS f s = (Inr (), f s)"

definition getS :: "(server \<Rightarrow> 'a) \<Rightarrow> 'a on_server" where
  "getS f s = (Inr (f s), s)"

text \<open>A question to the environment.\<close>

definition askS :: "(nat \<Rightarrow> 'a) \<Rightarrow> 'a on_server" where
  "askS answer s = (Inr (answer (srv_tick s)), s\<lparr>srv_tick := srv_tick s + 1\<rparr>)"

definition put_connection :: "int \<Rightarrow> connection \<Rightarrow> server \<Rightarrow> server" where
  "put_connection fd c s = s\<lparr>connections := um_store fd c (connections s)\<rparr>"

definition with_connection :: "int \<Rightarrow> (connection \<Rightarrow> 'a on_server) \<Rightarrow> 'a on_server" where
  "with_connection fd f s =
     (case um_find fd (connections s) of None \<Rightarrow> (Inl (Dangling fd), s) | Some c \<Rightarrow> f c s)"

definition on_connection :: "int \<Rightarrow> (connection \<Rightarrow> connection) \<Rightarrow> unit on_server" where
  "on_connection fd g = with_connection fd (\<lambda>c. modifyS (put_connection fd (g c)))"

definition on_stats :: "(stats \<Rightarrow> stats) \<Rightarrow> unit on_server" where
  "on_stats f = modifyS (\<lambda>s. s\<lparr>srv_stats := f (srv_stats s)\<rparr>)"

definition on_reactor :: "(reactor \<Rightarrow> unit result \<times> reactor) \<Rightarrow> unit on_server" where
  "on_reactor f s =
     (case f (srv_reactor s) of
        (Inl x, k) \<Rightarrow> (Inl (Thrown x), s\<lparr>srv_reactor := k\<rparr>)
      | (Inr _, k) \<Rightarrow> (Inr (), s\<lparr>srv_reactor := k\<rparr>))"

section \<open>Helpers\<close>

definition is_command_request :: "resp_value \<Rightarrow> bool" where
  "is_command_request request =
     (case request of
        Array (Some items) \<Rightarrow>
          items \<noteq> [] \<and> list_all (\<lambda>item. case item of BulkString (Some _) \<Rightarrow> True | _ \<Rightarrow> False) items
      | _ \<Rightarrow> False)"

definition response_is_error :: "resp_value \<Rightarrow> bool" where
  "response_is_error v = (case v of Error _ \<Rightarrow> True | _ \<Rightarrow> False)"

text \<open>\<open>hardware\<close> is \<^verbatim>\<open>std::thread::hardware_concurrency()\<close>.\<close>

definition default_worker_count :: "nat \<Rightarrow> nat \<Rightarrow> nat" where
  "default_worker_count hardware configured =
     (if configured > 0 then configured else if hardware = 0 then 2 else hardware)"

definition protocol_error :: string where
  "protocol_error = (case encode (Error ''ERR Protocol error'') of Inl _ \<Rightarrow> [] | Inr out \<Rightarrow> out)"

definition worker_count :: "server \<Rightarrow> nat" where
  "worker_count s = thread_count (srv_workers s)"

section \<open>The other threads\<close>

text \<open>
  \<^verbatim>\<open>stop\<close>: the wake-up of the reactor, whose failure is ignored, changes nothing that is modelled.
\<close>

definition server_stop :: "server \<Rightarrow> server" where
  "server_stop s =
     (if srv_stopping s then s
      else s\<lparr>srv_stopping := True, srv_listener := socket_shutdown (srv_listener s)\<rparr>)"

text \<open>The first half of the job: the command, its encoded reply and the completion.\<close>

definition job_context :: "server_env \<Rightarrow> server \<Rightarrow> command_context" where
  "job_context E s =
     \<lparr>ctx_store = srv_store s, ctx_stats = Some (srv_stats s), ctx_persistence = srv_persistence s,
      ctx_version = version_text E, ctx_tcp_port = srv_bound_port s, ctx_worker_count = worker_count s\<rparr>"

definition execute_job :: "server_env \<Rightarrow> u64 \<Rightarrow> u64 \<Rightarrow> resp_value \<Rightarrow> completion on_server" where
  "execute_job E connection_id sequence request =
     bindS (askS (command_at E)) (\<lambda>X s.
       case execute new_registry request X (job_context E s) of
         (r, context') \<Rightarrow>
           let s' = s\<lparr>srv_store := ctx_store context', srv_persistence := ctx_persistence context'\<rparr> in
           (case bindE r (\<lambda>response. bindE (encode response) (\<lambda>payload. Inr (response, payload))) of
              Inl x \<Rightarrow> (Inl (Thrown x), s')
            | Inr (response, payload) \<Rightarrow>
                (Inr \<lparr>comp_conn = connection_id, comp_sequence = sequence, comp_payload = payload,
                      comp_error = response_is_error response\<rparr>,
                 s'\<lparr>srv_history := srv_history s' @
                   [\<lparr>ex_conn = connection_id, ex_request = request, ex_env = X, ex_payload = payload\<rparr>]\<rparr>)))"

text \<open>The second half. The wake-up of the reactor has no effect here either.\<close>

definition publish :: "completion \<Rightarrow> server \<Rightarrow> server" where
  "publish c s = s\<lparr>completions := completions s @ [c]\<rparr>"

definition set_worker :: "nat \<Rightarrow> job worker \<Rightarrow> server \<Rightarrow> server" where
  "set_worker i w s = s\<lparr>srv_workers := (srv_workers s)\<lparr>pool_workers := (pool_workers (srv_workers s))[i := w]\<rparr>\<rparr>"

text \<open>One step of another thread. Nothing catches an exception there.\<close>

definition uncaughtS :: "'a on_server \<Rightarrow> 'a on_server" where
  "uncaughtS m s = (case m s of (Inl (Thrown x), s') \<Rightarrow> (Inl (Terminated x), s') | r \<Rightarrow> r)"

fun thread_event :: "server_env \<Rightarrow> thread_step \<Rightarrow> unit on_server" where
  "thread_event E (Wake i) s =
     (if i < length (pool_workers (srv_workers s)) \<and> pool_workers (srv_workers s) ! i = Waiting then
        (case worker_wake (srv_workers s) of
           None \<Rightarrow> (Inr (), s)
         | Some (w, p) \<Rightarrow> (Inr (), set_worker i w (s\<lparr>srv_workers := p\<rparr>)))
      else (Inr (), s))"
| "thread_event E (Work i) s =
     (if i < length (pool_workers (srv_workers s)) then
        (case pool_workers (srv_workers s) ! i of
           Running (Execute cid seq request) \<Rightarrow>
             bindS (uncaughtS (execute_job E cid seq request)) (\<lambda>c. modifyS (set_worker i (Running (Publish c)))) s
         | Running (Publish c) \<Rightarrow> (Inr (), set_worker i Waiting (publish c s))
         | _ \<Rightarrow> (Inr (), s))
      else (Inr (), s))"
| "thread_event E Sync_log s =
     (case srv_persistence s of
        None \<Rightarrow> (Inr (), s)
      | Some e \<Rightarrow> (Inr (), s\<lparr>srv_tick := srv_tick s + 1,
          srv_persistence := Some (fsync_round (os_at E (srv_tick s)) e)\<rparr>))"
| "thread_event E Call_stop s = (Inr (), server_stop s)"

fun thread_events :: "server_env \<Rightarrow> thread_step list \<Rightarrow> unit on_server" where
  "thread_events E [] = returnS ()"
| "thread_events E (ev # evs) = thenS (thread_event E ev) (thread_events E evs)"

definition interleave :: "server_env \<Rightarrow> unit on_server" where
  "interleave E s =
     (case srv_schedule s of
        [] \<Rightarrow> (Inr (), s)
      | evs # later \<Rightarrow> thread_events E evs (s\<lparr>srv_schedule := later\<rparr>))"

section \<open>Reasoning about state transformers\<close>

text \<open>
  The weakest precondition: \<open>Q\<close> holds of the result and the state when \<open>m\<close> returns, \<open>X\<close> when it
  does not.
\<close>

definition wp :: "'a on_server \<Rightarrow> ('a \<Rightarrow> server \<Rightarrow> bool) \<Rightarrow> (failure \<Rightarrow> server \<Rightarrow> bool) \<Rightarrow> server \<Rightarrow> bool" where
  "wp m Q X s = (case m s of (Inl x, s') \<Rightarrow> X x s' | (Inr a, s') \<Rightarrow> Q a s')"

named_theorems wp_simps \<open>weakest preconditions of the combinators\<close>

lemma wp_return [wp_simps]: "wp (returnS a) Q X = Q a"
  by (simp add: fun_eq_iff wp_def returnS_def)

lemma wp_throw [wp_simps]: "wp (throwS x) Q X = X (Thrown x)"
  by (simp add: fun_eq_iff wp_def throwS_def)

lemma wp_uncaught [wp_simps]:
  "wp (uncaughtS m) Q X =
     wp m Q (\<lambda>x. case x of Thrown e \<Rightarrow> X (Terminated e) | Terminated e \<Rightarrow> X x | Dangling fd \<Rightarrow> X x)"
  by (auto simp: fun_eq_iff wp_def uncaughtS_def split: sum.split prod.split failure.split)

lemma wp_bind [wp_simps]: "wp (bindS m f) Q X = wp m (\<lambda>a. wp (f a) Q X) X"
  by (simp add: fun_eq_iff wp_def bindS_def split: sum.split prod.split)

lemma wp_then [wp_simps]: "wp (thenS m n) Q X = wp m (\<lambda>_. wp n Q X) X"
  by (simp add: thenS_def wp_bind)

lemma wp_modify [wp_simps]: "wp (modifyS g) Q X = (\<lambda>s. Q () (g s))"
  by (simp add: fun_eq_iff wp_def modifyS_def)

lemma wp_get [wp_simps]: "wp (getS h) Q X = (\<lambda>s. Q (h s) s)"
  by (simp add: fun_eq_iff wp_def getS_def)

lemma wp_ask [wp_simps]:
  "wp (askS answer) Q X = (\<lambda>s. Q (answer (srv_tick s)) (s\<lparr>srv_tick := srv_tick s + 1\<rparr>))"
  by (simp add: fun_eq_iff wp_def askS_def)

lemma wp_if [wp_simps]: "wp (if b then m else n) Q X = (if b then wp m Q X else wp n Q X)"
  by simp

lemma wp_with [wp_simps]:
  "wp (with_connection fd f) Q X =
     (\<lambda>s. case um_find fd (connections s) of None \<Rightarrow> X (Dangling fd) s | Some c \<Rightarrow> wp (f c) Q X s)"
  by (simp add: fun_eq_iff wp_def with_connection_def split: option.split)

lemma wp_on [wp_simps]:
  "wp (on_connection fd g) Q X =
     (\<lambda>s. case um_find fd (connections s) of
        None \<Rightarrow> X (Dangling fd) s
      | Some c \<Rightarrow> Q () (put_connection fd (g c) s))"
  by (simp add: on_connection_def wp_simps cong: option.case_cong)

lemma wp_stats [wp_simps]: "wp (on_stats f) Q X = (\<lambda>s. Q () (s\<lparr>srv_stats := f (srv_stats s)\<rparr>))"
  by (simp add: on_stats_def wp_simps)

lemma wp_mono:
  assumes "wp m Q X s" and "\<And>a s'. Q a s' \<Longrightarrow> Q' a s'" and "\<And>x s'. X x s' \<Longrightarrow> X' x s'"
  shows "wp m Q' X' s"
  using assms by (auto simp: wp_def split: sum.splits)

lemma wp_result:
  assumes "wp m Q X s"
  shows "m s = (Inr a, s') \<Longrightarrow> Q a s'" and "m s = (Inl x, s') \<Longrightarrow> X x s'"
  using assms by (simp_all add: wp_def)

text \<open>A loop that repeats a round while the round says so, with an invariant and a measure.\<close>

lemma wp_loop:
  fixes m :: "server \<Rightarrow> nat"
  assumes eq: "\<And>s. loop s = (case round s of
      (Inl x, s') \<Rightarrow> (Inl x, s') | (Inr b, s') \<Rightarrow> if b then loop s' else (Inr (), s'))"
    and step: "\<And>s. I s \<Longrightarrow> wp round (\<lambda>b s'. if b then I s' \<and> m s' < m s else Q () s') X s"
    and "I s"
  shows "wp loop Q X s"
  using assms(3)
proof (induction "m s" arbitrary: s rule: less_induct)
  case less
  obtain r s' where r: "round s = (r, s')" by fastforce
  have st: "wp round (\<lambda>b s'. if b then I s' \<and> m s' < m s else Q () s') X s" by (rule step [OF less(2)])
  show ?case
  proof (cases r)
    case (Inl x)
    then show ?thesis using st r eq [of s] by (simp add: wp_def)
  next
    case (Inr b)
    show ?thesis
    proof (cases b)
      case True
      then have "wp loop Q X s'" using st r Inr by (intro less(1)) (simp_all add: wp_def)
      then show ?thesis using r Inr True eq [of s] by (simp add: wp_def)
    next
      case False
      then show ?thesis using st r Inr eq [of s] by (simp add: wp_def)
    qed
  qed
qed

lemma put_connection_simps [simp]:
  "um_find fd' (connections (put_connection fd c s)) = (if fd' = fd then Some c else um_find fd' (connections s))"
  "put_connection fd c' (put_connection fd c s) = put_connection fd c' s"
  "srv_config (put_connection fd c s) = srv_config s" "srv_listener (put_connection fd c s) = srv_listener s"
  "srv_bound_port (put_connection fd c s) = srv_bound_port s" "srv_reactor (put_connection fd c s) = srv_reactor s"
  "srv_store (put_connection fd c s) = srv_store s" "srv_stats (put_connection fd c s) = srv_stats s"
  "srv_persistence (put_connection fd c s) = srv_persistence s"
  "srv_workers (put_connection fd c s) = srv_workers s" "completions (put_connection fd c s) = completions s"
  "srv_stopping (put_connection fd c s) = srv_stopping s"
  "next_connection_id (put_connection fd c s) = next_connection_id s"
  "next_expiry_tick (put_connection fd c s) = next_expiry_tick s"
  "srv_accepts (put_connection fd c s) = srv_accepts s" "srv_generator (put_connection fd c s) = srv_generator s"
  "srv_schedule (put_connection fd c s) = srv_schedule s" "srv_tick (put_connection fd c s) = srv_tick s"
  "srv_history (put_connection fd c s) = srv_history s"
  by (simp_all add: put_connection_def um_find_store)

text \<open>Updates of other fields move inside.\<close>

lemma put_connection_commute [simp]:
  "(put_connection fd c s)\<lparr>srv_stats := st\<rparr> = put_connection fd c (s\<lparr>srv_stats := st\<rparr>)"
  "(put_connection fd c s)\<lparr>srv_tick := n\<rparr> = put_connection fd c (s\<lparr>srv_tick := n\<rparr>)"
  "(put_connection fd c s)\<lparr>srv_workers := p\<rparr> = put_connection fd c (s\<lparr>srv_workers := p\<rparr>)"
  "(put_connection fd c s)\<lparr>completions := cs\<rparr> = put_connection fd c (s\<lparr>completions := cs\<rparr>)"
  "(put_connection fd c s)\<lparr>srv_reactor := k\<rparr> = put_connection fd c (s\<lparr>srv_reactor := k\<rparr>)"
  by (simp_all add: put_connection_def)

section \<open>What the other threads leave alone\<close>

text \<open>The jobs and completions that are under way.\<close>

definition job_work :: "server \<Rightarrow> nat" where
  "job_work s = length (jobs (srv_workers s)) + length (running_jobs (pool_workers (srv_workers s))) +
     length (completions s)"

definition background :: "server \<Rightarrow> server \<Rightarrow> bool" where
  "background s s' \<longleftrightarrow>
     connections s' = connections s \<and> srv_config s' = srv_config s \<and> srv_reactor s' = srv_reactor s \<and>
     srv_stats s' = srv_stats s \<and> next_connection_id s' = next_connection_id s \<and>
     next_expiry_tick s' = next_expiry_tick s \<and> srv_accepts s' = srv_accepts s \<and>
     srv_generator s' = srv_generator s \<and> descriptor (srv_listener s') = descriptor (srv_listener s) \<and>
     job_work s' \<le> job_work s"

lemma background_refl [simp]: "background s s"
  by (simp add: background_def)

lemma background_trans: "background s s' \<Longrightarrow> background s' s'' \<Longrightarrow> background s s''"
  by (simp add: background_def)

lemma execute_job_wp:
  assumes "\<And>ctx response payload.
      execute new_registry request (command_at E (srv_tick s)) (job_context E s) = (Inr response, ctx) \<Longrightarrow>
      encode response = Inr payload \<Longrightarrow>
      Q \<lparr>comp_conn = cid, comp_sequence = seq, comp_payload = payload, comp_error = response_is_error response\<rparr>
        (s\<lparr>srv_tick := srv_tick s + 1, srv_store := ctx_store ctx,
           srv_persistence := ctx_persistence ctx,
           srv_history := srv_history s @ [\<lparr>ex_conn = cid, ex_request = request,
             ex_env = command_at E (srv_tick s), ex_payload = payload\<rparr>]\<rparr>)"
    and "\<And>e s'. X (Thrown e) s'"
  shows "wp (execute_job E cid seq request) Q X s"
proof -
  have c: "job_context E (s\<lparr>srv_tick := n\<rparr>) = job_context E s" for n
    by (simp add: job_context_def worker_count_def)
  obtain r ctx where e: "execute new_registry request (command_at E (srv_tick s)) (job_context E s) = (r, ctx)"
    by fastforce
  show ?thesis
  proof (cases "bindE r (\<lambda>response. bindE (encode response) (\<lambda>payload. Inr (response, payload)))")
    case (Inl x)
    then show ?thesis
      using assms(2) by (simp add: execute_job_def wp_def bindS_def askS_def c e Let_def)
  next
    case (Inr p)
    then obtain response payload where r: "r = Inr response" "encode response = Inr payload"
      by auto
    then show ?thesis
      using assms(1) [of response ctx payload] e
      by (simp add: execute_job_def wp_def bindS_def askS_def c Let_def)
  qed
qed

lemma running_set:
  assumes "i < length ws"
  shows "length (running_jobs (ws[i := w])) + length (running_jobs [ws ! i]) =
    length (running_jobs ws) + length (running_jobs [w])"
  using arg_cong [OF running_update [OF assms, of w], of size] by simp

lemma thread_event_background:
  "wp (thread_event E ev) (\<lambda>_ s'. background s s') (\<lambda>x s'. \<forall>fd. x \<noteq> Dangling fd) s"
proof (cases ev)
  case (Wake i)
  show ?thesis
  proof (cases "i < length (pool_workers (srv_workers s)) \<and> pool_workers (srv_workers s) ! i = Waiting")
    case True
    then show ?thesis
      using running_set [of i "pool_workers (srv_workers s)" Returned]
        running_set [of i "pool_workers (srv_workers s)" "Running (hd (jobs (srv_workers s)))"]
      by (cases "jobs (srv_workers s)")
        (auto simp: Wake wp_def worker_wake_def background_def job_work_def set_worker_def)
  qed (auto simp: Wake wp_def)
next
  case (Work i)
  show ?thesis
  proof (cases "i < length (pool_workers (srv_workers s))")
    case True
    note ws = True
    show ?thesis
    proof (cases "pool_workers (srv_workers s) ! i")
      case (Running j)
      show ?thesis
      proof (cases j)
        case (Execute cid seq request)
        have "wp (bindS (uncaughtS (execute_job E cid seq request)) (\<lambda>c. modifyS (set_worker i (Running (Publish c)))))
          (\<lambda>_ s'. background s s') (\<lambda>x s'. \<forall>fd. x \<noteq> Dangling fd) s"
          unfolding wp_simps
          by (rule execute_job_wp)
            (use running_set [OF ws, of "Running (Publish _)"] Running Execute in
              \<open>auto simp: background_def job_work_def set_worker_def\<close>)
        then show ?thesis using True Work Running Execute by (simp add: wp_def)
      next
        case (Publish c)
        then show ?thesis
          using running_set [OF ws, of Waiting] True Work Running
          by (simp add: wp_def background_def job_work_def set_worker_def publish_def)
      qed
    qed (use True Work in \<open>simp_all add: wp_def\<close>)
  qed (simp add: Work wp_def)
next
  case Sync_log
  then show ?thesis by (simp add: wp_def background_def job_work_def split: option.split)
next
  case Call_stop
  then show ?thesis
    by (simp add: wp_def server_stop_def background_def job_work_def socket_shutdown_def)
qed

lemma interleave_background:
  "wp (interleave E) (\<lambda>_ s'. background s s') (\<lambda>x s'. \<forall>fd. x \<noteq> Dangling fd) s"
proof -
  have many: "wp (thread_events E evs) (\<lambda>_ s'. background s s') (\<lambda>x s'. \<forall>fd. x \<noteq> Dangling fd) s" for evs s
  proof (induction evs arbitrary: s)
    case (Cons ev evs)
    show ?case
      unfolding thread_events.simps wp_simps
      by (rule wp_mono [OF thread_event_background])
        (auto intro: wp_mono [OF Cons.IH] background_trans)
  qed (simp add: wp_simps)
  show ?thesis
  proof (cases "srv_schedule s")
    case (Cons evs later)
    have "wp (thread_events E evs) (\<lambda>_ s'. background (s\<lparr>srv_schedule := later\<rparr>) s')
        (\<lambda>x s'. \<forall>fd. x \<noteq> Dangling fd) (s\<lparr>srv_schedule := later\<rparr>)"
      by (rule many)
    then show ?thesis
      using Cons by (simp add: wp_def interleave_def background_def job_work_def split: prod.splits sum.splits)
  qed (simp add: wp_def interleave_def)
qed

section \<open>Strands\<close>

definition queue_saturated :: "server_env \<Rightarrow> bool on_server" where
  "queue_saturated E =
     thenS (interleave E) (getS (\<lambda>s. queued_jobs (srv_workers s) \<ge> worker_queue_limit (srv_config s)))"

text \<open>Submitting a command, or running it on the I/O thread when the pool refuses it.\<close>

definition submit_job :: "server_env \<Rightarrow> u64 \<Rightarrow> u64 \<Rightarrow> resp_value \<Rightarrow> unit on_server" where
  "submit_job E cid seq request =
     thenS (interleave E) (\<lambda>s.
       case try_submit (Execute cid seq request) (srv_workers s) of
         (True, p) \<Rightarrow> (Inr (), s\<lparr>srv_workers := p\<rparr>)
       | (False, _) \<Rightarrow> bindS (execute_job E cid seq request) (\<lambda>c. modifyS (publish c)) s)"

definition launch_strand :: "server_env \<Rightarrow> int \<Rightarrow> unit on_server" where
  "launch_strand E fd =
     with_connection fd (\<lambda>c.
       case command_queue c of
         [] \<Rightarrow> on_connection fd (\<lambda>c. c\<lparr>strand_running := False\<rparr>)
       | item # rest \<Rightarrow>
           thenS (on_connection fd (\<lambda>c. c\<lparr>command_queue := rest, strand_running := True\<rparr>))
             (submit_job E (conn_id c) (q_sequence item) (q_request item)))"

definition queue_command :: "resp_value \<Rightarrow> connection \<Rightarrow> connection" where
  "queue_command request c =
     c\<lparr>next_request_seq := next_request_seq c + 1, inflight := inflight c + 1,
       command_queue := command_queue c @ [\<lparr>q_sequence = next_request_seq c, q_request = request\<rparr>]\<rparr>"

definition enqueue_command :: "server_env \<Rightarrow> int \<Rightarrow> resp_value \<Rightarrow> unit on_server" where
  "enqueue_command E fd request =
     with_connection fd (\<lambda>c.
       thenS (on_connection fd (queue_command request))
         (if \<not> strand_running c then launch_strand E fd else returnS ()))"

section \<open>Work and frames\<close>

text \<open>
  The work that the input still holds: an unread byte may become a byte in the parser, which may
  become a queued command, which becomes a job.
\<close>

definition conn_work :: "connection \<Rightarrow> nat" where
  "conn_work c = 3 * recv_work (inbox (conn_socket c)) + 3 * length (buffer (conn_parser c)) +
     2 * length (command_queue c)"

definition server_work :: "server \<Rightarrow> nat" where
  "server_work s = um_sum conn_work (connections s) + job_work s"

definition io_frame :: "server \<Rightarrow> server \<Rightarrow> bool" where
  "io_frame s s' \<longleftrightarrow> srv_accepts s' = srv_accepts s \<and> srv_config s' = srv_config s \<and>
     descriptor (srv_listener s') = descriptor (srv_listener s) \<and> server_work s' \<le> server_work s"

definition same_view :: "(connection \<Rightarrow> 'a) \<Rightarrow> server \<Rightarrow> server \<Rightarrow> bool" where
  "same_view f s s' \<longleftrightarrow>
     (\<forall>fd. map_option f (um_find fd (connections s')) = map_option f (um_find fd (connections s)))"

lemma io_frame_refl [simp]: "io_frame s s"
  by (simp add: io_frame_def)

lemma io_frame_trans: "io_frame s s' \<Longrightarrow> io_frame s' s'' \<Longrightarrow> io_frame s s''"
  by (simp add: io_frame_def)

lemma same_view_refl [simp]: "same_view f s s"
  by (simp add: same_view_def)

lemma same_view_trans: "same_view f s s' \<Longrightarrow> same_view f s' s'' \<Longrightarrow> same_view f s s''"
  by (simp add: same_view_def)

lemma same_view_find:
  "same_view f s s' \<Longrightarrow> um_find fd (connections s) = Some c \<Longrightarrow>
   \<exists>c'. um_find fd (connections s') = Some c' \<and> f c' = f c"
  unfolding same_view_def by (metis map_option_eq_Some option.simps(9))

lemma background_frame:
  assumes "background s s'"
  shows "io_frame s s' \<and> same_view f s s' \<and> connections s' = connections s"
  using assms by (simp add: background_def io_frame_def same_view_def server_work_def)

lemma server_work_put:
  "um_find fd (connections s) = Some c \<Longrightarrow>
   server_work (put_connection fd c' s) + conn_work c = server_work s + conn_work c'"
  using um_sum_replace [of fd "connections s" c conn_work c']
  by (simp add: server_work_def put_connection_def job_work_def)

lemma put_frame:
  assumes "um_find fd (connections s) = Some c" and "conn_work c' \<le> conn_work c"
  shows "io_frame s (put_connection fd c' s)"
  using server_work_put [OF assms(1), of c'] assms(2) by (simp add: io_frame_def)

lemma put_view:
  "um_find fd (connections s) = Some c \<Longrightarrow> f c' = f c \<Longrightarrow> same_view f s (put_connection fd c' s)"
  by (simp add: same_view_def)

text \<open>Submitting adds one unit of work, and changes no connection.\<close>

lemma submit_job_frame:
  "wp (submit_job E cid seq request)
     (\<lambda>_ s'. connections s' = connections s \<and> srv_accepts s' = srv_accepts s \<and> srv_config s' = srv_config s \<and>
       descriptor (srv_listener s') = descriptor (srv_listener s) \<and> job_work s' \<le> job_work s + 1)
     (\<lambda>_ _. True) s"
  unfolding submit_job_def wp_simps
proof (rule wp_mono [OF interleave_background])
  fix s'
  assume b: "background s s'"
  obtain ok p where t: "try_submit (Execute cid seq request) (srv_workers s') = (ok, p)" by fastforce
  show "wp (\<lambda>s. case try_submit (Execute cid seq request) (srv_workers s) of
        (True, p) \<Rightarrow> (Inr (), s\<lparr>srv_workers := p\<rparr>)
      | (False, _) \<Rightarrow> bindS (execute_job E cid seq request) (\<lambda>c. modifyS (publish c)) s)
     (\<lambda>_ s'. connections s' = connections s \<and> srv_accepts s' = srv_accepts s \<and> srv_config s' = srv_config s \<and>
       descriptor (srv_listener s') = descriptor (srv_listener s) \<and> job_work s' \<le> job_work s + 1)
     (\<lambda>_ _. True) s'"
  proof (cases ok)
    case True
    then show ?thesis
      using b t by (auto simp: wp_def try_submit_def background_def job_work_def split: if_splits)
  next
    case False
    have "wp (bindS (execute_job E cid seq request) (\<lambda>c. modifyS (publish c)))
     (\<lambda>_ s'. connections s' = connections s \<and> srv_accepts s' = srv_accepts s \<and> srv_config s' = srv_config s \<and>
       descriptor (srv_listener s') = descriptor (srv_listener s) \<and> job_work s' \<le> job_work s + 1)
     (\<lambda>_ _. True) s'"
      unfolding wp_simps by (rule execute_job_wp) (use b in \<open>simp_all add: publish_def background_def job_work_def\<close>)
    then show ?thesis using t False by (simp add: wp_def)
  qed
qed simp

lemma launch_strand_frame:
  "wp (launch_strand E fd)
     (\<lambda>_ s'. io_frame s s' \<and> same_view (\<lambda>c. (conn_parser c, conn_socket c)) s s') (\<lambda>_ _. True) s"
proof (cases "um_find fd (connections s)")
  case (Some c)
  show ?thesis
  proof (cases "command_queue c")
    case Nil
    then show ?thesis
      using Some put_frame [OF Some, of "c\<lparr>strand_running := False\<rparr>"]
        put_view [OF Some, of "\<lambda>c. (conn_parser c, conn_socket c)" "c\<lparr>strand_running := False\<rparr>"]
      by (simp add: launch_strand_def wp_simps conn_work_def)
  next
    case (Cons item rest)
    let ?c = "c\<lparr>command_queue := rest, strand_running := True\<rparr>"
    let ?s = "put_connection fd ?c s"
    have "wp (submit_job E (conn_id c) (q_sequence item) (q_request item))
       (\<lambda>_ s'. io_frame s s' \<and> same_view (\<lambda>c. (conn_parser c, conn_socket c)) s s') (\<lambda>_ _. True) ?s"
      by (rule wp_mono [OF submit_job_frame])
        (use server_work_put [OF Some, of ?c] put_view [OF Some, of "\<lambda>c. (conn_parser c, conn_socket c)" ?c] Cons in
          \<open>auto simp: io_frame_def same_view_def server_work_def conn_work_def\<close>)
    then show ?thesis using Some Cons by (simp add: launch_strand_def wp_simps)
  qed
qed (simp add: launch_strand_def wp_simps)

lemma enqueue_command_frame:
  "wp (enqueue_command E fd request)
     (\<lambda>_ s'. srv_accepts s' = srv_accepts s \<and> srv_config s' = srv_config s \<and>
       descriptor (srv_listener s') = descriptor (srv_listener s) \<and> server_work s' \<le> server_work s + 2 \<and>
       same_view (\<lambda>c. (conn_parser c, conn_socket c)) s s') (\<lambda>_ _. True) s"
proof (cases "um_find fd (connections s)")
  case (Some c)
  let ?s = "put_connection fd (queue_command request c) s"
  have w: "server_work ?s = server_work s + 2"
    using server_work_put [OF Some, of "queue_command request c"] by (simp add: conn_work_def queue_command_def)
  have v: "same_view (\<lambda>c. (conn_parser c, conn_socket c)) s ?s"
    by (rule put_view [OF Some]) (simp add: queue_command_def)
  have "wp (launch_strand E fd) (\<lambda>_ s'. srv_accepts s' = srv_accepts s \<and> srv_config s' = srv_config s \<and>
       descriptor (srv_listener s') = descriptor (srv_listener s) \<and> server_work s' \<le> server_work s + 2 \<and>
       same_view (\<lambda>c. (conn_parser c, conn_socket c)) s s') (\<lambda>_ _. True) ?s"
    by (rule wp_mono [OF launch_strand_frame]) (use w v in \<open>auto simp: io_frame_def intro: same_view_trans\<close>)
  then show ?thesis
    using Some w v by (simp add: enqueue_command_def wp_simps)
qed (simp add: enqueue_command_def wp_simps)

end
