(* ===== verification/Server_IO.thy ===== *)
theory Server_IO
  imports Server
begin

text \<open>
  The functions of the I/O thread of \<^verbatim>\<open>src/server/server.cpp\<close>: reading, writing, applying
  completions, accepting, and the event loop. Each loop of the source is a round and a recursion
  over it, with the measure that makes it end.
\<close>

section \<open>Reading\<close>

definition refuse_input :: "connection \<Rightarrow> connection" where
  "refuse_input c = c\<lparr>conn_output := conn_output c @ protocol_error, closing := True, read_closed := True\<rparr>"

text \<open>
  One round of the loop of \<^verbatim>\<open>queue_parsed_commands\<close>, in two parts; the result says whether the loop
  goes on.
\<close>

definition handle_parsed :: "server_env \<Rightarrow> int \<Rightarrow> parse_result \<Rightarrow> bool on_server" where
  "handle_parsed E fd result =
     (if pr_status result = Incomplete then returnS False
      else if pr_status result \<noteq> Complete \<or> pr_value result = None \<or>
              \<not> is_command_request (the (pr_value result))
      then thenS (on_connection fd refuse_input) (returnS False)
      else thenS (enqueue_command E fd (the (pr_value result))) (returnS True))"

definition parse_round :: "server_env \<Rightarrow> int \<Rightarrow> bool on_server" where
  "parse_round E fd =
     bindS (queue_saturated E) (\<lambda>saturated. with_connection fd (\<lambda>c.
       if saturated \<and> inflight c > 0 then returnS False
       else thenS (on_connection fd (\<lambda>c. c\<lparr>conn_parser := snd (parser_next (conn_parser c))\<rparr>))
              (handle_parsed E fd (fst (parser_next (conn_parser c))))))"

text \<open>The end of the input.\<close>

definition end_input :: "connection \<Rightarrow> connection" where
  "end_input c =
     (let c' = c\<lparr>read_closed := True\<rparr> in
      if buffered_bytes (conn_parser c') \<noteq> 0
      then c'\<lparr>conn_output := conn_output c' @ protocol_error, closing := True\<rparr>
      else if inflight c' = 0 \<and> conn_output c' = [] then c'\<lparr>closing := True\<rparr> else c')"

lemma end_input_simps [simp]:
  "conn_id (end_input c) = conn_id c" "conn_socket (end_input c) = conn_socket c"
  "conn_parser (end_input c) = conn_parser c" "command_queue (end_input c) = command_queue c"
  "conn_work (end_input c) = conn_work c"
  by (simp_all add: end_input_def conn_work_def Let_def)

lemma queue_saturated_background:
  "wp (queue_saturated E) (\<lambda>_ s'. background s s') (\<lambda>x s'. \<forall>fd. x \<noteq> Dangling fd) s"
  unfolding queue_saturated_def wp_simps by (rule interleave_background)

lemma handle_parsed_frame:
  "wp (handle_parsed E fd result)
     (\<lambda>b s'. srv_accepts s' = srv_accepts s \<and> srv_config s' = srv_config s \<and>
       descriptor (srv_listener s') = descriptor (srv_listener s) \<and>
       server_work s' \<le> server_work s + (if b then 2 else 0) \<and>
       same_view (\<lambda>c. (conn_parser c, conn_socket c)) s s' \<and> (b \<longrightarrow> pr_status result = Complete))
     (\<lambda>_ _. True) s"
proof (cases "pr_status result = Complete \<and> pr_value result \<noteq> None \<and> is_command_request (the (pr_value result))")
  case True
  then show ?thesis
    using enqueue_command_frame [of E fd "the (pr_value result)" s]
    by (auto simp: handle_parsed_def wp_simps)
next
  case False
  have "server_work (put_connection fd (refuse_input c) s) = server_work s"
    if "um_find fd (connections s) = Some c" for c
    using server_work_put [OF that, of "refuse_input c"] by (simp add: conn_work_def refuse_input_def)
  then show ?thesis
    using False by (auto simp: handle_parsed_def wp_simps refuse_input_def intro: put_view split: option.split)
qed

lemma parse_round_frame:
  "wp (parse_round E fd) (\<lambda>b s'. io_frame s s' \<and> same_view conn_socket s s' \<and>
       (b \<longrightarrow> (\<exists>c c'. um_find fd (connections s) = Some c \<and> um_find fd (connections s') = Some c' \<and>
          length (buffer (conn_parser c')) < length (buffer (conn_parser c)))))
     (\<lambda>_ _. True) s"
  unfolding parse_round_def wp_bind
proof (rule wp_mono [OF queue_saturated_background])
  fix sat s1
  assume "background s s1"
  then have b: "io_frame s s1" "same_view conn_socket s s1" "connections s1 = connections s"
    using background_frame by blast+
  show "wp (with_connection fd (\<lambda>c. if sat \<and> inflight c > 0 then returnS False
       else thenS (on_connection fd (\<lambda>c. c\<lparr>conn_parser := snd (parser_next (conn_parser c))\<rparr>))
              (handle_parsed E fd (fst (parser_next (conn_parser c))))))
     (\<lambda>b s'. io_frame s s' \<and> same_view conn_socket s s' \<and>
       (b \<longrightarrow> (\<exists>c c'. um_find fd (connections s) = Some c \<and> um_find fd (connections s') = Some c' \<and>
          length (buffer (conn_parser c')) < length (buffer (conn_parser c)))))
     (\<lambda>_ _. True) s1" (is "wp _ ?Q _ _")
  proof (cases "um_find fd (connections s1)")
    case (Some c)
    define p where "p = snd (parser_next (conn_parser c))"
    let ?s = "put_connection fd (c\<lparr>conn_parser := p\<rparr>) s1"
    have w: "server_work ?s + 3 * length (buffer (conn_parser c)) = server_work s1 + 3 * length (buffer p)"
      using server_work_put [OF Some, of "c\<lparr>conn_parser := p\<rparr>"] by (simp add: conn_work_def)
    have len: "length (buffer p) \<le> length (buffer (conn_parser c))"
      "pr_status (fst (parser_next (conn_parser c))) = Complete \<Longrightarrow>
       length (buffer p) < length (buffer (conn_parser c))"
      using parser_next_shrinks [of "conn_parser c"] unfolding p_def
      by (auto simp: parser_next_def Let_def split: if_splits)
    have v: "same_view conn_socket s1 ?s" by (rule put_view [OF Some]) simp
    have "wp (handle_parsed E fd (fst (parser_next (conn_parser c)))) ?Q (\<lambda>_ _. True) ?s"
    proof (rule wp_mono [OF handle_parsed_frame])
      fix b s'
      assume h: "srv_accepts s' = srv_accepts ?s \<and> srv_config s' = srv_config ?s \<and>
       descriptor (srv_listener s') = descriptor (srv_listener ?s) \<and>
       server_work s' \<le> server_work ?s + (if b then 2 else 0) \<and>
       same_view (\<lambda>c. (conn_parser c, conn_socket c)) ?s s' \<and>
       (b \<longrightarrow> pr_status (fst (parser_next (conn_parser c))) = Complete)"
      then have "same_view conn_socket ?s s'" unfolding same_view_def
        by (metis (no_types, lifting) map_option_cong map_option_eq_Some snd_conv option.map_comp comp_def)
      then have "same_view conn_socket s s'" using v b(2) by (blast intro: same_view_trans)
      moreover obtain c' where "um_find fd (connections s') = Some c'" "conn_parser c' = p"
        using same_view_find [of "\<lambda>c. (conn_parser c, conn_socket c)" ?s s' fd "c\<lparr>conn_parser := p\<rparr>"] h by auto
      moreover have "server_work s' \<le> server_work s1" using h w len by (auto split: if_splits)
      ultimately show "?Q b s'" using b h len Some by (auto simp: io_frame_def)
    qed simp
    then show ?thesis using Some b by (auto simp: wp_simps p_def)
  qed (simp add: wp_simps)
qed simp

definition buffered :: "int \<Rightarrow> server \<Rightarrow> nat" where
  "buffered fd s = (case um_find fd (connections s) of None \<Rightarrow> 0 | Some c \<Rightarrow> length (buffer (conn_parser c)))"

function queue_parsed_commands :: "server_env \<Rightarrow> int \<Rightarrow> unit on_server" where
  "queue_parsed_commands E fd s =
     (case parse_round E fd s of
        (Inl x, s') \<Rightarrow> (Inl x, s')
      | (Inr b, s') \<Rightarrow> if b then queue_parsed_commands E fd s' else (Inr (), s'))"
  by pat_completeness auto
termination
proof (relation "measure (\<lambda>(E, fd, s). buffered fd s)")
  fix E fd s r s' b
  assume "(r, s') = parse_round E fd s" and "r = Inr b" and "b"
  then show "((E, fd, s'), E, fd, s) \<in> measure (\<lambda>(E, fd, s). buffered fd s)"
    using wp_result(1) [OF parse_round_frame, of E fd s b s'] by (auto simp: buffered_def)
qed simp

declare queue_parsed_commands.simps [simp del]

lemma queue_parsed_commands_frame:
  "wp (queue_parsed_commands E fd) (\<lambda>_ s'. io_frame s s' \<and> same_view conn_socket s s') (\<lambda>_ _. True) s"
proof (rule wp_loop [where I = "\<lambda>s'. io_frame s s' \<and> same_view conn_socket s s'" and m = "buffered fd"])
  fix s'
  assume "io_frame s s' \<and> same_view conn_socket s s'"
  then show "wp (parse_round E fd) (\<lambda>b s''. if b then (io_frame s s'' \<and> same_view conn_socket s s'') \<and>
      buffered fd s'' < buffered fd s' else io_frame s s'' \<and> same_view conn_socket s s'') (\<lambda>_ _. True) s'"
    by (intro wp_mono [OF parse_round_frame])
      (auto simp: buffered_def intro: io_frame_trans same_view_trans)
qed (simp_all add: queue_parsed_commands.simps)

text \<open>
  One round of the loop of \<^verbatim>\<open>read_connection\<close>: what is finished with the bytes that were received, and
  the whole round.
\<close>

definition handle_bytes :: "server_env \<Rightarrow> int \<Rightarrow> string \<Rightarrow> bool on_server" where
  "handle_bytes E fd bytes =
     thenS (on_stats (add_bytes_in (of_nat (length bytes))))
       (bindS (askS (steady_at E)) (\<lambda>t.
         thenS (on_connection fd (\<lambda>c. c\<lparr>last_activity := t\<rparr>))
           (with_connection fd (\<lambda>c.
             thenS (on_connection fd (\<lambda>c. c\<lparr>conn_parser := snd (parser_feed (conn_parser c) bytes)\<rparr>))
               (if fst (parser_feed (conn_parser c) bytes) \<noteq> Incomplete
                then thenS (on_connection fd refuse_input) (returnS False)
                else thenS (queue_parsed_commands E fd)
                  (with_connection fd (\<lambda>c. returnS (\<not> closing c))))))))"

definition receive_round :: "server_env \<Rightarrow> int \<Rightarrow> bool on_server" where
  "receive_round E fd =
     with_connection fd (\<lambda>c.
       thenS (on_connection fd (\<lambda>c. c\<lparr>conn_socket := snd (try_receive 8192 (conn_socket c))\<rparr>))
         (case fst (try_receive 8192 (conn_socket c)) of
            Inl x \<Rightarrow> throwS x
          | Inr (st, bytes) \<Rightarrow>
              if st = Io_would_block then returnS False
              else if st = Io_closed then thenS (on_connection fd end_input) (returnS False)
              else handle_bytes E fd bytes))"

definition read_round :: "server_env \<Rightarrow> int \<Rightarrow> bool on_server" where
  "read_round E fd =
     bindS (queue_saturated E) (\<lambda>saturated. if saturated then returnS False else receive_round E fd)"

text \<open>The receive, seen from the work that is left.\<close>

lemma try_receive_work:
  assumes "try_receive n s = (r, s')" and "n > 0"
  shows "recv_work (inbox s') + (case r of Inr (Io_ok, bytes) \<Rightarrow> length bytes | _ \<Rightarrow> 0) \<le> recv_work (inbox s)"
    and "r = Inr (st, bytes) \<Longrightarrow> st = Io_ok \<Longrightarrow> bytes \<noteq> [] \<and> received s' = received s @ bytes"
    and "r = Inr (st, bytes) \<Longrightarrow> st \<noteq> Io_ok \<Longrightarrow> bytes = [] \<and> received s' = received s"
    and "sent s' = sent s \<and> descriptor s' = descriptor s"
  using assms recv_calls_work [of n "inbox s"] recv_calls_ok [of n "inbox s"]
    recv_calls_other [of n "inbox s"]
  by (auto simp: try_receive_def split: if_splits prod.splits sum.splits io_status.splits)

lemma handle_bytes_frame:
  "wp (handle_bytes E fd bytes)
     (\<lambda>_ s'. srv_accepts s' = srv_accepts s \<and> srv_config s' = srv_config s \<and>
       descriptor (srv_listener s') = descriptor (srv_listener s) \<and>
       server_work s' \<le> server_work s + 3 * length bytes \<and> same_view conn_socket s s')
     (\<lambda>_ _. True) s"
proof (cases "um_find fd (connections s)")
  case (Some c)
  define t where "t = steady_at E (srv_tick s)"
  define p where "p = snd (parser_feed (conn_parser c) bytes)"
  define c' where "c' = c\<lparr>last_activity := t, conn_parser := p\<rparr>"
  define s1 where "s1 = put_connection fd c' (s\<lparr>srv_stats := add_bytes_in (of_nat (length bytes)) (srv_stats s),
    srv_tick := srv_tick s + 1\<rparr>)"
  have len: "length (buffer p) \<le> length (buffer (conn_parser c)) + length bytes"
    by (auto simp: p_def parser_feed_def)
  have s1: "srv_accepts s1 = srv_accepts s" "srv_config s1 = srv_config s" "srv_listener s1 = srv_listener s"
    "um_find fd (connections s1) = Some c'"
    by (simp_all add: s1_def)
  have w: "server_work s1 \<le> server_work s + 3 * length bytes"
    using server_work_put [of fd "s\<lparr>srv_stats := add_bytes_in (of_nat (length bytes)) (srv_stats s),
      srv_tick := srv_tick s + 1\<rparr>" c c'] Some len
    by (simp add: s1_def c'_def conn_work_def) (simp add: server_work_def job_work_def)
  have v: "same_view conn_socket s s1"
    using Some by (simp add: same_view_def s1_def c'_def)
  show ?thesis
  proof (cases "fst (parser_feed (conn_parser c) bytes) = Incomplete")
    case True
    have "wp (queue_parsed_commands E fd) (\<lambda>_. wp (with_connection fd (\<lambda>c. returnS (\<not> closing c)))
       (\<lambda>_ s'. srv_accepts s' = srv_accepts s \<and> srv_config s' = srv_config s \<and>
         descriptor (srv_listener s') = descriptor (srv_listener s) \<and>
         server_work s' \<le> server_work s + 3 * length bytes \<and> same_view conn_socket s s')
       (\<lambda>_ _. True)) (\<lambda>_ _. True) s1"
      by (rule wp_mono [OF queue_parsed_commands_frame])
        (use s1 w v in \<open>auto simp: wp_simps io_frame_def intro: same_view_trans split: option.split\<close>)
    then show ?thesis
      using Some True by (simp add: handle_bytes_def wp_simps s1_def c'_def p_def t_def)
  next
    case False
    have "server_work (put_connection fd (refuse_input c') s1) = server_work s1"
      using server_work_put [OF s1(4), of "refuse_input c'"] by (simp add: conn_work_def refuse_input_def)
    moreover have "same_view conn_socket s (put_connection fd (refuse_input c') s1)"
      using v by (rule same_view_trans) (simp add: put_view [OF s1(4)] refuse_input_def)
    ultimately show ?thesis
      using Some False w by (simp add: handle_bytes_def wp_simps s1_def c'_def p_def t_def)
  qed
qed (simp add: handle_bytes_def wp_simps)

definition unread :: "int \<Rightarrow> server \<Rightarrow> nat" where
  "unread fd s = (case um_find fd (connections s) of None \<Rightarrow> 0 | Some c \<Rightarrow> recv_work (inbox (conn_socket c)))"

lemma receive_round_frame:
  "wp (receive_round E fd) (\<lambda>b s'. io_frame s s' \<and> (b \<longrightarrow> unread fd s' < unread fd s)) (\<lambda>_ _. True) s"
proof (cases "um_find fd (connections s)")
  case (Some c)
  obtain r sock where t: "try_receive 8192 (conn_socket c) = (r, sock)" by fastforce
  have rw: "recv_work (inbox sock) + (case r of Inr (Io_ok, bytes) \<Rightarrow> length bytes | _ \<Rightarrow> 0) \<le>
      recv_work (inbox (conn_socket c))"
    by (rule try_receive_work(1) [OF t]) simp
  let ?s = "put_connection fd (c\<lparr>conn_socket := sock\<rparr>) s"
  have w: "server_work ?s + 3 * recv_work (inbox (conn_socket c)) = server_work s + 3 * recv_work (inbox sock)"
    using server_work_put [OF Some, of "c\<lparr>conn_socket := sock\<rparr>"] by (simp add: conn_work_def)
  then have f: "io_frame s ?s" using rw by (simp add: io_frame_def)
  show ?thesis
  proof (cases r)
    case (Inl x)
    then show ?thesis using Some t by (simp add: receive_round_def wp_simps)
  next
    case (Inr p)
    obtain st bytes where p: "p = (st, bytes)" by fastforce
    show ?thesis
    proof (cases st)
      case Io_ok
      have b: "bytes \<noteq> []" using try_receive_work(2) [OF t] Inr p Io_ok by simp
      have "wp (handle_bytes E fd bytes) (\<lambda>b s'. io_frame s s' \<and> (b \<longrightarrow> unread fd s' < unread fd s)) (\<lambda>_ _. True) ?s"
      proof (rule wp_mono [OF handle_bytes_frame])
        fix b s'
        assume h: "srv_accepts s' = srv_accepts ?s \<and> srv_config s' = srv_config ?s \<and>
           descriptor (srv_listener s') = descriptor (srv_listener ?s) \<and>
           server_work s' \<le> server_work ?s + 3 * length bytes \<and> same_view conn_socket ?s s'"
        obtain c' where "um_find fd (connections s') = Some c'" "conn_socket c' = sock"
          using same_view_find [of conn_socket ?s s' fd "c\<lparr>conn_socket := sock\<rparr>"] h by auto
        then show "io_frame s s' \<and> (b \<longrightarrow> unread fd s' < unread fd s)"
          using h w rw b Some Inr p Io_ok by (cases bytes) (auto simp: io_frame_def unread_def)
      qed simp
      then show ?thesis using Some t Inr p Io_ok by (simp add: receive_round_def wp_simps)
    next
      case Io_would_block
      then show ?thesis using Some t Inr p f by (simp add: receive_round_def wp_simps)
    next
      case Io_closed
      have "server_work (put_connection fd (end_input (c\<lparr>conn_socket := sock\<rparr>)) s) = server_work ?s"
        using server_work_put [of fd ?s "c\<lparr>conn_socket := sock\<rparr>" "end_input (c\<lparr>conn_socket := sock\<rparr>)"]
        by (simp add: conn_work_def [of "c\<lparr>conn_socket := sock\<rparr>"])
      then show ?thesis
        using Some t Inr p Io_closed f by (simp add: receive_round_def wp_simps io_frame_def)
    qed
  qed
qed (simp add: receive_round_def wp_simps)

lemma read_round_frame:
  "wp (read_round E fd) (\<lambda>b s'. io_frame s s' \<and> (b \<longrightarrow> unread fd s' < unread fd s)) (\<lambda>_ _. True) s"
  unfolding read_round_def wp_bind
proof (rule wp_mono [OF queue_saturated_background])
  fix sat s1
  assume "background s s1"
  then have b: "io_frame s s1" "connections s1 = connections s" using background_frame by blast+
  then show "wp (if sat then returnS False else receive_round E fd)
      (\<lambda>b s'. io_frame s s' \<and> (b \<longrightarrow> unread fd s' < unread fd s)) (\<lambda>_ _. True) s1"
    by (cases sat)
      (auto simp: wp_simps unread_def intro!: wp_mono [OF receive_round_frame] intro: io_frame_trans)
qed simp

function read_loop :: "server_env \<Rightarrow> int \<Rightarrow> unit on_server" where
  "read_loop E fd s =
     (case read_round E fd s of
        (Inl x, s') \<Rightarrow> (Inl x, s')
      | (Inr b, s') \<Rightarrow> if b then read_loop E fd s' else (Inr (), s'))"
  by pat_completeness auto
termination
proof (relation "measure (\<lambda>(E, fd, s). unread fd s)")
  fix E fd s r s' b
  assume "(r, s') = read_round E fd s" and "r = Inr b" and "b"
  then show "((E, fd, s'), E, fd, s) \<in> measure (\<lambda>(E, fd, s). unread fd s)"
    using wp_result(1) [OF read_round_frame, of E fd s b s'] by auto
qed simp

declare read_loop.simps [simp del]

definition read_connection :: "server_env \<Rightarrow> int \<Rightarrow> unit on_server" where
  "read_connection E fd =
     with_connection fd (\<lambda>c. if read_closed c \<or> closing c then returnS () else read_loop E fd)"

lemma read_connection_frame: "wp (read_connection E fd) (\<lambda>_ s'. io_frame s s') (\<lambda>_ _. True) s"
proof -
  have "wp (read_loop E fd) (\<lambda>_ s'. io_frame s s') (\<lambda>_ _. True) s"
  proof (rule wp_loop [where I = "io_frame s" and m = "unread fd"])
    fix s'
    assume "io_frame s s'"
    then show "wp (read_round E fd) (\<lambda>b s''. if b then io_frame s s'' \<and> unread fd s'' < unread fd s'
        else io_frame s s'') (\<lambda>_ _. True) s'"
      by (intro wp_mono [OF read_round_frame]) (auto intro: io_frame_trans)
  qed (simp_all add: read_loop.simps)
  then show ?thesis by (auto simp: read_connection_def wp_simps split: option.split)
qed

section \<open>Writing\<close>

text \<open>One round of the loop of \<^verbatim>\<open>write_connection\<close>.\<close>

definition handle_sent :: "server_env \<Rightarrow> int \<Rightarrow> nat \<Rightarrow> bool on_server" where
  "handle_sent E fd n =
     thenS (on_stats (add_bytes_out (of_nat n)))
       (thenS (on_connection fd (\<lambda>c. c\<lparr>conn_output := drop n (conn_output c)\<rparr>))
         (bindS (askS (steady_at E)) (\<lambda>t.
           thenS (on_connection fd (\<lambda>c. c\<lparr>last_activity := t\<rparr>)) (returnS True))))"

definition write_round :: "server_env \<Rightarrow> int \<Rightarrow> bool on_server" where
  "write_round E fd =
     with_connection fd (\<lambda>c.
       if conn_output c = [] then returnS False
       else thenS (on_connection fd (\<lambda>c. c\<lparr>conn_socket := snd (try_send (conn_output c) (conn_socket c))\<rparr>))
         (case fst (try_send (conn_output c) (conn_socket c)) of
            Inl x \<Rightarrow> throwS x
          | Inr (st, n) \<Rightarrow>
              if st = Io_would_block then returnS False
              else if st = Io_closed \<or> n = 0
              then thenS (on_connection fd (\<lambda>c. c\<lparr>closing := True, conn_output := []\<rparr>)) (returnS False)
              else handle_sent E fd n))"

definition unsent :: "int \<Rightarrow> server \<Rightarrow> nat" where
  "unsent fd s = (case um_find fd (connections s) of None \<Rightarrow> 0 | Some c \<Rightarrow> length (conn_output c))"

text \<open>
  The states a round leads to: the socket after the call, and then the branches.
\<close>

lemma write_round_wp:
  assumes c: "um_find fd (connections s) = Some c"
    and t: "try_send (conn_output c) (conn_socket c) = (r, sock)"
    and empty: "conn_output c = [] \<Longrightarrow> Q False s"
    and again: "\<And>n. conn_output c \<noteq> [] \<Longrightarrow> r = Inr (Io_would_block, n) \<Longrightarrow>
      Q False (put_connection fd (c\<lparr>conn_socket := sock\<rparr>) s)"
    and closed: "\<And>st n. conn_output c \<noteq> [] \<Longrightarrow> r = Inr (st, n) \<Longrightarrow> st = Io_closed \<or> n = 0 \<Longrightarrow>
      Q False (put_connection fd (c\<lparr>conn_socket := sock, closing := True, conn_output := []\<rparr>) s)"
    and some: "\<And>n. conn_output c \<noteq> [] \<Longrightarrow> r = Inr (Io_ok, n) \<Longrightarrow> n > 0 \<Longrightarrow>
      Q True (put_connection fd (c\<lparr>conn_socket := sock, conn_output := drop n (conn_output c),
          last_activity := steady_at E (srv_tick s)\<rparr>)
        (s\<lparr>srv_stats := add_bytes_out (of_nat n) (srv_stats s), srv_tick := srv_tick s + 1\<rparr>))"
    and throws: "\<And>e s'. X (Thrown e) s'"
  shows "wp (write_round E fd) Q X s"
proof (cases "conn_output c = []")
  case True
  then show ?thesis using c empty by (simp add: write_round_def wp_simps)
next
  case False
  show ?thesis
  proof (cases r)
    case (Inl x)
    then show ?thesis using c t False throws by (simp add: write_round_def wp_simps)
  next
    case (Inr p)
    obtain st n where p: "p = (st, n)" by fastforce
    consider "st = Io_would_block" | "st \<noteq> Io_would_block" "st = Io_closed \<or> n = 0" | "st = Io_ok" "n > 0"
      by (cases st) auto
    then show ?thesis
    proof cases
      case 1
      then show ?thesis using c t False Inr p again by (simp add: write_round_def wp_simps)
    next
      case 2
      then show ?thesis using c t False Inr p closed by (auto simp: write_round_def wp_simps)
    next
      case 3
      then show ?thesis
        using c t False Inr p some by (simp add: write_round_def handle_sent_def wp_simps)
    qed
  qed
qed

lemma put_frame':
  assumes "um_find fd (connections s) = Some c" and "conn_work c' \<le> conn_work c"
  shows "io_frame s (put_connection fd c' (s\<lparr>srv_stats := st, srv_tick := n\<rparr>))"
proof -
  have "io_frame s (s\<lparr>srv_stats := st, srv_tick := n\<rparr>)"
    by (simp add: io_frame_def server_work_def job_work_def)
  then show ?thesis
    by (rule io_frame_trans) (rule put_frame [of _ _ c], use assms in simp_all)
qed

lemma write_round_frame:
  "wp (write_round E fd) (\<lambda>b s'. io_frame s s' \<and> (b \<longrightarrow> unsent fd s' < unsent fd s)) (\<lambda>_ _. True) s"
proof (cases "um_find fd (connections s)")
  case (Some c)
  obtain r sock where t: "try_send (conn_output c) (conn_socket c) = (r, sock)" by fastforce
  have w: "inbox sock = inbox (conn_socket c)" if "r = Inr p" for p
    using try_send_effect [of "conn_output c" "conn_socket c" "fst p" "snd p" sock] t that by simp
  show ?thesis
    by (rule write_round_wp [OF Some t])
      (use w Some in \<open>auto simp: conn_work_def unsent_def intro!: put_frame [OF Some] put_frame' [OF Some]\<close>)
qed (simp add: write_round_def wp_simps)

function write_connection :: "server_env \<Rightarrow> int \<Rightarrow> unit on_server" where
  "write_connection E fd s =
     (case write_round E fd s of
        (Inl x, s') \<Rightarrow> (Inl x, s')
      | (Inr b, s') \<Rightarrow> if b then write_connection E fd s' else (Inr (), s'))"
  by pat_completeness auto
termination
proof (relation "measure (\<lambda>(E, fd, s). unsent fd s)")
  fix E fd s r s' b
  assume "(r, s') = write_round E fd s" and "r = Inr b" and "b"
  then show "((E, fd, s'), E, fd, s) \<in> measure (\<lambda>(E, fd, s). unsent fd s)"
    using wp_result(1) [OF write_round_frame, of E fd s b s'] by auto
qed simp

declare write_connection.simps [simp del]

lemma write_connection_frame: "wp (write_connection E fd) (\<lambda>_ s'. io_frame s s') (\<lambda>_ _. True) s"
proof (rule wp_loop [where I = "io_frame s" and m = "unsent fd"])
  fix s'
  assume "io_frame s s'"
  then show "wp (write_round E fd) (\<lambda>b s''. if b then io_frame s s'' \<and> unsent fd s'' < unsent fd s'
      else io_frame s s'') (\<lambda>_ _. True) s'"
    by (intro wp_mono [OF write_round_frame]) (auto intro: io_frame_trans)
qed (simp_all add: write_connection.simps)

section \<open>Interest and closing\<close>

text \<open>The lambda \<^verbatim>\<open>compute_interest\<close>; the queue is looked at only for a connection that still reads.\<close>

definition compute_interest :: "server_env \<Rightarrow> int \<Rightarrow> interest on_server" where
  "compute_interest E fd =
     with_connection fd (\<lambda>c.
       bindS (if read_closed c \<or> closing c then returnS False
              else bindS (queue_saturated E) (\<lambda>saturated s.
                (Inr (\<not> saturated \<and> length (conn_output c) < max_output_buffer_bytes (srv_config s)), s)))
         (\<lambda>want_read.
           let interest = (if want_read then interest_none OR interest_read else interest_none) in
           returnS (if conn_output c \<noteq> [] then interest OR interest_write else interest)))"

definition set_interest :: "server_env \<Rightarrow> int \<Rightarrow> interest \<Rightarrow> unit on_server" where
  "set_interest E fd interest =
     with_connection fd (\<lambda>c.
       if interest \<noteq> conn_interest c
       then thenS (on_connection fd (\<lambda>c. c\<lparr>conn_interest := interest\<rparr>))
         (bindS (askS (os_at E)) (\<lambda>os.
           on_reactor (reactor_modify os (native_handle (conn_socket c)) interest)))
       else returnS ())"

text \<open>Data that arrived while reading was disabled is not reported again, so it is read here.\<close>

definition resume_reading :: "server_env \<Rightarrow> int \<Rightarrow> bool \<Rightarrow> unit on_server" where
  "resume_reading E fd enabling_read =
     (if enabling_read
      then thenS (read_connection E fd) (bindS (compute_interest E fd) (set_interest E fd))
      else returnS ())"

definition update_interest :: "server_env \<Rightarrow> int \<Rightarrow> unit on_server" where
  "update_interest E fd =
     bindS (compute_interest E fd) (\<lambda>interest. with_connection fd (\<lambda>c.
       thenS (set_interest E fd interest)
         (resume_reading E fd
           (has_interest interest interest_read \<and> \<not> has_interest (conn_interest c) interest_read))))"

definition close_connection :: "server_env \<Rightarrow> int \<Rightarrow> unit on_server" where
  "close_connection E fd s =
     (if um_find fd (connections s) = None then (Inr (), s)
      else bindS (askS (os_at E)) (\<lambda>os. modifyS (\<lambda>s.
        s\<lparr>srv_reactor := snd (reactor_remove os fd (srv_reactor s)),
          connections := um_erase fd (connections s),
          srv_stats := on_disconnect (srv_stats s)\<rparr>)) s)"

lemma compute_interest_frame:
  "wp (compute_interest E fd) (\<lambda>_ s'. io_frame s s' \<and> connections s' = connections s) (\<lambda>_ _. True) s"
proof (cases "um_find fd (connections s)")
  case (Some c)
  have q: "wp (queue_saturated E) (\<lambda>_ s'. io_frame s s' \<and> connections s' = connections s) (\<lambda>_ _. True) s"
    by (rule wp_mono [OF queue_saturated_background]) (use background_frame in blast)+
  then show ?thesis
    using Some wp_mono [OF q]
    by (auto simp: compute_interest_def wp_simps Let_def) (auto simp: wp_def split: sum.splits prod.splits)
qed (simp add: compute_interest_def wp_simps)

lemma set_interest_frame: "wp (set_interest E fd interest) (\<lambda>_ s'. io_frame s s') (\<lambda>_ _. True) s"
proof (cases "um_find fd (connections s)")
  case (Some c)
  have "io_frame s ((put_connection fd (c\<lparr>conn_interest := interest\<rparr>) s)\<lparr>srv_tick := n, srv_reactor := k\<rparr>)" for n k
    using put_frame [OF Some, of "c\<lparr>conn_interest := interest\<rparr>"]
    by (simp add: io_frame_def conn_work_def server_work_def job_work_def put_connection_def)
  then show ?thesis
    using Some by (auto simp: set_interest_def wp_simps on_reactor_def wp_def split: sum.splits prod.splits)
qed (simp add: set_interest_def wp_simps)

lemma update_interest_frame: "wp (update_interest E fd) (\<lambda>_ s'. io_frame s s') (\<lambda>_ _. True) s"
  unfolding update_interest_def wp_bind
proof (rule wp_mono [OF compute_interest_frame])
  fix interest s1
  assume "io_frame s s1 \<and> connections s1 = connections s"
  then have f1: "io_frame s s1" ..
  have ci: "wp (bindS (compute_interest E fd) (set_interest E fd)) (\<lambda>_ s'. io_frame s s') (\<lambda>_ _. True) s2"
    if "io_frame s s2" for s2
    unfolding wp_bind
    by (rule wp_mono [OF compute_interest_frame])
      (use that in \<open>auto intro!: wp_mono [OF set_interest_frame] intro: io_frame_trans\<close>)
  have "wp (set_interest E fd interest) (\<lambda>_. wp (resume_reading E fd b)
      (\<lambda>_ s'. io_frame s s') (\<lambda>_ _. True)) (\<lambda>_ _. True) s1" for b
    by (rule wp_mono [OF set_interest_frame])
      (use f1 ci in \<open>auto simp: resume_reading_def wp_then wp_return intro: io_frame_trans
        intro!: wp_mono [OF read_connection_frame]\<close>)
  then show "wp (with_connection fd (\<lambda>c. thenS (set_interest E fd interest)
       (resume_reading E fd
         (has_interest interest interest_read \<and> \<not> has_interest (conn_interest c) interest_read))))
       (\<lambda>_ s'. io_frame s s') (\<lambda>_ _. True) s1"
    by (auto simp: wp_with wp_then split: option.split)
qed simp

lemma close_connection_frame: "wp (close_connection E fd) (\<lambda>_ s'. io_frame s s') (\<lambda>_ _. True) s"
  using um_sum_erase_le [of conn_work fd "connections s"]
  by (simp add: close_connection_def wp_def bindS_def askS_def modifyS_def io_frame_def server_work_def job_work_def)

section \<open>Completions\<close>

text \<open>\<^verbatim>\<open>emplace\<close> keeps a binding that exists.\<close>

definition um_emplace :: "'k \<Rightarrow> 'v \<Rightarrow> ('k \<times> 'v) list \<Rightarrow> ('k \<times> 'v) list" where
  "um_emplace k v m = (if um_find k m = None then um_store k v m else m)"

text \<open>The loop of \<^verbatim>\<open>apply_completion\<close> that moves the responses that are due to the output.\<close>

function release_responses :: "nat \<Rightarrow> connection \<Rightarrow> connection" where
  "release_responses limit c =
     (case um_find (next_response_seq c) (pending_responses c) of
        None \<Rightarrow> c
      | Some payload \<Rightarrow>
          if length (conn_output c) > limit \<or> length payload > limit - length (conn_output c)
          then c\<lparr>closing := True, read_closed := True, pending_responses := []\<rparr>
          else release_responses limit
            (c\<lparr>conn_output := conn_output c @ payload,
               pending_responses := um_erase (next_response_seq c) (pending_responses c),
               next_response_seq := next_response_seq c + 1\<rparr>))"
  by pat_completeness auto
termination
  by (relation "measure (\<lambda>(limit, c). length (pending_responses c))") (auto simp: um_erase_shorter)

declare release_responses.simps [simp del]

definition accept_response :: "nat \<Rightarrow> completion \<Rightarrow> connection \<Rightarrow> connection" where
  "accept_response limit finished c =
     release_responses limit
       (c\<lparr>pending_responses := um_emplace (comp_sequence finished) (comp_payload finished) (pending_responses c),
          inflight := (if inflight c > 0 then inflight c - 1 else inflight c)\<rparr>)"

definition find_connection :: "u64 \<Rightarrow> (int \<times> connection) list \<Rightarrow> int option" where
  "find_connection cid cs = map_option fst (find (\<lambda>(fd, c). conn_id c = cid) cs)"

definition flush_output :: "server_env \<Rightarrow> int \<Rightarrow> unit on_server" where
  "flush_output E fd =
     with_connection fd (\<lambda>c. if conn_output c \<noteq> [] then write_connection E fd else returnS ())"

text \<open>The strand goes on with the next command of the connection, or ends.\<close>

definition continue_strand :: "server_env \<Rightarrow> int \<Rightarrow> unit on_server" where
  "continue_strand E fd =
     with_connection fd (\<lambda>c.
       if command_queue c \<noteq> [] then launch_strand E fd
       else on_connection fd (\<lambda>c. c\<lparr>strand_running := False\<rparr>))"

text \<open>The end of several functions: the connection is closed when nothing is left to do for it.\<close>

definition close_or_update :: "server_env \<Rightarrow> int \<Rightarrow> unit on_server" where
  "close_or_update E fd =
     with_connection fd (\<lambda>c.
       if closing c \<and> conn_output c = [] \<and> inflight c = 0 then close_connection E fd
       else update_interest E fd)"

definition when_connected :: "int \<Rightarrow> unit on_server \<Rightarrow> unit on_server" where
  "when_connected fd m s = (if um_find fd (connections s) = None then (Inr (), s) else m s)"

definition apply_completion :: "server_env \<Rightarrow> completion \<Rightarrow> unit on_server" where
  "apply_completion E finished s =
     (case find_connection (comp_conn finished) (connections s) of
        None \<Rightarrow> (Inr (), s)
      | Some fd \<Rightarrow>
          thenS (on_stats (on_command (comp_error finished)))
            (thenS (on_connection fd (accept_response (max_output_buffer_bytes (srv_config s)) finished))
              (bindS (askS (steady_at E)) (\<lambda>t.
                thenS (on_connection fd (\<lambda>c. c\<lparr>last_activity := t\<rparr>))
                  (thenS (flush_output E fd)
                    (when_connected fd
                      (thenS (continue_strand E fd) (close_or_update E fd))))))) s)"

fun apply_completions :: "server_env \<Rightarrow> completion list \<Rightarrow> unit on_server" where
  "apply_completions E [] = returnS ()"
| "apply_completions E (finished # later) = thenS (apply_completion E finished) (apply_completions E later)"

text \<open>One round of the loop of \<^verbatim>\<open>drain_completions\<close>.\<close>

definition drain_round :: "server_env \<Rightarrow> bool on_server" where
  "drain_round E =
     thenS (interleave E) (bindS (getS completions) (\<lambda>local.
       thenS (modifyS (\<lambda>s. s\<lparr>completions := []\<rparr>))
         (if local = [] then returnS False else thenS (apply_completions E local) (returnS True))))"

lemma wp_when [wp_simps]:
  "wp (when_connected fd m) Q X = (\<lambda>s. if um_find fd (connections s) = None then Q () s else wp m Q X s)"
  by (simp add: fun_eq_iff wp_def when_connected_def)

lemma release_simps [simp]:
  "conn_id (release_responses limit c) = conn_id c"
  "conn_socket (release_responses limit c) = conn_socket c"
  "conn_interest (release_responses limit c) = conn_interest c"
  "conn_parser (release_responses limit c) = conn_parser c"
  "next_request_seq (release_responses limit c) = next_request_seq c"
  "command_queue (release_responses limit c) = command_queue c"
  "strand_running (release_responses limit c) = strand_running c"
  "inflight (release_responses limit c) = inflight c"
  by (induction limit c rule: release_responses.induct)
    (subst release_responses.simps; simp split: option.split)+

lemma flush_output_frame: "wp (flush_output E fd) (\<lambda>_ s'. io_frame s s') (\<lambda>_ _. True) s"
  using write_connection_frame [of E fd s] by (auto simp: flush_output_def wp_simps split: option.split)

lemma continue_strand_frame: "wp (continue_strand E fd) (\<lambda>_ s'. io_frame s s') (\<lambda>_ _. True) s"
proof (cases "um_find fd (connections s)")
  case (Some c)
  have "io_frame s (put_connection fd (c\<lparr>strand_running := False\<rparr>) s)"
    by (rule put_frame [OF Some]) (simp add: conn_work_def)
  then show ?thesis
    using Some by (auto simp: continue_strand_def wp_simps intro!: wp_mono [OF launch_strand_frame])
qed (simp add: continue_strand_def wp_simps)

lemma close_or_update_frame: "wp (close_or_update E fd) (\<lambda>_ s'. io_frame s s') (\<lambda>_ _. True) s"
  using close_connection_frame [of E fd s] update_interest_frame [of E fd s]
  by (auto simp: close_or_update_def wp_simps split: option.split)

lemma apply_completion_frame: "wp (apply_completion E d) (\<lambda>_ s'. io_frame s s') (\<lambda>_ _. True) s"
proof (cases "find_connection (comp_conn d) (connections s)")
  case None
  then show ?thesis by (simp add: wp_def apply_completion_def)
next
  case (Some fd)
  show ?thesis
  proof (cases "um_find fd (connections s)")
    case None
    then show ?thesis using Some
      by (simp add: apply_completion_def wp_def thenS_def bindS_def on_stats_def modifyS_def on_connection_def
          with_connection_def)
  next
    case c: (Some c)
    let ?m = "thenS (flush_output E fd) (when_connected fd (thenS (continue_strand E fd) (close_or_update E fd)))"
    have m: "wp ?m (\<lambda>_ s'. io_frame s s') (\<lambda>_ _. True) s1" if "io_frame s s1" for s1
      using that unfolding wp_then
      by (auto intro!: wp_mono [OF flush_output_frame] wp_mono [OF continue_strand_frame]
          wp_mono [OF close_or_update_frame] intro: io_frame_trans simp: wp_when wp_then)
    define c' where "c' = (accept_response (max_output_buffer_bytes (srv_config s)) d c)
      \<lparr>last_activity := steady_at E (srv_tick s)\<rparr>"
    have "io_frame s (put_connection fd c' (s\<lparr>srv_stats := on_command (comp_error d) (srv_stats s),
        srv_tick := srv_tick s + 1\<rparr>))"
      by (rule put_frame' [OF c]) (simp add: c'_def conn_work_def accept_response_def)
    from m [OF this] show ?thesis
      using Some c by (simp add: wp_def apply_completion_def thenS_def bindS_def on_stats_def modifyS_def
          on_connection_def with_connection_def askS_def c'_def)
  qed
qed

lemma apply_completions_frame: "wp (apply_completions E ds) (\<lambda>_ s'. io_frame s s') (\<lambda>_ _. True) s"
proof (induction ds arbitrary: s)
  case (Cons d ds)
  show ?case
    unfolding apply_completions.simps wp_then
    by (rule wp_mono [OF apply_completion_frame])
      (auto intro!: wp_mono [OF Cons.IH] intro: io_frame_trans)
qed (simp add: wp_simps)

lemma drain_round_frame:
  "wp (drain_round E) (\<lambda>b s'. io_frame s s' \<and> (b \<longrightarrow> server_work s' < server_work s) \<and>
      (\<not> b \<longrightarrow> completions s' = [])) (\<lambda>_ _. True) s"
  unfolding drain_round_def wp_simps
proof (rule wp_mono [OF interleave_background])
  fix s1
  assume "background s s1"
  then have f: "io_frame s s1" using background_frame by blast
  let ?s = "s1\<lparr>completions := []\<rparr>"
  have w: "server_work ?s + length (completions s1) = server_work s1"
    by (simp add: server_work_def job_work_def)
  then have f': "io_frame s ?s" using f by (simp add: io_frame_def)
  have less: "server_work ?s < server_work s1" if "completions s1 \<noteq> []"
    using w that by (cases "completions s1") auto
  have "wp (apply_completions E (completions s1)) (\<lambda>_ s'. io_frame s s' \<and> server_work s' < server_work s)
      (\<lambda>_ _. True) ?s" if "completions s1 \<noteq> []"
    by (rule wp_mono [OF apply_completions_frame])
      (use f f' less [OF that] in \<open>auto simp: io_frame_def\<close>)
  then show "(if completions s1 = [] then \<lambda>s'. io_frame s s' \<and> (False \<longrightarrow> server_work s' < server_work s) \<and>
      (\<not> False \<longrightarrow> completions s' = [])
      else wp (apply_completions E (completions s1)) (\<lambda>_ s'. io_frame s s' \<and>
        (True \<longrightarrow> server_work s' < server_work s) \<and> (\<not> True \<longrightarrow> completions s' = [])) (\<lambda>_ _. True)) ?s"
    using f' by simp
qed simp

function drain_completions :: "server_env \<Rightarrow> unit on_server" where
  "drain_completions E s =
     (case drain_round E s of
        (Inl x, s') \<Rightarrow> (Inl x, s')
      | (Inr b, s') \<Rightarrow> if b then drain_completions E s' else (Inr (), s'))"
  by pat_completeness auto
termination
proof (relation "measure (\<lambda>(E, s). server_work s)")
  fix E s r s' b
  assume "(r, s') = drain_round E s" and "r = Inr b" and "b"
  then show "((E, s'), E, s) \<in> measure (\<lambda>(E, s). server_work s)"
    using wp_result(1) [OF drain_round_frame, of E s b s'] by auto
qed simp

declare drain_completions.simps [simp del]

lemma drain_completions_frame:
  "wp (drain_completions E) (\<lambda>_ s'. io_frame s s' \<and> completions s' = []) (\<lambda>_ _. True) s"
proof (rule wp_loop [where I = "io_frame s" and m = server_work])
  fix s'
  assume "io_frame s s'"
  then show "wp (drain_round E) (\<lambda>b s''. if b then io_frame s s'' \<and> server_work s'' < server_work s'
      else io_frame s s'' \<and> completions s'' = []) (\<lambda>_ _. True) s'"
    by (intro wp_mono [OF drain_round_frame]) (auto intro: io_frame_trans)
qed (simp_all add: drain_completions.simps)

end
