(* ===== verification/Server_Loop.thy ===== *)
theory Server_Loop
  imports Server_IO
begin

text \<open>
  The rest of \<^verbatim>\<open>src/server/server.cpp\<close>: accepting connections, the dispatch of events, the timed
  work, the event loop \<^verbatim>\<open>run\<close>, the constructor and the destructor.
\<close>

section \<open>Accepting\<close>

definition new_connection :: "u64 \<Rightarrow> net_socket \<Rightarrow> parser_limits \<Rightarrow> int \<Rightarrow> connection" where
  "new_connection cid sock l t =
     \<lparr>conn_id = cid, conn_socket = sock, conn_interest = interest_read, conn_output = [],
      conn_parser = new_parser l, next_request_seq = 0, next_response_seq = 0, pending_responses = [],
      command_queue = [], strand_running = False, inflight = 0, read_closed = False, closing = False,
      last_activity = t\<rparr>"

text \<open>What \<^verbatim>\<open>accept_ready\<close> does with a socket that was accepted.\<close>

definition register_connection :: "server_env \<Rightarrow> net_socket \<Rightarrow> unit on_server" where
  "register_connection E sock =
     bindS (getS next_connection_id) (\<lambda>cid.
       thenS (modifyS (\<lambda>s. s\<lparr>next_connection_id := cid + 1\<rparr>))
         (bindS (askS (steady_at E)) (\<lambda>t.
           bindS (askS (os_at E)) (\<lambda>os.
             thenS (on_reactor (reactor_add os (native_handle sock) interest_read))
               (modifyS (\<lambda>s. put_connection (native_handle sock)
                  (new_connection cid sock (cfg_parser_limits (srv_config s)) t)
                  (s\<lparr>srv_stats := on_accept (srv_stats s)\<rparr>)))))))"

definition admit_connection :: "server_env \<Rightarrow> net_socket \<Rightarrow> unit on_server" where
  "admit_connection E sock =
     bindS (askS (os_at E)) (\<lambda>os.
       case fst (set_nonblocking os True sock) of
         Inl x \<Rightarrow> throwS x
       | Inr _ \<Rightarrow>
           thenS (register_connection E (snd (set_nonblocking os True sock)))
             (thenS (read_connection E (native_handle sock))
               (thenS (drain_completions E)
                 (when_connected (native_handle sock) (close_or_update E (native_handle sock))))))"

text \<open>One round of the loop of \<^verbatim>\<open>accept_ready\<close>.\<close>

definition accept_call :: "server \<Rightarrow> net_socket option result \<times> accept_outcome list" where
  "accept_call s =
     (case try_accept (srv_accepts s) (native_handle (srv_listener s) # map fst (connections s)) of
        (r, later, _) \<Rightarrow> (r, later))"

definition accept_round :: "server_env \<Rightarrow> bool on_server" where
  "accept_round E =
     thenS (interleave E) (\<lambda>s.
       if srv_stopping s \<or> length (connections s) \<ge> max_connections (srv_config s) then (Inr False, s)
       else case accept_call s of
         (Inl x, later) \<Rightarrow> (Inl (Thrown x), s\<lparr>srv_accepts := later\<rparr>)
       | (Inr None, later) \<Rightarrow> (Inr False, s\<lparr>srv_accepts := later\<rparr>)
       | (Inr (Some sock), later) \<Rightarrow>
           thenS (admit_connection E sock) (returnS True) (s\<lparr>srv_accepts := later\<rparr>))"

lemma wp_reactor [wp_simps]:
  "wp (on_reactor f) Q X = (\<lambda>s. case f (srv_reactor s) of
     (Inl x, k) \<Rightarrow> X (Thrown x) (s\<lparr>srv_reactor := k\<rparr>) | (Inr _, k) \<Rightarrow> Q () (s\<lparr>srv_reactor := k\<rparr>))"
  by (auto simp: fun_eq_iff wp_def on_reactor_def split: prod.split sum.split)

lemma register_connection_accepts:
  "wp (register_connection E sock) (\<lambda>_ s'. srv_accepts s' = srv_accepts s) (\<lambda>_ _. True) s"
  by (auto simp: register_connection_def wp_simps split: prod.split sum.split)

lemma admit_connection_accepts:
  "wp (admit_connection E sock) (\<lambda>_ s'. srv_accepts s' = srv_accepts s) (\<lambda>_ _. True) s"
proof -
  let ?fd = "native_handle sock"
  let ?m = "thenS (read_connection E ?fd) (thenS (drain_completions E)
      (when_connected ?fd (close_or_update E ?fd)))"
  have m: "wp ?m (\<lambda>_ s'. srv_accepts s' = srv_accepts s) (\<lambda>_ _. True) s1" if "srv_accepts s1 = srv_accepts s" for s1
    using that unfolding wp_then
    by (auto intro!: wp_mono [OF read_connection_frame] wp_mono [OF drain_completions_frame]
        wp_mono [OF close_or_update_frame] simp: wp_when io_frame_def)
  show ?thesis
    unfolding admit_connection_def wp_bind wp_ask
    using m by (auto simp: wp_throw wp_then intro!: wp_mono [OF register_connection_accepts] split: sum.split)
qed

lemma accept_round_accepts:
  "wp (accept_round E) (\<lambda>b s'. b \<longrightarrow> length (srv_accepts s') < length (srv_accepts s)) (\<lambda>_ _. True) s"
  unfolding accept_round_def wp_then
proof (rule wp_mono [OF interleave_background])
  fix s1
  assume "background s s1"
  then have a: "srv_accepts s1 = srv_accepts s" by (simp add: background_def)
  obtain r later where r: "accept_call s1 = (r, later)" by fastforce
  have len: "length later < length (srv_accepts s)" if "r = Inr (Some sock)" for sock
    using try_accept_shrinks [of "srv_accepts s1"] r that a by (auto simp: accept_call_def split: prod.splits)
  have "wp (thenS (admit_connection E sock) (returnS True))
      (\<lambda>b s'. b \<longrightarrow> length (srv_accepts s') < length (srv_accepts s)) (\<lambda>_ _. True) (s1\<lparr>srv_accepts := later\<rparr>)"
    if "r = Inr (Some sock)" for sock
    unfolding wp_then
    by (rule wp_mono [OF admit_connection_accepts]) (use len [OF that] in \<open>auto simp: wp_return\<close>)
  then show "wp (\<lambda>s. if srv_stopping s \<or> length (connections s) \<ge> max_connections (srv_config s) then (Inr False, s)
       else case accept_call s of
         (Inl x, later) \<Rightarrow> (Inl (Thrown x), s\<lparr>srv_accepts := later\<rparr>)
       | (Inr None, later) \<Rightarrow> (Inr False, s\<lparr>srv_accepts := later\<rparr>)
       | (Inr (Some sock), later) \<Rightarrow>
           thenS (admit_connection E sock) (returnS True) (s\<lparr>srv_accepts := later\<rparr>))
     (\<lambda>b s'. b \<longrightarrow> length (srv_accepts s') < length (srv_accepts s)) (\<lambda>_ _. True) s1"
    using r by (auto simp: wp_def split: sum.split option.split)
qed simp

function accept_ready :: "server_env \<Rightarrow> unit on_server" where
  "accept_ready E s =
     (case accept_round E s of
        (Inl x, s') \<Rightarrow> (Inl x, s')
      | (Inr b, s') \<Rightarrow> if b then accept_ready E s' else (Inr (), s'))"
  by pat_completeness auto
termination
proof (relation "measure (\<lambda>(E, s). length (srv_accepts s))")
  fix E s r s' b
  assume "(r, s') = accept_round E s" and "r = Inr b" and "b"
  then show "((E, s'), E, s) \<in> measure (\<lambda>(E, s). length (srv_accepts s))"
    using wp_result(1) [OF accept_round_accepts, of E s b s'] by auto
qed simp

declare accept_ready.simps [simp del]

section \<open>Events\<close>

definition readable_event :: "server_env \<Rightarrow> int \<Rightarrow> bool \<Rightarrow> unit on_server" where
  "readable_event E fd readable =
     (if readable then thenS (read_connection E fd) (drain_completions E) else returnS ())"

definition writable_event :: "server_env \<Rightarrow> int \<Rightarrow> bool \<Rightarrow> unit on_server" where
  "writable_event E fd writable = (if writable then write_connection E fd else returnS ())"

definition handle_connection_event :: "server_env \<Rightarrow> fired_event \<Rightarrow> unit on_server" where
  "handle_connection_event E ev =
     (let fd = fired_fd ev in
      when_connected fd
        (if fired_error ev then close_connection E fd
         else thenS (readable_event E fd (has_interest (fired_ready ev) interest_read \<or> fired_hangup ev))
           (when_connected fd
             (thenS (writable_event E fd (has_interest (fired_ready ev) interest_write))
               (when_connected fd (close_or_update E fd))))))"

fun handle_events :: "server_env \<Rightarrow> fired_event list \<Rightarrow> unit on_server" where
  "handle_events E [] = returnS ()"
| "handle_events E (ev # evs) =
     bindS (getS srv_listener) (\<lambda>listener.
       thenS (if fired_fd ev = native_handle listener then accept_ready E else handle_connection_event E ev)
         (handle_events E evs))"

section \<open>Timed work\<close>

definition run_expiry_cycle :: "server_env \<Rightarrow> unit on_server" where
  "run_expiry_cycle E =
     bindS (askS (command_at E)) (\<lambda>X s.
       case active_expire_cycle (draw E) (clock0 X) 20 (srv_generator s) (srv_store s) of
         Inl x \<Rightarrow> (Inl (Thrown x), s)
       | Inr (expired, g, st) \<Rightarrow>
           (Inr (), s\<lparr>srv_generator := g, srv_store := st,
              srv_stats := (if expired > 0 then add_expired (of_nat expired) (srv_stats s) else srv_stats s)\<rparr>))"

definition run_active_expiry :: "server_env \<Rightarrow> unit on_server" where
  "run_active_expiry E =
     bindS (getS srv_config) (\<lambda>cfg.
       if active_expiry_hz cfg \<le> 0 then returnS ()
       else bindS (askS (steady_at E)) (\<lambda>t.
         bindS (getS next_expiry_tick) (\<lambda>next_tick.
           if t < next_tick then returnS ()
           else thenS (modifyS (\<lambda>s. s\<lparr>next_expiry_tick := t + 1000 div max 1 (active_expiry_hz cfg) * 1000000\<rparr>))
             (run_expiry_cycle E))))"

fun close_all :: "server_env \<Rightarrow> int list \<Rightarrow> unit on_server" where
  "close_all E [] = returnS ()"
| "close_all E (fd # fds) = thenS (close_connection E fd) (close_all E fds)"

definition close_idle_connections :: "server_env \<Rightarrow> unit on_server" where
  "close_idle_connections E =
     bindS (getS srv_config) (\<lambda>cfg.
       if idle_timeout cfg \<le> 0 then returnS ()
       else bindS (askS (steady_at E)) (\<lambda>t.
         bindS (getS connections) (\<lambda>cs.
           close_all E (map fst (filter
             (\<lambda>(fd, c). last_activity c < t - seconds_ns (idle_timeout cfg) \<and> inflight c = 0) cs)))))"

text \<open>The snapshot that may be due; what it throws is ignored.\<close>

definition snapshot_if_due :: "server_env \<Rightarrow> unit on_server" where
  "snapshot_if_due E =
     bindS (askS (command_at E)) (\<lambda>X. bindS (askS (os_at E)) (\<lambda>os'. bindS (askS (steady_at E)) (\<lambda>t s.
       case srv_persistence s of
         None \<Rightarrow> (Inr (), s)
       | Some e \<Rightarrow>
           (case maybe_snapshot (env_os X) os' (env_abi X) (clock0 X) t (steady_now X) e (srv_store s) of
              (_, e', st) \<Rightarrow> (Inr (), s\<lparr>srv_persistence := Some e', srv_store := st\<rparr>)))))"

section \<open>The event loop\<close>

definition wait_timeout :: "server_env \<Rightarrow> int option on_server" where
  "wait_timeout E =
     bindS (getS srv_config) (\<lambda>cfg.
       if active_expiry_hz cfg > 0
       then bindS (askS (steady_at E)) (\<lambda>t. getS (\<lambda>s.
         Some (if t \<ge> next_expiry_tick s then 0 else (next_expiry_tick s - t) div 1000000)))
       else returnS (Some 100))"

definition serve_events :: "server_env \<Rightarrow> fired_event list \<Rightarrow> unit on_server" where
  "serve_events E events =
     thenS (drain_completions E)
       (thenS (handle_events E events)
         (thenS (drain_completions E)
           (thenS (run_active_expiry E)
             (thenS (close_idle_connections E)
               (thenS (snapshot_if_due E)
                 (modifyS (\<lambda>s. s\<lparr>srv_stats := set_used_memory (approximate_memory (srv_store s)) (srv_stats s)\<rparr>)))))))"

text \<open>One round of the loop of \<^verbatim>\<open>run\<close>; \<open>kq\<close> is what the kernel answers to the wait.\<close>

definition after_wait :: "server_env \<Rightarrow> fired_event list \<Rightarrow> bool on_server" where
  "after_wait E events =
     thenS (interleave E) (bindS (getS srv_stopping) (\<lambda>stop.
       if stop then returnS False else thenS (serve_events E events) (returnS True)))"

definition run_round :: "server_env \<Rightarrow> kevent_wait \<Rightarrow> bool on_server" where
  "run_round E kq =
     thenS (interleave E) (bindS (getS srv_stopping) (\<lambda>stop.
       if stop then returnS False
       else bindS (wait_timeout E) (\<lambda>timeout.
         case reactor_wait kq 64 timeout of
           Inl x \<Rightarrow> throwS x
         | Inr events \<Rightarrow> after_wait E events)))"

text \<open>
  The end of \<^verbatim>\<open>run\<close>: the connections are closed and the pool is shut down. \<open>None\<close> means that the
  join still waits for a worker.
\<close>

definition join_workers :: "server_env \<Rightarrow> server \<Rightarrow> (failure + unit) option \<times> server" where
  "join_workers E s =
     (case begin_shutdown (srv_workers s) of
        (False, _) \<Rightarrow> (Some (Inr ()), s)
      | (True, p) \<Rightarrow>
          (case interleave E (s\<lparr>srv_workers := p\<rparr>) of
             (Inl x, s') \<Rightarrow> (Some (Inl x), s')
           | (Inr _, s') \<Rightarrow>
               if list_all (\<lambda>w. w = Returned) (pool_workers (srv_workers s'))
               then (Some (Inr ()), s'\<lparr>srv_workers := end_shutdown (srv_workers s')\<rparr>)
               else (None, s')))"

definition run_end :: "server_env \<Rightarrow> server \<Rightarrow> (failure + unit) option \<times> server" where
  "run_end E s =
     (case close_all E (map fst (connections s)) s of
        (Inl x, s') \<Rightarrow> (Some (Inl x), s')
      | (Inr _, s') \<Rightarrow> join_workers E s')"

text \<open>
  \<^verbatim>\<open>run\<close>, with the answers to the coming waits. When they are used up the server is still running:
  \<open>None\<close>.
\<close>

fun run_loop :: "server_env \<Rightarrow> kevent_wait list \<Rightarrow> server \<Rightarrow> (failure + unit) option \<times> server" where
  "run_loop E [] s = (None, s)"
| "run_loop E (kq # kqs) s =
     (case run_round E kq s of
        (Inl x, s') \<Rightarrow> (Some (Inl x), s')
      | (Inr b, s') \<Rightarrow> if b then run_loop E kqs s' else run_end E s')"

section \<open>Construction and destruction\<close>

text \<open>
  What the constructor finds: the resolver, the name of the bound socket, the number of hardware
  threads, the files in the data directory, and the outcomes of system calls.
\<close>

record server_setup =
  setup_resolver :: resolver
  setup_fds :: "int list"
  setup_sockname :: sockname
  setup_hardware :: nat
  setup_os :: os
  setup_os' :: os
  setup_abi :: abi
  setup_clock :: clock_reading
  setup_steady :: int
  setup_clocks :: "nat \<Rightarrow> clock_reading"
  setup_wal :: string
  setup_dir :: data_dir
  setup_accepts :: "accept_outcome list"
  setup_schedule :: "thread_step list list"

definition open_storage :: "server_setup \<Rightarrow> server_config \<Rightarrow> (engine option \<times> store) result" where
  "open_storage u cfg =
     (if persistence_enabled cfg
      then bindE (open_database (setup_os u) (setup_os' u) (setup_abi u)
          \<lparr>data_dir_path = cfg_data_dir cfg, fsync_mode = cfg_fsync cfg,
           snapshot_interval_seconds = cfg_snapshot_interval cfg\<rparr>
          (cfg_shards cfg) (setup_clock u) (setup_steady u) (setup_clocks u) (setup_wal u) (setup_dir u))
        (\<lambda>(e, st). Inr (Some e, st))
      else bindE (new_store (cfg_shards cfg) (Some (setup_clock u))) (\<lambda>st. Inr (None, st)))"

definition new_server :: "server_setup \<Rightarrow> server_config \<Rightarrow> server result" where
  "new_server u cfg =
     bindE (fst (socket_listen (setup_resolver u) (cfg_host cfg) (cfg_port cfg) (cfg_backlog cfg) (setup_fds u)))
       (\<lambda>listener. bindE (local_port (setup_os u) (setup_sockname u))
       (\<lambda>port. bindE (create_reactor (setup_os u))
       (\<lambda>k. bindE (new_store (cfg_shards cfg) (Some (setup_clock u)))
       (\<lambda>_. bindE (new_thread_pool (default_worker_count (setup_hardware u) (cfg_workers cfg)) (worker_queue_limit cfg))
       (\<lambda>pool. bindE (open_storage u cfg)
       (\<lambda>(e, st). bindE (fst (set_nonblocking (setup_os u) True listener))
       (\<lambda>_. bindE (fst (reactor_add (setup_os u) (native_handle listener) interest_read k))
       (\<lambda>_. Inr
         \<lparr>srv_config = cfg, srv_listener = snd (set_nonblocking (setup_os u) True listener),
          srv_bound_port = port,
          srv_reactor = snd (reactor_add (setup_os u) (native_handle listener) interest_read k),
          srv_store = st, srv_stats = new_stats, srv_persistence = e, srv_workers = pool, connections = [],
          completions = [], srv_stopping = False, next_connection_id = 1,
          next_expiry_tick = setup_steady u, srv_accepts = setup_accepts u, srv_generator = 0,
          srv_schedule = setup_schedule u, srv_tick = 0, srv_history = []\<rparr>))))))))"

text \<open>The destructor; what the shutdown of the engine throws is ignored.\<close>

definition destroy_server :: "os \<Rightarrow> os \<Rightarrow> abi \<Rightarrow> clock_reading \<Rightarrow> server \<Rightarrow> server" where
  "destroy_server os os' A c s =
     (let s' = server_stop s in
      case srv_persistence s' of
        None \<Rightarrow> s'
      | Some e \<Rightarrow>
          (case shutdown os os' A c e (srv_store s') of
             (_, _, st) \<Rightarrow> s'\<lparr>srv_store := st, srv_persistence := None\<rparr>))"

end
