(* ===== verification/Server_Laws.thy ===== *)
theory Server_Laws
  imports Server_Loop
begin

text \<open>
  The invariant of the server. A connection has at most one command under way in the pool; the
  requests it has received are, in order, those executed, the one under way and those queued; and
  what it has sent or still holds for sending are the replies of the executed ones. What the
  commands do to the store is left to a predicate that the locale \<open>ledger\<close> fixes.
\<close>

section \<open>Frames of a byte stream\<close>

inductive request_frames :: "parser_limits \<Rightarrow> string \<Rightarrow> resp_value list \<Rightarrow> string \<Rightarrow> bool" for l where
  none: "request_frames l rest [] rest"
| frame: "vr_status (parse_value bytes 0 l) = Complete \<Longrightarrow> vr_value (parse_value bytes 0 l) = Some v \<Longrightarrow>
    request_frames l (drop (vr_consumed (parse_value bytes 0 l)) bytes) vs rest \<Longrightarrow> request_frames l bytes (v # vs) rest"

lemma request_frames_more: "request_frames l bytes vs rest \<Longrightarrow> request_frames l (bytes @ new) vs (rest @ new)"
proof (induction rule: request_frames.induct)
  case (frame bytes v vs rest)
  have same: "parse_value (bytes @ new) 0 l = parse_value bytes 0 l"
    using parse_value_keeps [of bytes 0 l new] frame.hyps(1) by (simp add: keeps_def)
  have "vr_consumed (parse_value bytes 0 l) \<le> length bytes"
    using parse_value_good [of l 0 bytes] frame.hyps(1) by (auto simp: good_complete_def)
  then show ?case
    using frame by (intro request_frames.frame) (simp_all add: same)
qed (rule request_frames.none)

lemma framed_snoc:
  assumes "request_frames l bytes vs rest" and "vr_status (parse_value rest 0 l) = Complete"
    and "vr_value (parse_value rest 0 l) = Some v"
  shows "request_frames l bytes (vs @ [v]) (drop (vr_consumed (parse_value rest 0 l)) rest)"
  using assms
proof (induction rule: request_frames.induct)
  case (none rest)
  then show ?case by (simp add: request_frames.frame request_frames.none)
next
  case (frame bytes w vs rest)
  then show ?case by (simp add: request_frames.frame)
qed

section \<open>Jobs under way\<close>

fun job_conn :: "job \<Rightarrow> u64" where
  "job_conn (Execute cid seq request) = cid"
| "job_conn (Publish d) = comp_conn d"

fun job_sequence :: "job \<Rightarrow> u64" where
  "job_sequence (Execute cid seq request) = seq"
| "job_sequence (Publish d) = comp_sequence d"

text \<open>The request of a job that is not yet executed, and the reply of one that is.\<close>

fun job_request :: "job option \<Rightarrow> resp_value list" where
  "job_request (Some (Execute cid seq request)) = [request]"
| "job_request _ = []"

fun job_reply :: "job option \<Rightarrow> string" where
  "job_reply (Some (Publish d)) = comp_payload d"
| "job_reply _ = []"

definition job_mset :: "job option \<Rightarrow> job multiset" where
  "job_mset jo = (case jo of None \<Rightarrow> {#} | Some j \<Rightarrow> {#j#})"

lemma size_job_mset: "size (job_mset jo) = (if jo = None then 0 else 1)"
  by (simp add: job_mset_def split: option.split)

definition open_jobs :: "server \<Rightarrow> job multiset" where
  "open_jobs s = mset (jobs (srv_workers s)) + mset (running_jobs (pool_workers (srv_workers s))) +
     mset (map Publish (completions s))"

section \<open>The invariant of a connection\<close>

fun queue_numbered :: "u64 \<Rightarrow> queued_command list \<Rightarrow> bool" where
  "queue_numbered n [] = True"
| "queue_numbered n (item # items) = (q_sequence item = n \<and> queue_numbered (n + 1) items)"

lemma queue_numbered_snoc [simp]:
  "queue_numbered n (items @ [item]) \<longleftrightarrow> queue_numbered n items \<and> q_sequence item = n + of_nat (length items)"
  by (induction n items rule: queue_numbered.induct) (auto simp: algebra_simps)

text \<open>For a connection that is not closing: \<open>H\<close> are its executed commands, \<open>jo\<close> the job under way.\<close>

definition conn_line :: "parser_limits \<Rightarrow> job option \<Rightarrow> execution list \<Rightarrow> connection \<Rightarrow> bool" where
  "conn_line l jo H c \<longleftrightarrow>
     pending_responses c = [] \<and> limits (conn_parser c) = l \<and> \<not> buffer_oversized (conn_parser c) \<and>
     (\<forall>j. jo = Some j \<longrightarrow> job_sequence j = next_response_seq c) \<and>
     (\<forall>d. jo = Some (Publish d) \<longrightarrow> H \<noteq> [] \<and> ex_payload (last H) = comp_payload d) \<and>
     queue_numbered (next_response_seq c + of_nat (size (job_mset jo))) (command_queue c) \<and>
     next_request_seq c = next_response_seq c + of_nat (size (job_mset jo) + length (command_queue c)) \<and>
     sent (conn_socket c) @ conn_output c @ job_reply jo = concat (map ex_payload H) \<and>
     request_frames l (received (conn_socket c)) (map ex_request H @ job_request jo @ map q_request (command_queue c))
       (buffer (conn_parser c))"

text \<open>
  For every connection; in a hole, the strand has taken its job back and not yet gone on.
\<close>

definition conn_ok :: "server_config \<Rightarrow> bool \<Rightarrow> job option \<Rightarrow> execution list \<Rightarrow> connection \<Rightarrow> bool" where
  "conn_ok cfg hole jo H c \<longleftrightarrow>
     inflight c = size (job_mset jo) + length (command_queue c) \<and>
     (if hole then jo = None
      else (strand_running c \<longleftrightarrow> jo \<noteq> None) \<and> (jo = None \<longrightarrow> command_queue c = [])) \<and>
     length (conn_output c) \<le> max_output_buffer_bytes cfg + (if closing c then length protocol_error else 0) \<and>
     (\<not> closing c \<longrightarrow> conn_line (cfg_parser_limits cfg) jo H c)"

definition conn_inv :: "server_config \<Rightarrow> u64 option \<Rightarrow> job multiset \<Rightarrow> execution list \<Rightarrow> connection \<Rightarrow> bool" where
  "conn_inv cfg hole M H c \<longleftrightarrow>
     (\<exists>jo. filter_mset (\<lambda>j. job_conn j = conn_id c) M = job_mset jo \<and>
       conn_ok cfg (hole = Some (conn_id c)) jo (filter (\<lambda>x. ex_conn x = conn_id c) H) c)"

definition conns_inv ::
    "server_config \<Rightarrow> u64 option \<Rightarrow> job multiset \<Rightarrow> execution list \<Rightarrow> (int \<times> connection) list \<Rightarrow> bool" where
  "conns_inv cfg hole M H cs \<longleftrightarrow>
     um_wf cs \<and> distinct (map (conn_id \<circ> snd) cs) \<and>
     (\<forall>fd c. um_find fd cs = Some c \<longrightarrow> descriptor (conn_socket c) = fd \<and> conn_inv cfg hole M H c)"

text \<open>A changed connection, with what changes in the jobs, the history and the hole being its own.\<close>

lemma conn_inv_other:
  assumes "conn_inv cfg h M H c" and "h = h' \<or> h \<noteq> Some (conn_id c) \<and> h' \<noteq> Some (conn_id c)"
    and "filter_mset (\<lambda>j. job_conn j = conn_id c) M' = filter_mset (\<lambda>j. job_conn j = conn_id c) M"
    and "filter (\<lambda>x. ex_conn x = conn_id c) H' = filter (\<lambda>x. ex_conn x = conn_id c) H"
  shows "conn_inv cfg h' M' H' c"
  using assms by (auto simp: conn_inv_def)

lemma um_ids_store:
  "um_find fd cs = Some c \<Longrightarrow> conn_id c' = conn_id c \<Longrightarrow>
   map (conn_id \<circ> snd) (um_store fd c' cs) = map (conn_id \<circ> snd) cs"
  by (induction fd c' cs rule: um_store.induct) (auto split: if_splits)

lemma um_ids_distinct:
  assumes "um_wf cs" and "distinct (map (conn_id \<circ> snd) cs)"
    and "um_find fd cs = Some c" and "um_find fd' cs = Some c'" and "conn_id c = conn_id c'"
  shows "fd = fd'"
proof -
  have "(fd, c) \<in> set cs" "(fd', c') \<in> set cs"
    using assms um.find_entries [OF assms(1)] by auto
  then show ?thesis
    using assms(2,5) unfolding distinct_map inj_on_def by force
qed

lemma conns_inv_put:
  assumes inv: "conns_inv cfg h M H cs" and c: "um_find fd cs = Some c"
    and id: "conn_id c' = conn_id c" and d: "descriptor (conn_socket c') = descriptor (conn_socket c)"
    and new: "conn_inv cfg h' M' H' c'"
    and hole: "h = h' \<or> (h \<in> {None, Some (conn_id c)} \<and> h' \<in> {None, Some (conn_id c)})"
    and M: "\<And>cid. cid \<noteq> conn_id c \<Longrightarrow>
      filter_mset (\<lambda>j. job_conn j = cid) M' = filter_mset (\<lambda>j. job_conn j = cid) M"
    and H: "\<And>cid. cid \<noteq> conn_id c \<Longrightarrow> filter (\<lambda>x. ex_conn x = cid) H' = filter (\<lambda>x. ex_conn x = cid) H"
  shows "conns_inv cfg h' M' H' (um_store fd c' cs)"
proof -
  have wf: "um_wf cs" and dist: "distinct (map (conn_id \<circ> snd) cs)"
    using inv by (simp_all add: conns_inv_def)
  have "conn_inv cfg h' M' H' e \<and> descriptor (conn_socket e) = fe" if "um_find fe cs = Some e" "fe \<noteq> fd" for fe e
  proof -
    have ne: "conn_id e \<noteq> conn_id c" using um_ids_distinct [OF wf dist c that(1)] that(2) by auto
    have e: "conn_inv cfg h M H e" "descriptor (conn_socket e) = fe"
      using inv that(1) by (simp_all add: conns_inv_def)
    have "h = h' \<or> h \<noteq> Some (conn_id e) \<and> h' \<noteq> Some (conn_id e)" using hole ne by auto
    from conn_inv_other [OF e(1) this M [OF ne] H [OF ne]] e(2) show ?thesis by simp
  qed
  then show ?thesis
    using inv c id d new wf dist um_ids_store [OF c id]
    by (auto simp: conns_inv_def um.wf_store um_find_store)
qed

lemma conns_inv_get:
  assumes "conns_inv cfg h M H cs" and "um_find fd cs = Some c"
  obtains jo where "filter_mset (\<lambda>j. job_conn j = conn_id c) M = job_mset jo"
    and "conn_ok cfg (h = Some (conn_id c)) jo (filter (\<lambda>x. ex_conn x = conn_id c) H) c"
    and "descriptor (conn_socket c) = fd"
  using assms by (auto simp: conns_inv_def conn_inv_def)

text \<open>A change that concerns neither jobs nor history.\<close>

lemma conns_inv_update:
  assumes inv: "conns_inv cfg h M H cs" and c: "um_find fd cs = Some c"
    and id: "conn_id c' = conn_id c" and d: "descriptor (conn_socket c') = descriptor (conn_socket c)"
    and ok: "\<And>jo H. conn_ok cfg (h = Some (conn_id c)) jo H c \<Longrightarrow> conn_ok cfg (h = Some (conn_id c)) jo H c'"
  shows "conns_inv cfg h M H (um_store fd c' cs)"
proof (rule conns_inv_put [OF inv c id d])
  obtain jo where "filter_mset (\<lambda>j. job_conn j = conn_id c) M = job_mset jo"
    "conn_ok cfg (h = Some (conn_id c)) jo (filter (\<lambda>x. ex_conn x = conn_id c) H) c"
    using conns_inv_get [OF inv c] by blast
  with ok show "conn_inv cfg h M H c'" by (auto simp: conn_inv_def id)
qed simp_all

text \<open>Executing a job: its request moves to the history, its reply into the job.\<close>

lemma job_mset_cases:
  assumes "job_mset jo = N + {#j#}"
  shows "jo = Some j \<and> N = {#}"
  using assms by (auto simp: job_mset_def split: option.splits)

lemma conn_ok_execute:
  assumes "conn_ok cfg hole (Some (Execute cid seq request)) H c"
    and "comp_sequence d = seq" and "ex_request x = request" and "ex_payload x = comp_payload d"
  shows "conn_ok cfg hole (Some (Publish d)) (H @ [x]) c"
  using assms by (auto simp: conn_ok_def conn_line_def size_job_mset)

lemma conns_inv_execute:
  assumes inv: "conns_inv cfg h (M + {#Execute cid seq request#}) H cs"
    and d: "comp_conn d = cid" "comp_sequence d = seq"
    and x: "ex_conn x = cid" "ex_request x = request" "ex_payload x = comp_payload d"
  shows "conns_inv cfg h (M + {#Publish d#}) (H @ [x]) cs"
proof -
  have "conn_inv cfg h (M + {#Publish d#}) (H @ [x]) c" if c: "um_find fd cs = Some c" for fd c
  proof -
    obtain jo where jo: "filter_mset (\<lambda>j. job_conn j = conn_id c) (M + {#Execute cid seq request#}) = job_mset jo"
      "conn_ok cfg (h = Some (conn_id c)) jo (filter (\<lambda>x. ex_conn x = conn_id c) H) c"
      using conns_inv_get [OF inv c] by blast
    show ?thesis
    proof (cases "conn_id c = cid")
      case True
      then have "filter_mset (\<lambda>j. job_conn j = cid) M + {#Execute cid seq request#} = job_mset jo"
        using jo(1) by simp
      then have "jo = Some (Execute cid seq request)" "filter_mset (\<lambda>j. job_conn j = cid) M = {#}"
        using job_mset_cases [of jo] by metis+
      then show ?thesis
        using True jo(2) d x conn_ok_execute [of cfg "h = Some cid" cid seq request _ c d x]
        unfolding conn_inv_def by (intro exI [of _ "Some (Publish d)"]) (simp add: job_mset_def)
    next
      case False
      then show ?thesis using jo d x unfolding conn_inv_def by auto
    qed
  qed
  then show ?thesis using inv by (auto simp: conns_inv_def)
qed

lemma conns_inv_erase:
  assumes inv: "conns_inv cfg h M H cs"
  shows "conns_inv cfg h M H (um_erase fd cs)"
proof -
  have "distinct (map (conn_id \<circ> snd) cs) \<Longrightarrow> distinct (map (conn_id \<circ> snd) (um_erase fd cs)) \<and>
      set (map (conn_id \<circ> snd) (um_erase fd cs)) \<subseteq> set (map (conn_id \<circ> snd) cs)"
    by (induction fd cs rule: um_erase.induct) auto
  then show ?thesis
    using inv by (auto simp: conns_inv_def um.wf_erase um.find_erase split: if_splits)
qed

text \<open>A job of a connection that is gone may be dropped.\<close>

lemma conns_inv_drop:
  assumes inv: "conns_inv cfg h (M + {#j#}) H cs"
    and gone: "\<And>fd c. um_find fd cs = Some c \<Longrightarrow> conn_id c \<noteq> job_conn j"
  shows "conns_inv cfg h M H cs"
proof -
  have "conn_inv cfg h M H c" if "um_find fd cs = Some c" for fd c
  proof -
    have "conn_inv cfg h (M + {#j#}) H c" using inv that by (simp add: conns_inv_def)
    then show ?thesis by (rule conn_inv_other) (use gone [OF that] in auto)
  qed
  then show ?thesis using inv by (auto simp: conns_inv_def)
qed

section \<open>What each step does to a connection\<close>

text \<open>Launching: the first queued command becomes the job under way.\<close>

definition pop_command :: "queued_command list \<Rightarrow> connection \<Rightarrow> connection" where
  "pop_command rest c = c\<lparr>command_queue := rest, strand_running := True\<rparr>"

lemma conn_ok_pop:
  assumes "conn_ok cfg True jo H c" and "command_queue c = item # rest"
  shows "conn_ok cfg False (Some (Execute (conn_id c) (q_sequence item) (q_request item))) H (pop_command rest c)"
  using assms by (auto simp: conn_ok_def conn_line_def size_job_mset pop_command_def algebra_simps)

lemma conn_ok_idle:
  assumes "conn_ok cfg True jo H c" and "command_queue c = []"
  shows "conn_ok cfg False None H (c\<lparr>strand_running := False\<rparr>)"
  using assms by (auto simp: conn_ok_def conn_line_def size_job_mset)

text \<open>A parsed request is queued.\<close>

lemma parser_next_complete:
  assumes "parser_next p = (r, q)" and "pr_status r = Complete" and "pr_value r = Some v"
  shows "\<not> buffer_oversized p \<and> vr_status (parse_value (buffer p) 0 (limits p)) = Complete \<and>
    vr_value (parse_value (buffer p) 0 (limits p)) = Some v \<and> limits q = limits p \<and>
    \<not> buffer_oversized q \<and> buffer q = drop (vr_consumed (parse_value (buffer p) 0 (limits p))) (buffer p)"
  using assms by (auto simp: parser_next_def Let_def split: if_splits)

lemma conn_ok_queue:
  assumes ok: "conn_ok cfg False jo H c" and open_c: "\<not> closing c"
    and p: "parser_next (conn_parser c) = (r, q)" "pr_status r = Complete" "pr_value r = Some v"
  shows "conn_ok cfg (\<not> strand_running c) jo H (queue_command v (c\<lparr>conn_parser := q\<rparr>))"
proof -
  have line: "conn_line (cfg_parser_limits cfg) jo H c" using ok open_c by (simp add: conn_ok_def)
  then have f: "request_frames (cfg_parser_limits cfg) (received (conn_socket c))
      (map ex_request H @ job_request jo @ map q_request (command_queue c)) (buffer (conn_parser c))"
    and l: "limits (conn_parser c) = cfg_parser_limits cfg"
    by (simp_all add: conn_line_def)
  have "request_frames (cfg_parser_limits cfg) (received (conn_socket c))
      ((map ex_request H @ job_request jo @ map q_request (command_queue c)) @ [v]) (buffer q)"
    using framed_snoc [OF f, of v] parser_next_complete [OF p] l by simp
  then show ?thesis
    using ok open_c line parser_next_complete [OF p]
    by (auto simp: conn_ok_def conn_line_def queue_command_def algebra_simps)
qed

lemma conn_ok_same_parser:
  assumes "conn_ok cfg b jo H c" and "parser_next (conn_parser c) = (r, q)" and "pr_status r \<noteq> Complete"
  shows "conn_ok cfg b jo H (c\<lparr>conn_parser := q\<rparr>)"
proof -
  have "q = conn_parser c" using assms(2,3) by (auto simp: parser_next_def Let_def split: if_splits)
  then show ?thesis using assms(1) by (simp add: conn_ok_def conn_line_def)
qed

text \<open>Input that is refused, and the end of the input.\<close>

lemma conn_ok_refuse:
  assumes "conn_ok cfg b jo H c" and "\<not> closing c"
  shows "conn_ok cfg b jo H (refuse_input (c\<lparr>conn_socket := sock, last_activity := t, conn_parser := p\<rparr>))"
  using assms by (auto simp: conn_ok_def refuse_input_def)

lemma conn_ok_end:
  assumes "conn_ok cfg b jo H c" and "\<not> closing c"
    and "received sock = received (conn_socket c)" and "sent sock = sent (conn_socket c)"
  shows "conn_ok cfg b jo H (end_input (c\<lparr>conn_socket := sock\<rparr>))"
  using assms by (auto simp: conn_ok_def conn_line_def end_input_def Let_def)

text \<open>Bytes that arrive.\<close>

lemma conn_ok_feed:
  assumes ok: "conn_ok cfg b jo H c" and "\<not> closing c"
    and "received sock = received (conn_socket c) @ bytes" and "sent sock = sent (conn_socket c)"
    and feed: "parser_feed (conn_parser c) bytes = (Incomplete, p)"
  shows "conn_ok cfg b jo H (c\<lparr>conn_socket := sock, last_activity := t, conn_parser := p\<rparr>)"
proof -
  have "limits p = limits (conn_parser c)" "buffer_oversized p = buffer_oversized (conn_parser c)"
    "buffer p = buffer (conn_parser c) @ bytes"
    using feed by (auto simp: parser_feed_def split: if_splits)
  then show ?thesis
    using assms request_frames_more [of "cfg_parser_limits cfg" "received (conn_socket c)" _ "buffer (conn_parser c)" bytes]
    by (auto simp: conn_ok_def conn_line_def)
qed

lemma conn_ok_socket:
  assumes "conn_ok cfg b jo H c"
    and "received sock = received (conn_socket c)" and "sent sock = sent (conn_socket c)"
  shows "conn_ok cfg b jo H (c\<lparr>conn_socket := sock\<rparr>)"
  using assms by (auto simp: conn_ok_def conn_line_def)

text \<open>Bytes that are sent, and output that is dropped.\<close>

lemma conn_ok_sent:
  assumes "conn_ok cfg b jo H c" and "received sock = received (conn_socket c)"
    and "sent sock = sent (conn_socket c) @ take n (conn_output c)"
  shows "conn_ok cfg b jo H (c\<lparr>conn_socket := sock, conn_output := drop n (conn_output c), last_activity := t\<rparr>)"
  using assms by (auto simp: conn_ok_def conn_line_def)
    (metis append.assoc append_take_drop_id)+

lemma conn_ok_dropped:
  "conn_ok cfg b jo H c \<Longrightarrow> conn_ok cfg b jo H (c\<lparr>conn_socket := sock, closing := True, conn_output := []\<rparr>)"
  by (auto simp: conn_ok_def)

lemma conn_ok_interest [simp]:
  "conn_ok cfg b jo H (c\<lparr>conn_interest := i\<rparr>) = conn_ok cfg b jo H c"
  "conn_ok cfg b jo H (c\<lparr>last_activity := t\<rparr>) = conn_ok cfg b jo H c"
  by (simp_all add: conn_ok_def conn_line_def)

text \<open>A reply that comes back.\<close>

lemma release_closing:
  assumes "closing c"
  shows "closing (release_responses limit c) \<and>
    length (conn_output (release_responses limit c)) \<le> max (length (conn_output c)) limit"
  using assms
proof (induction limit c rule: release_responses.induct)
  case (1 limit c)
  show ?case
  proof (cases "um_find (next_response_seq c) (pending_responses c)")
    case None
    then show ?thesis using 1(2) by (simp add: release_responses.simps [of limit c])
  next
    case (Some payload)
    show ?thesis
    proof (cases "length (conn_output c) > limit \<or> length payload > limit - length (conn_output c)")
      case True
      then show ?thesis using Some 1(2) by (simp add: release_responses.simps [of limit c])
    next
      case False
      then have "max (length (conn_output c) + length payload) limit = limit" by auto
      with False show ?thesis
        using 1(1) [OF Some False] 1(2) Some by (auto simp: release_responses.simps [of limit c])
    qed
  qed
qed

lemma conn_ok_response:
  assumes ok: "conn_ok cfg False (Some (Publish d)) H c"
  shows "conn_ok cfg True None H (accept_response (max_output_buffer_bytes cfg) d c)"
proof (cases "closing c")
  case True
  then show ?thesis
    using ok release_closing [of "c\<lparr>pending_responses := um_emplace (comp_sequence d) (comp_payload d)
        (pending_responses c), inflight := inflight c - 1\<rparr>" "max_output_buffer_bytes cfg"]
    by (auto simp: conn_ok_def accept_response_def size_job_mset)
next
  case False
  then have line: "conn_line (cfg_parser_limits cfg) (Some (Publish d)) H c"
    and out: "length (conn_output c) \<le> max_output_buffer_bytes cfg"
    using ok by (simp_all add: conn_ok_def)
  then have seq: "comp_sequence d = next_response_seq c" "pending_responses c = []"
    by (simp_all add: conn_line_def)
  show ?thesis
  proof (cases "length (comp_payload d) > max_output_buffer_bytes cfg - length (conn_output c)")
    case True
    then show ?thesis
      using ok seq out by (auto simp: conn_ok_def accept_response_def um_emplace_def release_responses.simps
          size_job_mset)
  next
    case small: False
    have r: "accept_response (max_output_buffer_bytes cfg) d c =
        c\<lparr>conn_output := conn_output c @ comp_payload d, inflight := inflight c - 1,
          next_response_seq := next_response_seq c + 1\<rparr>"
      using ok seq out small
      by (simp add: accept_response_def um_emplace_def release_responses.simps conn_ok_def size_job_mset)
    show ?thesis
      unfolding r using ok line out small False
      by (auto simp: conn_ok_def conn_line_def size_job_mset algebra_simps)
  qed
qed

section \<open>The invariant of the server\<close>

type_synonym ledger_state = "server_config \<Rightarrow> nat \<Rightarrow> store \<Rightarrow> engine option \<Rightarrow> execution list \<Rightarrow> bool"

text \<open>The invariant for a given collection \<open>M\<close> of jobs, and for the jobs of the server and others.\<close>

definition core_inv :: "ledger_state \<Rightarrow> u64 option \<Rightarrow> job multiset \<Rightarrow> server \<Rightarrow> bool" where
  "core_inv L h M s \<longleftrightarrow>
     conns_inv (srv_config s) h M (srv_history s) (connections s) \<and>
     (\<forall>fd c. um_find fd (connections s) = Some c \<longrightarrow> conn_id c < next_connection_id s) \<and>
     (\<forall>j. j \<in># M \<longrightarrow> job_conn j < next_connection_id s) \<and>
     (\<forall>x \<in> set (srv_history s). ex_conn x < next_connection_id s) \<and>
     unat (next_connection_id s) + length (srv_accepts s) < 2 ^ 64 \<and>
     active_connections (srv_stats s) = of_nat (length (connections s)) \<and>
     length (connections s) \<le> max_connections (srv_config s) \<and>
     L (srv_config s) (srv_tick s) (srv_store s) (srv_persistence s) (srv_history s)"

definition srv_inv :: "ledger_state \<Rightarrow> u64 option \<Rightarrow> job multiset \<Rightarrow> server \<Rightarrow> bool" where
  "srv_inv L h X s \<longleftrightarrow> core_inv L h (open_jobs s + X) s"

definition thrown :: "failure \<Rightarrow> server \<Rightarrow> bool" where
  "thrown x s \<longleftrightarrow> (\<forall>fd. x \<noteq> Dangling fd)"

lemma thrown_Thrown [simp]: "thrown (Thrown e) s" "thrown (Terminated e) s"
  by (simp_all add: thrown_def)

lemma wp_conj: "wp m Q X s \<Longrightarrow> wp m Q' X' s \<Longrightarrow> wp m (\<lambda>a s. Q a s \<and> Q' a s) X s"
  by (simp add: wp_def split: prod.splits sum.splits)

text \<open>
  What the invariant of the server asks of the commands: a predicate on the configuration, the
  clock, the store, the engine and the history that executing a command, the expiry cycle, a
  snapshot and a sync of the log keep.
\<close>

locale ledger =
  fixes E :: server_env
    and L :: ledger_state
  assumes later: "L C n st e H \<Longrightarrow> L C (Suc n) st e H"
    and executes: "L C n st e H \<Longrightarrow> execute new_registry request (command_at E n) ctx = (Inr response, ctx') \<Longrightarrow>
      ctx_store ctx = st \<Longrightarrow> ctx_persistence ctx = e \<Longrightarrow> encode response = Inr payload \<Longrightarrow>
      L C (Suc n) (ctx_store ctx') (ctx_persistence ctx')
        (H @ [\<lparr>ex_conn = cid, ex_request = request, ex_env = command_at E n, ex_payload = payload\<rparr>])"
    and expires: "L C n st e H \<Longrightarrow>
      active_expire_cycle (draw E) (clock0 (command_at E n)) 20 g st = Inr (k, g', st') \<Longrightarrow> L C (Suc n) st' e H"
    and snapshots: "L C n st (Some en) H \<Longrightarrow>
      maybe_snapshot (env_os (command_at E n)) (os_at E (Suc n)) (env_abi (command_at E n)) (clock0 (command_at E n)) t
        (steady_now (command_at E n)) en st = (r, en', st') \<Longrightarrow> L C (Suc n) st' (Some en') H"
    and syncs: "L C n st (Some en) H \<Longrightarrow> L C (Suc n) st (Some (fsync_round (os_at E n) en)) H"
begin

lemma tick_inv [simp]: "core_inv L h M s \<Longrightarrow> core_inv L h M (s\<lparr>srv_tick := Suc (srv_tick s)\<rparr>)"
  by (simp add: core_inv_def later)

lemma execute_core:
  assumes "core_inv L h (M + {#Execute cid seq request#}) s"
  shows "wp (execute_job E cid seq request)
    (\<lambda>d s'. core_inv L h (M + {#Publish d#}) s' \<and> srv_workers s' = srv_workers s \<and>
      completions s' = completions s) thrown s"
proof (rule execute_job_wp)
  fix ctx response payload
  assume e: "execute new_registry request (command_at E (srv_tick s)) (job_context E s) = (Inr response, ctx)"
    and p: "encode response = Inr payload"
  let ?d = "\<lparr>comp_conn = cid, comp_sequence = seq, comp_payload = payload, comp_error = response_is_error response\<rparr>"
  let ?x = "\<lparr>ex_conn = cid, ex_request = request, ex_env = command_at E (srv_tick s), ex_payload = payload\<rparr>"
  have "L (srv_config s) (Suc (srv_tick s)) (ctx_store ctx) (ctx_persistence ctx) (srv_history s @ [?x])"
    by (rule executes [OF _ e _ _ p]) (use assms in \<open>simp_all add: core_inv_def job_context_def\<close>)
  moreover have "conns_inv (srv_config s) h (M + {#Publish ?d#}) (srv_history s @ [?x]) (connections s)"
    by (rule conns_inv_execute [of _ _ _ cid seq request])
      (use assms in \<open>simp_all add: core_inv_def\<close>)
  ultimately show "core_inv L h (M + {#Publish ?d#}) (s\<lparr>srv_tick := srv_tick s + 1, srv_store := ctx_store ctx,
        srv_persistence := ctx_persistence ctx, srv_history := srv_history s @ [?x]\<rparr>) \<and>
      srv_workers (s\<lparr>srv_tick := srv_tick s + 1, srv_store := ctx_store ctx,
        srv_persistence := ctx_persistence ctx, srv_history := srv_history s @ [?x]\<rparr>) = srv_workers s \<and>
      completions (s\<lparr>srv_tick := srv_tick s + 1, srv_store := ctx_store ctx,
        srv_persistence := ctx_persistence ctx, srv_history := srv_history s @ [?x]\<rparr>) = completions s"
    using assms by (auto simp: core_inv_def)
qed simp

lemma set_worker_core [simp]: "core_inv L h M (set_worker i w s) = core_inv L h M s"
  by (simp add: core_inv_def set_worker_def)

lemma workers_core [simp]: "core_inv L h M (s\<lparr>srv_workers := p\<rparr>) = core_inv L h M s"
  by (simp add: core_inv_def)

lemma completions_core [simp]: "core_inv L h M (s\<lparr>completions := cs\<rparr>) = core_inv L h M s"
  by (simp add: core_inv_def)

lemma open_jobs_set_worker:
  assumes "i < length (pool_workers (srv_workers s))"
  shows "open_jobs (set_worker i w s) + mset (running_jobs [pool_workers (srv_workers s) ! i]) =
    open_jobs s + mset (running_jobs [w])"
  using running_update [OF assms, of w] by (simp add: open_jobs_def set_worker_def ac_simps)

lemma publish_simps [simp]:
  "srv_workers (publish d s) = srv_workers s" "connections (publish d s) = connections s"
  "srv_config (publish d s) = srv_config s" "core_inv L h M (publish d s) = core_inv L h M s"
  by (simp_all add: publish_def)

lemma open_jobs_publish: "open_jobs (publish d s) = open_jobs s + {#Publish d#}"
  by (simp add: open_jobs_def publish_def)

lemma thread_event_inv:
  assumes inv: "srv_inv L h X s"
  shows "wp (thread_event E ev) (\<lambda>_ s'. srv_inv L h X s') thrown s"
proof (cases ev)
  case (Wake i)
  show ?thesis
  proof (cases "i < length (pool_workers (srv_workers s)) \<and> pool_workers (srv_workers s) ! i = Waiting \<and>
      worker_wake (srv_workers s) \<noteq> None")
    case True
    then obtain w p where w: "worker_wake (srv_workers s) = Some (w, p)" by auto
    have p: "pool_workers p = pool_workers (srv_workers s)"
      "mset (jobs p) + mset (running_jobs [w]) = mset (jobs (srv_workers s))"
      using w by (cases "jobs (srv_workers s)"; auto simp: worker_wake_def split: if_splits)+
    have "open_jobs (set_worker i w (s\<lparr>srv_workers := p\<rparr>)) = open_jobs s"
      using open_jobs_set_worker [of i "s\<lparr>srv_workers := p\<rparr>" w] True p by (simp add: open_jobs_def ac_simps)
    then show ?thesis
      using True w inv by (simp add: Wake wp_def srv_inv_def)
  qed (use inv in \<open>auto simp: Wake wp_def split: option.splits\<close>)
next
  case (Work i)
  show ?thesis
  proof (cases "i < length (pool_workers (srv_workers s))")
    case True
    note ws = open_jobs_set_worker [OF True]
    show ?thesis
    proof (cases "pool_workers (srv_workers s) ! i")
      case (Running j)
      show ?thesis
      proof (cases j)
        case (Execute cid seq request)
        define M where "M = open_jobs s + X - {#j#}"
        have "open_jobs (set_worker i Waiting s) + {#j#} = open_jobs s"
          using ws [of Waiting] Running by simp
        then have "j \<in># open_jobs s" by (metis union_single_eq_member add_mset_add_single)
        then have M: "open_jobs s + X = M + {#j#}" by (simp add: M_def)
        have "wp (bindS (uncaughtS (execute_job E cid seq request)) (\<lambda>d. modifyS (set_worker i (Running (Publish d)))))
          (\<lambda>_ s'. srv_inv L h X s') thrown s"
          unfolding wp_simps
        proof (rule wp_mono [OF execute_core])
          show "core_inv L h (M + {#Execute cid seq request#}) s"
            using inv M Execute by (simp add: srv_inv_def)
          fix d s'
          assume d: "core_inv L h (M + {#Publish d#}) s' \<and> srv_workers s' = srv_workers s \<and>
            completions s' = completions s"
          then have "open_jobs (set_worker i (Running (Publish d)) s') = open_jobs (set_worker i (Running (Publish d)) s)"
            by (simp add: open_jobs_def set_worker_def)
          moreover have "open_jobs (set_worker i (Running (Publish d)) s) + X + {#j#} = M + {#j#} + {#Publish d#}"
            using ws [of "Running (Publish d)"] Running M by (simp add: ac_simps)
          ultimately show "srv_inv L h X (set_worker i (Running (Publish d)) s')"
            using d by (simp add: srv_inv_def)
        qed (auto split: failure.split)
        then show ?thesis using True Work Running Execute by (simp add: wp_def)
      next
        case (Publish d)
        have "open_jobs (set_worker i Waiting (publish d s)) = open_jobs s"
          using open_jobs_set_worker [of i "publish d s" Waiting] True Running Publish
          by (simp add: open_jobs_publish)
        then show ?thesis
          using inv True Work Running Publish by (simp add: wp_def srv_inv_def)
      qed
    qed (use inv True Work in \<open>simp_all add: wp_def\<close>)
  qed (use inv in \<open>simp add: Work wp_def\<close>)
next
  case Sync_log
  then show ?thesis
    using inv syncs by (auto simp: wp_def srv_inv_def core_inv_def open_jobs_def split: option.split)
next
  case Call_stop
  have "core_inv L h M (server_stop s) = core_inv L h M s" "open_jobs (server_stop s) = open_jobs s" for M
    by (simp_all add: server_stop_def core_inv_def open_jobs_def)
  then show ?thesis using inv by (simp add: Call_stop wp_def srv_inv_def)
qed

lemma interleave_inv:
  assumes "srv_inv L h X s"
  shows "wp (interleave E) (\<lambda>_ s'. srv_inv L h X s' \<and> background s s') thrown s"
proof (rule wp_conj)
  have many: "wp (thread_events E evs) (\<lambda>_ s'. srv_inv L h X s') thrown s" if "srv_inv L h X s" for evs s
    using that
  proof (induction evs arbitrary: s)
    case (Cons ev evs)
    show ?case
      unfolding thread_events.simps wp_then
      by (rule wp_mono [OF thread_event_inv [OF Cons.prems]]) (auto intro: Cons.IH)
  qed (simp add: wp_simps)
  show "wp (interleave E) (\<lambda>_ s'. srv_inv L h X s') thrown s"
  proof (cases "srv_schedule s")
    case (Cons evs rest)
    have "srv_inv L h X (s\<lparr>srv_schedule := rest\<rparr>)"
      using assms by (simp add: srv_inv_def core_inv_def open_jobs_def)
    from many [OF this, of evs] show ?thesis using Cons by (simp add: wp_def interleave_def)
  qed (use assms in \<open>simp add: wp_def interleave_def\<close>)
  show "wp (interleave E) (\<lambda>_ s'. background s s') (\<lambda>x s'. \<forall>fd. x \<noteq> Dangling fd) s"
    by (rule interleave_background)
qed

end

end
