(* ===== verification/Server_Inv.thy ===== *)
theory Server_Inv
  imports Server_Laws
begin

text \<open>
  Every function of the I/O thread keeps the invariant of the server, and none of them uses a
  connection that is gone. The lemmas live in the locale \<open>ledger\<close>.
\<close>

lemma um_length_store: "um_find k m = Some v \<Longrightarrow> length (um_store k w m) = length m"
  by (induction k w m rule: um_store.induct) (auto split: if_splits)

lemma um_length_erase: "um_find k m = Some v \<Longrightarrow> Suc (length (um_erase k m)) = length m"
  by (induction k m rule: um_erase.induct) (auto split: if_splits)

lemma open_jobs_simps [simp]:
  "open_jobs (put_connection fd c s) = open_jobs s"
  "open_jobs (s\<lparr>srv_tick := n\<rparr>) = open_jobs s" "open_jobs (s\<lparr>srv_stats := st\<rparr>) = open_jobs s"
  "open_jobs (s\<lparr>srv_reactor := k\<rparr>) = open_jobs s" "open_jobs (s\<lparr>connections := cs\<rparr>) = open_jobs s"
  "open_jobs (s\<lparr>srv_accepts := as\<rparr>) = open_jobs s"
  "open_jobs (s\<lparr>next_connection_id := i\<rparr>) = open_jobs s"
  "open_jobs (s\<lparr>next_expiry_tick := t\<rparr>) = open_jobs s"
  by (simp_all add: open_jobs_def put_connection_def)

lemma stats_active [simp]:
  "active_connections (add_bytes_in n st) = active_connections st"
  "active_connections (add_bytes_out n st) = active_connections st"
  "active_connections (on_command b st) = active_connections st"
  "active_connections (add_expired n st) = active_connections st"
  "active_connections (set_used_memory n st) = active_connections st"
  by (simp_all add: add_bytes_in_def add_bytes_out_def on_command_def add_expired_def set_used_memory_def Let_def)

lemma execute_job_connections:
  "wp (execute_job E cid seq request) (\<lambda>_ s'. connections s' = connections s \<and> srv_config s' = srv_config s)
     (\<lambda>_ _. True) s"
  by (rule execute_job_wp) simp_all

definition has_connection :: "int \<Rightarrow> server \<Rightarrow> bool" where
  "has_connection fd s \<longleftrightarrow> um_find fd (connections s) \<noteq> None"

definition open_connection :: "int \<Rightarrow> server \<Rightarrow> bool" where
  "open_connection fd s \<longleftrightarrow> (\<exists>c. um_find fd (connections s) = Some c \<and> \<not> closing c)"

definition connection_at :: "u64 \<Rightarrow> int \<Rightarrow> server \<Rightarrow> bool" where
  "connection_at cid fd s \<longleftrightarrow> (\<exists>c. um_find fd (connections s) = Some c \<and> conn_id c = cid)"

lemma at_has: "connection_at cid fd s \<Longrightarrow> has_connection fd s"
  by (auto simp: connection_at_def has_connection_def)

lemma has_at: "has_connection fd s \<Longrightarrow> \<exists>cid. connection_at cid fd s"
  by (auto simp: connection_at_def has_connection_def)

lemma open_has: "open_connection fd s \<Longrightarrow> has_connection fd s"
  by (auto simp: open_connection_def has_connection_def)

lemma background_has:
  assumes "background s s'"
  shows "connections s' = connections s" "has_connection fd s' = has_connection fd s"
    "open_connection fd s' = open_connection fd s" "srv_config s' = srv_config s"
  using assms by (simp_all add: background_def has_connection_def open_connection_def)

context ledger
begin

lemma srv_inv_stats [simp]:
  "active_connections st = active_connections (srv_stats s) \<Longrightarrow> srv_inv L h X (s\<lparr>srv_stats := st\<rparr>) = srv_inv L h X s"
  by (simp add: srv_inv_def core_inv_def)

lemma srv_inv_tick: "srv_inv L h X s \<Longrightarrow> srv_inv L h X (s\<lparr>srv_tick := Suc (srv_tick s)\<rparr>)"
  by (simp add: srv_inv_def)

lemma srv_inv_fields [simp]:
  "srv_inv L h X (s\<lparr>srv_reactor := k\<rparr>) = srv_inv L h X s"
  "srv_inv L h X (s\<lparr>next_expiry_tick := t\<rparr>) = srv_inv L h X s"
  by (simp_all add: srv_inv_def core_inv_def)

lemma put_move:
  assumes inv: "srv_inv L h X s" and c: "um_find fd (connections s) = Some c"
    and id: "conn_id c' = conn_id c" and d: "descriptor (conn_socket c') = descriptor (conn_socket c)"
    and hole: "h \<in> {None, Some (conn_id c)}" "h' \<in> {None, Some (conn_id c)}"
    and X: "\<And>j. j \<in># X' \<Longrightarrow> j \<in># X \<or> job_conn j = conn_id c"
      "\<And>cid. cid \<noteq> conn_id c \<Longrightarrow> filter_mset (\<lambda>j. job_conn j = cid) X' = filter_mset (\<lambda>j. job_conn j = cid) X"
    and ok: "\<And>jo H. filter_mset (\<lambda>j. job_conn j = conn_id c) (open_jobs s + X) = job_mset jo \<Longrightarrow>
      conn_ok (srv_config s) (h = Some (conn_id c)) jo H c \<Longrightarrow>
      \<exists>jo'. filter_mset (\<lambda>j. job_conn j = conn_id c) (open_jobs s + X') = job_mset jo' \<and>
        conn_ok (srv_config s) (h' = Some (conn_id c)) jo' H c'"
  shows "srv_inv L h' X' (put_connection fd c' s)"
proof -
  have ci: "conns_inv (srv_config s) h (open_jobs s + X) (srv_history s) (connections s)"
    using inv by (simp add: srv_inv_def core_inv_def)
  have "conns_inv (srv_config s) h' (open_jobs s + X') (srv_history s) (um_store fd c' (connections s))"
  proof (rule conns_inv_put [OF ci c id d])
    obtain jo where "filter_mset (\<lambda>j. job_conn j = conn_id c) (open_jobs s + X) = job_mset jo"
      "conn_ok (srv_config s) (h = Some (conn_id c)) jo (filter (\<lambda>x. ex_conn x = conn_id c) (srv_history s)) c"
      using conns_inv_get [OF ci c] by blast
    from ok [OF this] show "conn_inv (srv_config s) h' (open_jobs s + X') (srv_history s) c'"
      by (simp add: conn_inv_def id)
  qed (use hole X(2) in auto)
  moreover have new: "conn_id c < next_connection_id s"
    using inv c by (auto simp: srv_inv_def core_inv_def)
  moreover have "job_conn j < next_connection_id s" if "j \<in># X'" for j
    using X(1) [OF that] new inv by (auto simp: srv_inv_def core_inv_def)
  ultimately show ?thesis
    using inv id um_length_store [OF c, of c']
    by (auto simp: srv_inv_def core_inv_def put_connection_def um_find_store)
qed

lemma put_inv:
  assumes inv: "srv_inv L h X s" and c: "um_find fd (connections s) = Some c"
    and id: "conn_id c' = conn_id c" and d: "descriptor (conn_socket c') = descriptor (conn_socket c)"
    and ok: "\<And>jo H. conn_ok (srv_config s) (h = Some (conn_id c)) jo H c \<Longrightarrow>
      conn_ok (srv_config s) (h = Some (conn_id c)) jo H c'"
  shows "srv_inv L h X (put_connection fd c' s)"
proof -
  have ci: "conns_inv (srv_config s) h (open_jobs s + X) (srv_history s) (connections s)"
    using inv by (simp add: srv_inv_def core_inv_def)
  then have "conns_inv (srv_config s) h (open_jobs s + X) (srv_history s) (um_store fd c' (connections s))"
    by (rule conns_inv_update [OF _ c id d ok])
  then show ?thesis
    using inv id um_length_store [OF c, of c'] c
    by (auto simp: srv_inv_def core_inv_def put_connection_def um_find_store)
qed

section \<open>Strands\<close>

lemma submit_job_inv:
  assumes "srv_inv L h (X + {#Execute cid seq request#}) s"
  shows "wp (submit_job E cid seq request)
    (\<lambda>_ s'. srv_inv L h X s' \<and> connections s' = connections s \<and> srv_config s' = srv_config s) thrown s"
  unfolding submit_job_def wp_then
proof (rule wp_mono [OF interleave_inv [OF assms]])
  fix s1
  assume i: "srv_inv L h (X + {#Execute cid seq request#}) s1 \<and> background s s1"
  then have b: "connections s1 = connections s" "srv_config s1 = srv_config s" using background_has by blast+
  obtain ok p where t: "try_submit (Execute cid seq request) (srv_workers s1) = (ok, p)" by fastforce
  show "wp (\<lambda>s. case try_submit (Execute cid seq request) (srv_workers s) of
        (True, p) \<Rightarrow> (Inr (), s\<lparr>srv_workers := p\<rparr>)
      | (False, _) \<Rightarrow> bindS (execute_job E cid seq request) (\<lambda>c. modifyS (publish c)) s)
    (\<lambda>_ s'. srv_inv L h X s' \<and> connections s' = connections s \<and> srv_config s' = srv_config s) thrown s1"
  proof (cases ok)
    case True
    have "open_jobs (s1\<lparr>srv_workers := p\<rparr>) = open_jobs s1 + {#Execute cid seq request#}"
      using t True by (auto simp: try_submit_def open_jobs_def split: if_splits)
    then show ?thesis using i t True b by (simp add: wp_def srv_inv_def ac_simps)
  next
    case False
    have "wp (bindS (execute_job E cid seq request) (\<lambda>c. modifyS (publish c)))
      (\<lambda>_ s'. srv_inv L h X s' \<and> connections s' = connections s \<and> srv_config s' = srv_config s) thrown s1"
      unfolding wp_simps
    proof (rule wp_mono [OF wp_conj [OF execute_core execute_job_connections]])
      show "core_inv L h ((open_jobs s1 + X) + {#Execute cid seq request#}) s1"
        using i by (simp add: srv_inv_def ac_simps)
      fix d s2
      assume "(core_inv L h ((open_jobs s1 + X) + {#Publish d#}) s2 \<and> srv_workers s2 = srv_workers s1 \<and>
        completions s2 = completions s1) \<and> connections s2 = connections s1 \<and> srv_config s2 = srv_config s1"
      moreover from this have "open_jobs s2 = open_jobs s1" by (simp add: open_jobs_def)
      ultimately show "srv_inv L h X (publish d s2) \<and> connections (publish d s2) = connections s \<and>
          srv_config (publish d s2) = srv_config s"
        using b by (simp add: srv_inv_def open_jobs_publish ac_simps)
    qed
    then show ?thesis using t False by (simp add: wp_def)
  qed
qed

lemma launch_strand_inv:
  assumes inv: "srv_inv L (Some (conn_id c)) X s" and c: "um_find fd (connections s) = Some c"
  shows "wp (launch_strand E fd)
    (\<lambda>_ s'. srv_inv L None X s' \<and> (\<exists>c'. um_find fd (connections s') = Some c' \<and> closing c' = closing c)) thrown s"
proof (cases "command_queue c")
  case Nil
  have "srv_inv L None X (put_connection fd (c\<lparr>strand_running := False\<rparr>) s)"
  proof (rule put_move [OF inv c])
    fix jo H
    assume "filter_mset (\<lambda>j. job_conn j = conn_id c) (open_jobs s + X) = job_mset jo"
      and ok: "conn_ok (srv_config s) (Some (conn_id c) = Some (conn_id c)) jo H c"
    moreover from ok have "jo = None" by (simp add: conn_ok_def)
    ultimately show "\<exists>jo'. filter_mset (\<lambda>j. job_conn j = conn_id c) (open_jobs s + X) = job_mset jo' \<and>
        conn_ok (srv_config s) (None = Some (conn_id c)) jo' H (c\<lparr>strand_running := False\<rparr>)"
      using conn_ok_idle [OF _ Nil, of "srv_config s" jo H] by auto
  qed auto
  then show ?thesis using c Nil by (simp add: launch_strand_def wp_simps)
next
  case (Cons item rest)
  let ?j = "Execute (conn_id c) (q_sequence item) (q_request item)"
  have i1: "srv_inv L None (X + {#?j#}) (put_connection fd (pop_command rest c) s)"
  proof (rule put_move [OF inv c])
    fix jo H
    assume M: "filter_mset (\<lambda>j. job_conn j = conn_id c) (open_jobs s + X) = job_mset jo"
      and ok: "conn_ok (srv_config s) (Some (conn_id c) = Some (conn_id c)) jo H c"
    from ok have "jo = None" by (simp add: conn_ok_def)
    with M have "filter_mset (\<lambda>j. job_conn j = conn_id c) (open_jobs s + (X + {#?j#})) = job_mset (Some ?j)"
      by (simp add: job_mset_def)
    moreover have "conn_ok (srv_config s) (None = Some (conn_id c)) (Some ?j) H (pop_command rest c)"
      using conn_ok_pop [OF _ Cons, of "srv_config s" jo H] ok by simp
    ultimately show "\<exists>jo'. filter_mset (\<lambda>j. job_conn j = conn_id c) (open_jobs s + (X + {#?j#})) = job_mset jo' \<and>
        conn_ok (srv_config s) (None = Some (conn_id c)) jo' H (pop_command rest c)"
      by blast
  qed (auto simp: pop_command_def)
  have "wp (submit_job E (conn_id c) (q_sequence item) (q_request item))
    (\<lambda>_ s'. srv_inv L None X s' \<and> (\<exists>c'. um_find fd (connections s') = Some c' \<and> closing c' = closing c)) thrown
    (put_connection fd (pop_command rest c) s)"
    by (rule wp_mono [OF submit_job_inv [OF i1]]) (auto simp: pop_command_def)
  then show ?thesis using c Cons by (simp add: launch_strand_def wp_simps pop_command_def)
qed

section \<open>Reading\<close>

lemma queue_saturated_inv:
  assumes "srv_inv L h X s"
  shows "wp (queue_saturated E) (\<lambda>_ s'. srv_inv L h X s' \<and> background s s') thrown s"
  unfolding queue_saturated_def wp_simps by (rule interleave_inv [OF assms])

lemma parse_round_inv:
  assumes inv: "srv_inv L None X s" and op: "open_connection fd s"
  shows "wp (parse_round E fd)
    (\<lambda>b s'. srv_inv L None X s' \<and> has_connection fd s' \<and> (b \<longrightarrow> open_connection fd s')) thrown s"
    (is "wp _ ?Q _ _")
  unfolding parse_round_def wp_bind
proof (rule wp_mono [OF queue_saturated_inv [OF inv]])
  fix sat s1
  assume "srv_inv L None X s1 \<and> background s s1"
  then have i: "srv_inv L None X s1" and "open_connection fd s1" using op background_has by blast+
  then obtain c where c: "um_find fd (connections s1) = Some c" "\<not> closing c" by (auto simp: open_connection_def)
  obtain r q where p: "parser_next (conn_parser c) = (r, q)" by fastforce
  let ?s = "put_connection fd (c\<lparr>conn_parser := q\<rparr>) s1"
  have "wp (handle_parsed E fd r) ?Q thrown ?s"
  proof (cases "pr_status r = Complete \<and> pr_value r \<noteq> None \<and> is_command_request (the (pr_value r))")
    case True
    then obtain v where v: "pr_value r = Some v" by auto
    let ?c = "queue_command v (c\<lparr>conn_parser := q\<rparr>)"
    have id: "conn_id ?c = conn_id c" "closing ?c = closing c" by (simp_all add: queue_command_def)
    have i2: "srv_inv L (if strand_running c then None else Some (conn_id c)) X (put_connection fd ?c s1)"
    proof (rule put_move [OF i c(1)])
      fix jo H
      assume "filter_mset (\<lambda>j. job_conn j = conn_id c) (open_jobs s1 + X) = job_mset jo"
        and ok: "conn_ok (srv_config s1) (None = Some (conn_id c)) jo H c"
      then show "\<exists>jo'. filter_mset (\<lambda>j. job_conn j = conn_id c) (open_jobs s1 + X) = job_mset jo' \<and>
        conn_ok (srv_config s1) ((if strand_running c then None else Some (conn_id c)) = Some (conn_id c)) jo' H ?c"
        using conn_ok_queue [OF _ c(2) p _ v, of "srv_config s1" jo H] True by auto
    qed (auto simp: queue_command_def)
    have "wp (launch_strand E fd) (\<lambda>_. ?Q True) thrown (put_connection fd ?c s1)" if "\<not> strand_running c"
      using launch_strand_inv [of ?c X "put_connection fd ?c s1" fd] i2 that id c
      by (auto simp: has_connection_def open_connection_def elim!: wp_mono)
    moreover have "?Q True (put_connection fd ?c s1)" if "strand_running c"
      using i2 that id c by (auto simp: has_connection_def open_connection_def)
    ultimately show ?thesis
      using True v by (auto simp: handle_parsed_def enqueue_command_def wp_simps)
  next
    case False
    have "srv_inv L None X (put_connection fd (c\<lparr>conn_parser := q\<rparr>) s1)" if "pr_status r \<noteq> Complete"
      by (rule put_inv [OF i c(1)]) (use conn_ok_same_parser [OF _ p that] in auto)
    moreover have "srv_inv L None X (put_connection fd (refuse_input (c\<lparr>conn_parser := q\<rparr>)) s1)"
      by (rule put_inv [OF i c(1)])
        (use conn_ok_refuse [OF _ c(2), where p = q and sock = "conn_socket c" and t = "last_activity c"] in
          \<open>auto simp: refuse_input_def\<close>)
    ultimately show ?thesis
      using False by (auto simp: handle_parsed_def wp_simps has_connection_def)
  qed
  moreover have "?Q False s1" using i c by (simp add: has_connection_def)
  ultimately show "wp (with_connection fd (\<lambda>c. if sat \<and> inflight c > 0 then returnS False
       else thenS (on_connection fd (\<lambda>c. c\<lparr>conn_parser := snd (parser_next (conn_parser c))\<rparr>))
              (handle_parsed E fd (fst (parser_next (conn_parser c)))))) ?Q thrown s1"
    using c(1) p by (auto simp: wp_simps)
qed simp

lemma queue_parsed_commands_inv:
  assumes "srv_inv L None X s" and "open_connection fd s"
  shows "wp (queue_parsed_commands E fd) (\<lambda>_ s'. srv_inv L None X s' \<and> has_connection fd s') thrown s"
proof (rule wp_loop [where I = "\<lambda>s. srv_inv L None X s \<and> open_connection fd s" and m = "buffered fd"])
  fix s
  assume i: "srv_inv L None X s \<and> open_connection fd s"
  from i have r: "wp (parse_round E fd) (\<lambda>b s'. srv_inv L None X s' \<and> has_connection fd s' \<and>
      (b \<longrightarrow> open_connection fd s')) thrown s"
    by (intro parse_round_inv) simp_all
  show "wp (parse_round E fd) (\<lambda>b s'. if b then (srv_inv L None X s' \<and> open_connection fd s') \<and>
      buffered fd s' < buffered fd s else srv_inv L None X s' \<and> has_connection fd s') thrown s"
    by (rule wp_mono [OF wp_conj [OF r parse_round_frame]]) (auto simp: buffered_def)
qed (use assms in \<open>simp_all add: queue_parsed_commands.simps\<close>)

lemma handle_bytes_inv:
  assumes inv: "srv_inv L None X s" and c: "um_find fd (connections s) = Some c" "\<not> closing c"
    and sock: "received sock = received (conn_socket c) @ bytes" "sent sock = sent (conn_socket c)"
      "descriptor sock = descriptor (conn_socket c)"
  shows "wp (handle_bytes E fd bytes)
    (\<lambda>b s'. srv_inv L None X s' \<and> has_connection fd s' \<and> (b \<longrightarrow> open_connection fd s')) thrown
    (put_connection fd (c\<lparr>conn_socket := sock\<rparr>) s)" (is "wp _ ?Q _ _")
proof -
  obtain st p where p: "parser_feed (conn_parser c) bytes = (st, p)" by fastforce
  define t where "t = steady_at E (srv_tick s)"
  let ?s = "s\<lparr>srv_stats := add_bytes_in (of_nat (length bytes)) (srv_stats s), srv_tick := Suc (srv_tick s)\<rparr>"
  have i: "srv_inv L None X ?s"
    using srv_inv_tick [of None X "s\<lparr>srv_stats := add_bytes_in (of_nat (length bytes)) (srv_stats s)\<rparr>"] inv by simp
  have c': "um_find fd (connections ?s) = Some c" using c by simp
  show ?thesis
  proof (cases "st = Incomplete")
    case True
    let ?c = "c\<lparr>conn_socket := sock, last_activity := t, conn_parser := p\<rparr>"
    have i1: "srv_inv L None X (put_connection fd ?c ?s)"
      by (rule put_inv [OF i c'])
        (use conn_ok_feed [OF _ c(2) sock(1,2), of _ _ _ _ p t] p True sock(3) in auto)
    have "wp (queue_parsed_commands E fd) (\<lambda>_. wp (with_connection fd (\<lambda>c. returnS (\<not> closing c))) ?Q thrown) thrown
        (put_connection fd ?c ?s)"
      by (rule wp_mono [OF queue_parsed_commands_inv [OF i1]])
        (use c in \<open>auto simp: open_connection_def has_connection_def wp_simps\<close>)
    then show ?thesis using p True by (simp add: handle_bytes_def wp_simps t_def)
  next
    case False
    let ?c = "refuse_input (c\<lparr>conn_socket := sock, last_activity := t, conn_parser := p\<rparr>)"
    have "srv_inv L None X (put_connection fd ?c ?s)"
      by (rule put_inv [OF i c'])
        (use conn_ok_refuse [OF _ c(2), where p = p and sock = sock and t = t] sock(3) in
          \<open>auto simp: refuse_input_def\<close>)
    then show ?thesis using p False by (simp add: handle_bytes_def wp_simps t_def has_connection_def)
  qed
qed

lemma receive_round_inv:
  assumes inv: "srv_inv L None X s" and op: "open_connection fd s"
  shows "wp (receive_round E fd)
    (\<lambda>b s'. srv_inv L None X s' \<and> has_connection fd s' \<and> (b \<longrightarrow> open_connection fd s')) thrown s"
    (is "wp _ ?Q _ _")
proof -
  obtain c where c: "um_find fd (connections s) = Some c" "\<not> closing c" using op by (auto simp: open_connection_def)
  obtain r sock where t: "try_receive 8192 (conn_socket c) = (r, sock)" by fastforce
  note w = try_receive_work [OF t, simplified]
  show ?thesis
  proof (cases r)
    case (Inl x)
    then show ?thesis using c t by (simp add: receive_round_def wp_simps)
  next
    case (Inr p)
    obtain st bytes where p: "r = Inr (st, bytes)" using Inr by (cases p) simp
    show ?thesis
    proof (cases st)
      case Io_ok
      have "wp (handle_bytes E fd bytes) ?Q thrown (put_connection fd (c\<lparr>conn_socket := sock\<rparr>) s)"
        by (rule handle_bytes_inv [OF inv c]) (use w(2,4) p Io_ok in auto)
      then show ?thesis using c t p Io_ok by (simp add: receive_round_def wp_simps)
    next
      case Io_would_block
      have "srv_inv L None X (put_connection fd (c\<lparr>conn_socket := sock\<rparr>) s)"
        by (rule put_inv [OF inv c(1)]) (use conn_ok_socket [of _ _ _ _ c sock] w(3,4) p Io_would_block in auto)
      then show ?thesis using c t p Io_would_block by (simp add: receive_round_def wp_simps has_connection_def)
    next
      case Io_closed
      have "srv_inv L None X (put_connection fd (end_input (c\<lparr>conn_socket := sock\<rparr>)) s)"
        by (rule put_inv [OF inv c(1)]) (use conn_ok_end [OF _ c(2), of _ _ _ _ sock] w(3,4) p Io_closed in auto)
      then show ?thesis using c t p Io_closed by (simp add: receive_round_def wp_simps has_connection_def)
    qed
  qed
qed

lemma read_connection_inv:
  assumes inv: "srv_inv L None X s" and has: "has_connection fd s"
  shows "wp (read_connection E fd) (\<lambda>_ s'. srv_inv L None X s' \<and> has_connection fd s') thrown s"
proof -
  have loop: "wp (read_loop E fd) (\<lambda>_ s'. srv_inv L None X s' \<and> has_connection fd s') thrown s"
    if "open_connection fd s"
  proof (rule wp_loop [where I = "\<lambda>s. srv_inv L None X s \<and> open_connection fd s" and m = "unread fd"])
    fix s
    assume i: "srv_inv L None X s \<and> open_connection fd s"
    have r: "wp (read_round E fd) (\<lambda>b s'. srv_inv L None X s' \<and> has_connection fd s' \<and>
        (b \<longrightarrow> open_connection fd s')) thrown s"
      unfolding read_round_def wp_bind
    proof (rule wp_mono [OF queue_saturated_inv])
      show "srv_inv L None X s" using i by simp
      fix sat s1
      assume "srv_inv L None X s1 \<and> background s s1"
      then have "srv_inv L None X s1" "open_connection fd s1" using i background_has by blast+
      then show "wp (if sat then returnS False else receive_round E fd) (\<lambda>b s'. srv_inv L None X s' \<and>
          has_connection fd s' \<and> (b \<longrightarrow> open_connection fd s')) thrown s1"
        using receive_round_inv open_has by (simp add: wp_simps)
    qed simp
    show "wp (read_round E fd) (\<lambda>b s'. if b then (srv_inv L None X s' \<and> open_connection fd s') \<and>
        unread fd s' < unread fd s else srv_inv L None X s' \<and> has_connection fd s') thrown s"
      by (rule wp_mono [OF wp_conj [OF r read_round_frame]]) auto
  qed (use inv that in \<open>simp_all add: read_loop.simps\<close>)
  obtain c where c: "um_find fd (connections s) = Some c" using has by (auto simp: has_connection_def)
  then show ?thesis
    using inv has loop by (auto simp: read_connection_def wp_simps open_connection_def)
qed

section \<open>Writing and closing\<close>

lemma write_round_inv:
  assumes inv: "srv_inv L h X s" and has: "connection_at cid fd s"
  shows "wp (write_round E fd) (\<lambda>_ s'. srv_inv L h X s' \<and> connection_at cid fd s') thrown s"
proof -
  obtain c where c: "um_find fd (connections s) = Some c" and cid: "conn_id c = cid"
    using has by (auto simp: connection_at_def)
  obtain r sock where t: "try_send (conn_output c) (conn_socket c) = (r, sock)" by fastforce
  have e: "sent sock = sent (conn_socket c) @ take n (conn_output c)" "received sock = received (conn_socket c)"
    "descriptor sock = descriptor (conn_socket c)" if "r = Inr (st, n)" for st n
    using try_send_effect [of "conn_output c" "conn_socket c" st n sock] t that by simp_all
  show ?thesis
  proof (rule write_round_wp [OF c t])
    fix n
    assume r: "r = Inr (Io_would_block, n)"
    have n0: "n = 0"
      using try_send_effect [of "conn_output c" "conn_socket c" Io_would_block n sock] t r by simp
    have "srv_inv L h X (put_connection fd (c\<lparr>conn_socket := sock\<rparr>) s)"
      by (rule put_inv [OF inv c]) (use conn_ok_socket [of _ _ _ _ c sock] e [OF r] n0 in simp_all)
    then show "srv_inv L h X (put_connection fd (c\<lparr>conn_socket := sock\<rparr>) s) \<and>
        connection_at cid fd (put_connection fd (c\<lparr>conn_socket := sock\<rparr>) s)"
      using cid by (simp add: connection_at_def)
  next
    fix st n
    assume r: "r = Inr (st, n)"
    have "srv_inv L h X (put_connection fd (c\<lparr>conn_socket := sock, closing := True, conn_output := []\<rparr>) s)"
      by (rule put_inv [OF inv c]) (use conn_ok_dropped e [OF r] in auto)
    then show "srv_inv L h X (put_connection fd (c\<lparr>conn_socket := sock, closing := True, conn_output := []\<rparr>) s) \<and>
        connection_at cid fd (put_connection fd (c\<lparr>conn_socket := sock, closing := True, conn_output := []\<rparr>) s)"
      using cid by (simp add: connection_at_def)
  next
    fix n
    assume r: "r = Inr (Io_ok, n)"
    let ?c = "c\<lparr>conn_socket := sock, conn_output := drop n (conn_output c), last_activity := steady_at E (srv_tick s)\<rparr>"
    let ?s = "s\<lparr>srv_stats := add_bytes_out (of_nat n) (srv_stats s), srv_tick := srv_tick s + 1\<rparr>"
    have "srv_inv L h X ?s"
      using srv_inv_tick [of h X "s\<lparr>srv_stats := add_bytes_out (of_nat n) (srv_stats s)\<rparr>"] inv by simp
    then have "srv_inv L h X (put_connection fd ?c ?s)"
      by (rule put_inv [where c = c]) (use c conn_ok_sent e [OF r] in auto)
    then show "srv_inv L h X (put_connection fd ?c ?s) \<and> connection_at cid fd (put_connection fd ?c ?s)"
      using cid by (simp add: connection_at_def)
  qed (use inv has in simp_all)
qed

lemma write_connection_inv:
  assumes "srv_inv L h X s" and "connection_at cid fd s"
  shows "wp (write_connection E fd) (\<lambda>_ s'. srv_inv L h X s' \<and> connection_at cid fd s') thrown s"
proof (rule wp_loop [where I = "\<lambda>s. srv_inv L h X s \<and> connection_at cid fd s" and m = "unsent fd"])
  fix s
  assume i: "srv_inv L h X s \<and> connection_at cid fd s"
  then have r: "wp (write_round E fd) (\<lambda>_ s'. srv_inv L h X s' \<and> connection_at cid fd s') thrown s"
    by (intro write_round_inv) simp_all
  show "wp (write_round E fd) (\<lambda>b s'. if b then (srv_inv L h X s' \<and> connection_at cid fd s') \<and>
      unsent fd s' < unsent fd s else srv_inv L h X s' \<and> connection_at cid fd s') thrown s"
    by (rule wp_mono [OF wp_conj [OF r write_round_frame]]) auto
qed (use assms in \<open>simp_all add: write_connection.simps\<close>)

lemma compute_interest_inv:
  assumes inv: "srv_inv L None X s" and has: "has_connection fd s"
  shows "wp (compute_interest E fd) (\<lambda>_ s'. srv_inv L None X s' \<and> has_connection fd s') thrown s"
proof -
  obtain c where c: "um_find fd (connections s) = Some c" using has by (auto simp: has_connection_def)
  have q: "wp (queue_saturated E) (\<lambda>_ s'. srv_inv L None X s' \<and> has_connection fd s') thrown s"
    by (rule wp_mono [OF queue_saturated_inv [OF inv]]) (use has background_has in blast)+
  then show ?thesis
    using c inv has
    by (auto simp: compute_interest_def wp_simps Let_def) (auto simp: wp_def split: sum.splits prod.splits)
qed

lemma set_interest_inv:
  assumes inv: "srv_inv L None X s" and has: "has_connection fd s"
  shows "wp (set_interest E fd interest) (\<lambda>_ s'. srv_inv L None X s' \<and> has_connection fd s') thrown s"
proof -
  obtain c where c: "um_find fd (connections s) = Some c" using has by (auto simp: has_connection_def)
  have i: "srv_inv L None X (s\<lparr>srv_tick := Suc (srv_tick s), srv_reactor := k\<rparr>)" for k
    using srv_inv_tick [OF inv] by simp
  have "srv_inv L None X (put_connection fd (c\<lparr>conn_interest := interest\<rparr>)
      (s\<lparr>srv_tick := Suc (srv_tick s), srv_reactor := k\<rparr>))" for k
    by (rule put_inv [OF i, where c = c]) (use c in auto)
  then show ?thesis
    using c inv has
    by (auto simp: set_interest_def wp_simps has_connection_def split: sum.split prod.split)
qed

lemma update_interest_inv:
  assumes inv: "srv_inv L None X s" and has: "has_connection fd s"
  shows "wp (update_interest E fd) (\<lambda>_ s'. srv_inv L None X s' \<and> has_connection fd s') thrown s"
  unfolding update_interest_def wp_bind
proof (rule wp_mono [OF compute_interest_inv [OF assms]])
  let ?Q = "\<lambda>_ s'. srv_inv L None X s' \<and> has_connection fd s'"
  fix interest s1
  assume i: "srv_inv L None X s1 \<and> has_connection fd s1"
  have again: "wp (bindS (compute_interest E fd) (set_interest E fd)) ?Q thrown s2"
    if "srv_inv L None X s2 \<and> has_connection fd s2" for s2
    unfolding wp_bind by (rule wp_mono [OF compute_interest_inv]) (use that set_interest_inv in auto)
  have resume: "wp (resume_reading E fd b) ?Q thrown s2" if "srv_inv L None X s2 \<and> has_connection fd s2" for b s2
  proof (cases b)
    case True
    have "wp (read_connection E fd) (\<lambda>_. wp (bindS (compute_interest E fd) (set_interest E fd)) ?Q thrown) thrown s2"
      by (rule wp_mono [OF read_connection_inv]) (use that again in auto)
    then show ?thesis using True by (simp add: resume_reading_def wp_then)
  qed (use that in \<open>simp add: resume_reading_def wp_return\<close>)
  have "wp (set_interest E fd interest) (\<lambda>_. wp (resume_reading E fd b) ?Q thrown) thrown s1" for b
    by (rule wp_mono [OF set_interest_inv]) (use i resume in auto)
  then show "wp (with_connection fd (\<lambda>c. thenS (set_interest E fd interest)
       (resume_reading E fd
         (has_interest interest interest_read \<and> \<not> has_interest (conn_interest c) interest_read))))
       ?Q thrown s1"
    using i by (auto simp: wp_with wp_then has_connection_def)
qed

lemma close_connection_inv:
  assumes inv: "srv_inv L None X s"
  shows "wp (close_connection E fd) (\<lambda>_ s'. srv_inv L None X s') thrown s"
proof (cases "um_find fd (connections s)")
  case (Some c)
  have wf: "um_wf (connections s)" using inv by (simp add: srv_inv_def core_inv_def conns_inv_def)
  have len: "length (connections s) = Suc (length (um_erase fd (connections s)))"
    using um_length_erase [OF Some] by simp
  have "srv_inv L None X (s\<lparr>srv_tick := Suc (srv_tick s), srv_reactor := k, connections := um_erase fd (connections s),
      srv_stats := on_disconnect (srv_stats s)\<rparr>)" for k
    using srv_inv_tick [OF inv] conns_inv_erase len um.find_erase [OF wf]
    by (auto simp: srv_inv_def core_inv_def on_disconnect_def split: if_splits)
  then show ?thesis using Some by (simp add: close_connection_def wp_def bindS_def askS_def modifyS_def)
qed (use inv in \<open>simp add: close_connection_def wp_def\<close>)

lemma close_or_update_inv:
  assumes "srv_inv L None X s" and "has_connection fd s"
  shows "wp (close_or_update E fd) (\<lambda>_ s'. srv_inv L None X s') thrown s"
proof -
  have "wp (update_interest E fd) (\<lambda>_ s'. srv_inv L None X s') thrown s"
    by (rule wp_mono [OF update_interest_inv [OF assms]]) simp_all
  then show ?thesis
    using assms(2) close_connection_inv [OF assms(1), of fd]
    by (auto simp: close_or_update_def wp_simps has_connection_def)
qed

section \<open>Completions\<close>

lemma continue_strand_inv:
  assumes inv: "srv_inv L (Some (conn_id c)) X s" and c: "um_find fd (connections s) = Some c"
  shows "wp (continue_strand E fd) (\<lambda>_ s'. srv_inv L None X s' \<and> has_connection fd s') thrown s"
proof -
  have l: "wp (launch_strand E fd) (\<lambda>_ s'. srv_inv L None X s' \<and> has_connection fd s') thrown s"
    by (rule wp_mono [OF launch_strand_inv [OF inv c]]) (auto simp: has_connection_def)
  then show ?thesis
    using c by (cases "command_queue c") (simp_all add: continue_strand_def launch_strand_def wp_simps)
qed

lemma find_connection_Some:
  assumes "find_connection cid cs = Some fd" and wf: "um_wf cs"
  shows "\<exists>c. um_find fd cs = Some c \<and> conn_id c = cid"
proof -
  obtain p where "find (\<lambda>(fd, c). conn_id c = cid) cs = Some p" "fd = fst p"
    using assms(1) by (auto simp: find_connection_def)
  then have "p \<in> set cs" "conn_id (snd p) = cid"
    by (auto simp: find_Some_iff split_beta)
  then show ?thesis
    using um.find_entries [OF wf, of fd "snd p"] \<open>fd = fst p\<close> by auto
qed

lemma find_connection_None:
  assumes "find_connection cid cs = None" and wf: "um_wf cs" and "um_find fd cs = Some c"
  shows "conn_id c \<noteq> cid"
proof -
  have "(fd, c) \<in> set cs" using assms(3) um.find_entries [OF wf] by simp
  then show ?thesis using assms(1) by (auto simp: find_connection_def find_None_iff)
qed

lemma apply_completion_inv:
  assumes inv: "srv_inv L None (X + {#Publish d#}) s"
  shows "wp (apply_completion E d) (\<lambda>_ s'. srv_inv L None X s') thrown s"
proof -
  have wf: "um_wf (connections s)" using inv by (simp add: srv_inv_def core_inv_def conns_inv_def)
  show ?thesis
  proof (cases "find_connection (comp_conn d) (connections s)")
    case None
    have "conns_inv (srv_config s) None (open_jobs s + X) (srv_history s) (connections s)"
      by (rule conns_inv_drop [of _ _ _ "Publish d"])
        (use inv find_connection_None [OF None wf] in \<open>auto simp: srv_inv_def core_inv_def\<close>)
    then have "srv_inv L None X s" using inv by (auto simp: srv_inv_def core_inv_def)
    then show ?thesis using None by (simp add: wp_def apply_completion_def)
  next
    case (Some fd)
    then obtain c where c: "um_find fd (connections s) = Some c" "conn_id c = comp_conn d"
      using find_connection_Some [OF _ wf] by blast
    define s1 where "s1 = s\<lparr>srv_stats := on_command (comp_error d) (srv_stats s), srv_tick := Suc (srv_tick s)\<rparr>"
    define c' where "c' = (accept_response (max_output_buffer_bytes (srv_config s)) d c)
      \<lparr>last_activity := steady_at E (srv_tick s)\<rparr>"
    have i1: "srv_inv L None (X + {#Publish d#}) s1"
      using srv_inv_tick [of None "X + {#Publish d#}" "s\<lparr>srv_stats := on_command (comp_error d) (srv_stats s)\<rparr>"] inv
      by (simp add: s1_def)
    have c1: "um_find fd (connections s1) = Some c" "srv_config s1 = srv_config s" using c by (simp_all add: s1_def)
    have c': "conn_id c' = conn_id c" "conn_socket c' = conn_socket c"
      by (simp_all add: c'_def accept_response_def)
    have i2: "srv_inv L (Some (conn_id c)) X (put_connection fd c' s1)"
    proof (rule put_move [OF i1 c1(1) c'(1)])
      fix jo H
      assume M: "filter_mset (\<lambda>j. job_conn j = conn_id c) (open_jobs s1 + (X + {#Publish d#})) = job_mset jo"
        and ok: "conn_ok (srv_config s1) (None = Some (conn_id c)) jo H c"
      have "job_mset jo = filter_mset (\<lambda>j. job_conn j = conn_id c) (open_jobs s1 + X) + {#Publish d#}"
        using M c(2) by simp
      then have "jo = Some (Publish d)" "filter_mset (\<lambda>j. job_conn j = conn_id c) (open_jobs s1 + X) = {#}"
        using job_mset_cases by blast+
      then show "\<exists>jo'. filter_mset (\<lambda>j. job_conn j = conn_id c) (open_jobs s1 + X) = job_mset jo' \<and>
          conn_ok (srv_config s1) (Some (conn_id c) = Some (conn_id c)) jo' H c'"
        using conn_ok_response [of "srv_config s1" d H c] ok c1(2)
        by (intro exI [of _ None]) (simp add: job_mset_def c'_def)
    qed (use c c' in auto)
    let ?rest = "thenS (flush_output E fd) (when_connected fd (thenS (continue_strand E fd) (close_or_update E fd)))"
    have rest: "wp (when_connected fd (thenS (continue_strand E fd) (close_or_update E fd)))
        (\<lambda>_ s'. srv_inv L None X s') thrown s2"
      if i: "srv_inv L (Some (conn_id c)) X s2 \<and> connection_at (conn_id c) fd s2" for s2
    proof -
      obtain c2 where c2: "um_find fd (connections s2) = Some c2" "conn_id c2 = conn_id c"
        using i by (auto simp: connection_at_def)
      have "wp (continue_strand E fd) (\<lambda>_. wp (close_or_update E fd) (\<lambda>_ s'. srv_inv L None X s') thrown) thrown s2"
        by (rule wp_mono [OF continue_strand_inv [OF _ c2(1)]]) (use i c2 close_or_update_inv in auto)
      then show ?thesis using c2 by (simp add: wp_simps)
    qed
    have at: "connection_at (conn_id c) fd (put_connection fd c' s1)" using c' by (simp add: connection_at_def)
    have flush: "wp (flush_output E fd) (\<lambda>_ s'. srv_inv L (Some (conn_id c)) X s' \<and>
        connection_at (conn_id c) fd s') thrown (put_connection fd c' s1)"
      using write_connection_inv [OF i2 at] i2 at by (auto simp: flush_output_def wp_simps)
    have "wp ?rest (\<lambda>_ s'. srv_inv L None X s') thrown (put_connection fd c' s1)"
      unfolding wp_then by (rule wp_mono [OF flush]) (use rest in \<open>simp_all add: wp_then\<close>)
    then show ?thesis
      using Some c by (simp add: wp_def apply_completion_def thenS_def bindS_def on_stats_def modifyS_def
          on_connection_def with_connection_def askS_def c'_def s1_def)
  qed
qed

lemma apply_completions_inv:
  "srv_inv L None (X + mset (map Publish ds)) s \<Longrightarrow>
   wp (apply_completions E ds) (\<lambda>_ s'. srv_inv L None X s') thrown s"
proof (induction ds arbitrary: s)
  case (Cons d ds)
  have i: "srv_inv L None ((X + mset (map Publish ds)) + {#Publish d#}) s"
    using Cons.prems by (simp add: ac_simps)
  show ?case
    unfolding apply_completions.simps wp_then
    by (rule wp_mono [OF apply_completion_inv [OF i]]) (auto intro: Cons.IH)
qed (simp add: wp_simps)

lemma drain_completions_inv:
  assumes "srv_inv L None X s"
  shows "wp (drain_completions E) (\<lambda>_ s'. srv_inv L None X s') thrown s"
proof (rule wp_loop [where I = "srv_inv L None X" and m = server_work])
  fix s
  assume inv: "srv_inv L None X s"
  have r: "wp (drain_round E) (\<lambda>_ s'. srv_inv L None X s') thrown s"
    unfolding drain_round_def wp_simps
  proof (rule wp_mono [OF interleave_inv [OF inv]])
    fix s1
    assume "srv_inv L None X s1 \<and> background s s1"
    then have i: "srv_inv L None (X + mset (map Publish (completions s1))) (s1\<lparr>completions := []\<rparr>)"
      by (simp add: srv_inv_def open_jobs_def ac_simps)
    show "(if completions s1 = [] then srv_inv L None X
        else wp (apply_completions E (completions s1)) (\<lambda>_ s'. srv_inv L None X s') thrown) (s1\<lparr>completions := []\<rparr>)"
      using i apply_completions_inv [OF i] by auto
  qed simp
  show "wp (drain_round E) (\<lambda>b s'. if b then srv_inv L None X s' \<and> server_work s' < server_work s
      else srv_inv L None X s') thrown s"
    by (rule wp_mono [OF wp_conj [OF r drain_round_frame]]) auto
qed (use assms in \<open>simp_all add: drain_completions.simps\<close>)

end

end
