(* ===== verification/Server_Run.thy ===== *)
theory Server_Run
  imports Server_Inv
begin

text \<open>
  The invariant through accepting, the events and the event loop, from the constructor on.
\<close>

section \<open>A new connection\<close>

lemma um_store_absent: "um_find k m = None \<Longrightarrow> um_store k v m = m @ [(k, v)]"
  by (induction k v m rule: um_store.induct) (auto split: if_splits)

lemma conns_inv_new:
  assumes inv: "conns_inv cfg None M H cs" and fd: "um_find fd cs = None" "descriptor (conn_socket c) = fd"
    and jobs: "\<And>j. j \<in># M \<Longrightarrow> job_conn j \<noteq> conn_id c" and hist: "\<And>x. x \<in> set H \<Longrightarrow> ex_conn x \<noteq> conn_id c"
    and ids: "\<And>fd' c'. um_find fd' cs = Some c' \<Longrightarrow> conn_id c' \<noteq> conn_id c"
    and ok: "conn_ok cfg False None [] c"
  shows "conns_inv cfg None M H (um_store fd c cs)"
proof -
  have wf: "um_wf cs" using inv by (simp add: conns_inv_def)
  have "filter_mset (\<lambda>j. job_conn j = conn_id c) M = {#}" using jobs by (auto intro!: multiset_eqI simp: count_eq_zero_iff)
  moreover have "filter (\<lambda>x. ex_conn x = conn_id c) H = []" using hist by (auto simp: filter_empty_conv)
  ultimately have "conn_inv cfg None M H c"
    using ok by (auto simp: conn_inv_def job_mset_def intro!: exI [of _ None])
  moreover have "conn_id c \<notin> set (map (conn_id \<circ> snd) cs)"
    using ids um.find_entries [OF wf] by fastforce
  moreover from this have "distinct (map (conn_id \<circ> snd) (um_store fd c cs))"
    using inv by (simp add: conns_inv_def um_store_absent [OF fd(1)])
  ultimately show ?thesis
    using inv fd(2) wf by (auto simp: conns_inv_def um.wf_store um_find_store)
qed

lemma conn_ok_new:
  assumes "received sock = []" and "sent sock = []"
  shows "conn_ok cfg False None [] (new_connection cid sock (cfg_parser_limits cfg) t)"
  using assms
  by (simp add: conn_ok_def conn_line_def new_connection_def new_parser_def size_job_mset request_frames.none)

context ledger
begin

section \<open>Accepting\<close>

lemma register_connection_inv:
  assumes inv: "srv_inv L None X s" and room: "length (connections s) < max_connections (srv_config s)"
    and ids: "unat (next_connection_id s) + 1 + length (srv_accepts s) < 2 ^ 64"
    and sock: "received sock = []" "sent sock = []" "um_find (native_handle sock) (connections s) = None"
  shows "wp (register_connection E sock)
    (\<lambda>_ s'. srv_inv L None X s' \<and> has_connection (native_handle sock) s') thrown s"
proof -
  let ?fd = "native_handle sock" and ?cid = "next_connection_id s"
  have inc: "unat (?cid + 1) = unat ?cid + 1" using ids by (intro unat_inc) simp
  then have lt: "?cid < ?cid + 1" by (simp add: word_less_nat_alt)
  have tick: "L (srv_config s) (srv_tick s + 2) (srv_store s) (srv_persistence s) (srv_history s)"
    using inv by (simp add: srv_inv_def core_inv_def later)
  have core: "core_inv L None (open_jobs s + X) s" using inv by (simp add: srv_inv_def)
  have old: "conn_id c \<noteq> ?cid" if "um_find fd (connections s) = Some c" for fd c
    using core that unfolding core_inv_def by (metis less_irrefl)
  have "srv_inv L None X (put_connection ?fd (new_connection ?cid sock (cfg_parser_limits (srv_config s)) t)
      (s\<lparr>next_connection_id := ?cid + 1, srv_tick := Suc (Suc (srv_tick s)), srv_reactor := k,
         srv_stats := on_accept (srv_stats s)\<rparr>))" (is "srv_inv L None X (put_connection _ ?c ?s)") for t k
  proof -
    have "conns_inv (srv_config s) None (open_jobs s + X) (srv_history s) (um_store ?fd ?c (connections s))"
      by (rule conns_inv_new)
        (use core sock old conn_ok_new [OF sock(1,2)] in
          \<open>auto simp: core_inv_def new_connection_def native_handle_def\<close>)
    moreover have "length (um_store ?fd ?c (connections s)) = Suc (length (connections s))"
      by (simp add: um_store_absent [OF sock(3)])
    moreover have "open_jobs ?s = open_jobs s" by (simp add: open_jobs_def)
    moreover have "conn_id ?c = ?cid" by (simp add: new_connection_def)
    moreover have "x < ?cid + 1" if "x < ?cid" for x using that lt by (rule less_trans)
    ultimately show ?thesis
      using core room ids inc lt tick
      by (auto simp: srv_inv_def core_inv_def put_connection_def um_find_store on_accept_def algebra_simps)
  qed
  then show ?thesis
    by (auto simp: register_connection_def wp_simps has_connection_def split: prod.split sum.split)
qed

lemma when_connected_inv:
  assumes "srv_inv L None X s" and "has_connection fd s \<Longrightarrow> wp m (\<lambda>_ s'. srv_inv L None X s') thrown s"
  shows "wp (when_connected fd m) (\<lambda>_ s'. srv_inv L None X s') thrown s"
  using assms by (auto simp: wp_when has_connection_def)

lemma admit_connection_inv:
  assumes inv: "srv_inv L None X s" and room: "length (connections s) < max_connections (srv_config s)"
    and ids: "unat (next_connection_id s) + 1 + length (srv_accepts s) < 2 ^ 64"
    and sock: "received sock = []" "sent sock = []" "um_find (native_handle sock) (connections s) = None"
  shows "wp (admit_connection E sock) (\<lambda>_ s'. srv_inv L None X s') thrown s"
proof -
  let ?fd = "native_handle sock" and ?s = "s\<lparr>srv_tick := Suc (srv_tick s)\<rparr>"
  let ?sock = "snd (set_nonblocking (os_at E (srv_tick s)) True sock)"
  let ?m = "thenS (read_connection E ?fd) (thenS (drain_completions E)
      (when_connected ?fd (close_or_update E ?fd)))"
  have sock': "received ?sock = []" "sent ?sock = []" "native_handle ?sock = ?fd"
    using sock by (simp_all add: set_nonblocking_def native_handle_def)
  have m: "wp ?m (\<lambda>_ s'. srv_inv L None X s') thrown s1" if "srv_inv L None X s1 \<and> has_connection ?fd s1" for s1
    unfolding wp_then
    by (rule wp_mono [OF read_connection_inv])
      (use that in \<open>auto intro!: wp_mono [OF drain_completions_inv] when_connected_inv close_or_update_inv\<close>)
  have "wp (register_connection E ?sock) (\<lambda>_ s'. srv_inv L None X s' \<and> has_connection ?fd s') thrown ?s"
    using register_connection_inv [of X ?s ?sock] srv_inv_tick [OF inv] room ids sock sock' by simp
  then have "wp (register_connection E ?sock) (\<lambda>_. wp ?m (\<lambda>_ s'. srv_inv L None X s') thrown) thrown ?s"
    by (rule wp_mono) (use m in auto)
  then show ?thesis
    by (auto simp: admit_connection_def wp_bind wp_ask wp_throw wp_then split: sum.split)
qed

lemma accept_round_inv:
  assumes inv: "srv_inv L None X s"
  shows "wp (accept_round E) (\<lambda>_ s'. srv_inv L None X s') thrown s"
  unfolding accept_round_def wp_then
proof (rule wp_mono [OF interleave_inv [OF inv]])
  fix s1
  assume "srv_inv L None X s1 \<and> background s s1"
  then have i: "srv_inv L None X s1" ..
  obtain r later fds where t: "try_accept (srv_accepts s1)
      (native_handle (srv_listener s1) # map fst (connections s1)) = (r, later, fds)"
    using prod_cases3 by blast
  then have r: "accept_call s1 = (r, later)" by (simp add: accept_call_def)
  have len: "length later \<le> length (srv_accepts s1)"
    using try_accept_suffix [OF t] .
  have i': "srv_inv L None X (s1\<lparr>srv_accepts := later\<rparr>)"
    using i len by (auto simp: srv_inv_def core_inv_def)
  have "wp (admit_connection E sock) (\<lambda>_ s'. srv_inv L None X s') thrown (s1\<lparr>srv_accepts := later\<rparr>)"
    if sock: "r = Inr (Some sock)" and room: "length (connections s1) < max_connections (srv_config s1)" for sock
  proof (rule admit_connection_inv [OF i'])
    have "length later < length (srv_accepts s1)" using try_accept_shrinks t sock by blast
    then show "unat (next_connection_id (s1\<lparr>srv_accepts := later\<rparr>)) + 1 +
        length (srv_accepts (s1\<lparr>srv_accepts := later\<rparr>)) < 2 ^ 64"
      using i by (simp add: srv_inv_def core_inv_def)
    have new: "received sock = [] \<and> sent sock = [] \<and>
        descriptor sock \<notin> set (native_handle (srv_listener s1) # map fst (connections s1))"
      using try_accept_new t sock by blast
    then show "received sock = []" "sent sock = []" by simp_all
    show "um_find (native_handle sock) (connections (s1\<lparr>srv_accepts := later\<rparr>)) = None"
      using new by (simp add: um_find_None native_handle_def)
  qed (use room in simp)
  then show "wp (\<lambda>s. if srv_stopping s \<or> length (connections s) \<ge> max_connections (srv_config s) then (Inr False, s)
       else case accept_call s of
         (Inl x, later) \<Rightarrow> (Inl (Thrown x), s\<lparr>srv_accepts := later\<rparr>)
       | (Inr None, later) \<Rightarrow> (Inr False, s\<lparr>srv_accepts := later\<rparr>)
       | (Inr (Some sock), later) \<Rightarrow>
           thenS (admit_connection E sock) (returnS True) (s\<lparr>srv_accepts := later\<rparr>))
     (\<lambda>_ s'. srv_inv L None X s') thrown s1"
    using r i i'
    by (auto simp: wp_def thenS_def bindS_def returnS_def split: sum.splits option.splits prod.splits)
qed simp

lemma accept_ready_inv:
  assumes "srv_inv L None X s"
  shows "wp (accept_ready E) (\<lambda>_ s'. srv_inv L None X s') thrown s"
proof (rule wp_loop [where I = "srv_inv L None X" and m = "\<lambda>s. length (srv_accepts s)"])
  fix s
  assume i: "srv_inv L None X s"
  show "wp (accept_round E) (\<lambda>b s'. if b then srv_inv L None X s' \<and> length (srv_accepts s') < length (srv_accepts s)
      else srv_inv L None X s') thrown s"
    by (rule wp_mono [OF wp_conj [OF accept_round_inv [OF i] accept_round_accepts]]) auto
qed (use assms in \<open>simp_all add: accept_ready.simps\<close>)

section \<open>Events and timed work\<close>

lemma handle_connection_event_inv:
  assumes inv: "srv_inv L None X s"
  shows "wp (handle_connection_event E ev) (\<lambda>_ s'. srv_inv L None X s') thrown s"
proof -
  let ?fd = "fired_fd ev" and ?Q = "\<lambda>_ s'. srv_inv L None X s'"
  have last: "wp (when_connected ?fd (close_or_update E ?fd)) ?Q thrown s1" if "srv_inv L None X s1" for s1
    using that by (intro when_connected_inv close_or_update_inv)
  have wr: "wp (when_connected ?fd (thenS (writable_event E ?fd b)
      (when_connected ?fd (close_or_update E ?fd)))) ?Q thrown s1" if i: "srv_inv L None X s1" for s1 b
  proof (rule when_connected_inv [OF i])
    assume "has_connection ?fd s1"
    then obtain cid where at: "connection_at cid ?fd s1" using has_at by blast
    have "wp (writable_event E ?fd b) ?Q thrown s1"
      using wp_mono [OF write_connection_inv [OF i at], of ?Q thrown] i
      by (cases b) (auto simp: writable_event_def wp_return)
    then show "wp (thenS (writable_event E ?fd b) (when_connected ?fd (close_or_update E ?fd))) ?Q thrown s1"
      unfolding wp_then by (rule wp_mono) (use last in auto)
  qed
  have rd: "wp (readable_event E ?fd b) ?Q thrown s" if has: "has_connection ?fd s" for b
  proof (cases b)
    case True
    have "wp (read_connection E ?fd) (\<lambda>_. wp (drain_completions E) ?Q thrown) thrown s"
      by (rule wp_mono [OF read_connection_inv [OF inv has]]) (use drain_completions_inv in auto)
    then show ?thesis using True by (simp add: readable_event_def wp_then)
  qed (use inv in \<open>simp add: readable_event_def wp_return\<close>)
  show ?thesis
    unfolding handle_connection_event_def Let_def
  proof (rule when_connected_inv [OF inv])
    assume has: "has_connection ?fd s"
    have "wp (thenS (readable_event E ?fd b) (when_connected ?fd (thenS (writable_event E ?fd b')
        (when_connected ?fd (close_or_update E ?fd))))) ?Q thrown s" for b b'
      unfolding wp_then [of "readable_event E ?fd b"] by (rule wp_mono [OF rd [OF has]]) (use wr in auto)
    then show "wp (if fired_error ev then close_connection E ?fd
         else thenS (readable_event E ?fd (has_interest (fired_ready ev) interest_read \<or> fired_hangup ev))
           (when_connected ?fd
             (thenS (writable_event E ?fd (has_interest (fired_ready ev) interest_write))
               (when_connected ?fd (close_or_update E ?fd))))) ?Q thrown s"
      using close_connection_inv [OF inv] by simp
  qed
qed

lemma handle_events_inv:
  "srv_inv L None X s \<Longrightarrow> wp (handle_events E evs) (\<lambda>_ s'. srv_inv L None X s') thrown s"
proof (induction evs arbitrary: s)
  case (Cons ev evs)
  have "wp (if b then accept_ready E else handle_connection_event E ev)
      (\<lambda>_. wp (handle_events E evs) (\<lambda>_ s'. srv_inv L None X s') thrown) thrown s" for b
    using wp_mono [OF accept_ready_inv [OF Cons.prems] Cons.IH]
      wp_mono [OF handle_connection_event_inv [OF Cons.prems] Cons.IH] by (cases b) auto
  then show ?case by (simp add: wp_bind wp_then wp_get)
qed (simp add: wp_return)

lemma run_active_expiry_inv:
  assumes inv: "srv_inv L None X s"
  shows "wp (run_active_expiry E) (\<lambda>_ s'. srv_inv L None X s') thrown s"
proof -
  have cycle: "wp (run_expiry_cycle E) (\<lambda>_ s'. srv_inv L None X s') thrown s1" if i: "srv_inv L None X s1" for s1
    using i expires
    by (auto simp: run_expiry_cycle_def wp_bind wp_ask wp_def srv_inv_def core_inv_def open_jobs_def
        split: sum.splits)
  show ?thesis
    using inv srv_inv_tick [OF inv] cycle by (auto simp: run_active_expiry_def wp_simps)
qed

lemma close_all_inv:
  "srv_inv L None X s \<Longrightarrow> wp (close_all E fds) (\<lambda>_ s'. srv_inv L None X s') thrown s"
proof (induction fds arbitrary: s)
  case (Cons fd fds)
  show ?case
    unfolding close_all.simps wp_then
    by (rule wp_mono [OF close_connection_inv [OF Cons.prems] Cons.IH]) simp_all
qed (simp add: wp_return)

lemma close_idle_inv:
  assumes "srv_inv L None X s"
  shows "wp (close_idle_connections E) (\<lambda>_ s'. srv_inv L None X s') thrown s"
  using assms close_all_inv srv_inv_tick by (auto simp: close_idle_connections_def wp_simps)

lemma snapshot_if_due_inv:
  assumes inv: "srv_inv L None X s"
  shows "wp (snapshot_if_due E) (\<lambda>_ s'. srv_inv L None X s') thrown s"
proof (cases "srv_persistence s")
  case None
  then show ?thesis
    using inv later
    by (simp add: snapshot_if_due_def wp_simps) (simp add: wp_def srv_inv_def core_inv_def open_jobs_def)
next
  case (Some e)
  obtain r e' st where m: "maybe_snapshot (env_os (command_at E (srv_tick s))) (os_at E (Suc (srv_tick s)))
      (env_abi (command_at E (srv_tick s))) (clock0 (command_at E (srv_tick s))) (steady_at E (Suc (Suc (srv_tick s))))
      (steady_now (command_at E (srv_tick s))) e (srv_store s) = (r, e', st)"
    using prod_cases3 by blast
  have "L (srv_config s) (Suc (srv_tick s)) st (Some e') (srv_history s)"
    by (rule snapshots [OF _ m]) (use inv Some in \<open>simp add: srv_inv_def core_inv_def\<close>)
  then have "L (srv_config s) (Suc (Suc (Suc (srv_tick s)))) st (Some e') (srv_history s)"
    by (rule later [OF later])
  then show ?thesis
    using inv Some m
    by (simp add: snapshot_if_due_def wp_simps) (simp add: wp_def srv_inv_def core_inv_def open_jobs_def)
qed

section \<open>The event loop\<close>

lemma serve_events_inv:
  assumes "srv_inv L None X s"
  shows "wp (serve_events E events) (\<lambda>_ s'. srv_inv L None X s') thrown s"
  unfolding serve_events_def wp_then wp_modify
  by (rule wp_mono [OF drain_completions_inv [OF assms]],
      rule wp_mono [OF handle_events_inv], assumption,
      rule wp_mono [OF drain_completions_inv], assumption,
      rule wp_mono [OF run_active_expiry_inv], assumption,
      rule wp_mono [OF close_idle_inv], assumption,
      rule wp_mono [OF snapshot_if_due_inv], assumption) simp_all

lemma run_round_inv:
  assumes inv: "srv_inv L None X s"
  shows "wp (run_round E kq) (\<lambda>_ s'. srv_inv L None X s') thrown s"
proof -
  let ?Q = "\<lambda>_ s'. srv_inv L None X s'"
  have after: "wp (after_wait E events) ?Q thrown s1" if "srv_inv L None X s1" for events s1
    unfolding after_wait_def wp_then wp_bind wp_get
    by (rule wp_mono [OF interleave_inv [OF that]]) (auto simp: wp_simps intro: serve_events_inv)
  have wait: "wp (wait_timeout E) (\<lambda>timeout. wp (case reactor_wait kq 64 timeout of
      Inl x \<Rightarrow> throwS x | Inr events \<Rightarrow> after_wait E events) ?Q thrown) thrown s1"
    if i: "srv_inv L None X s1" for s1
  proof -
    have "wp (case reactor_wait kq 64 timeout of Inl x \<Rightarrow> throwS x | Inr events \<Rightarrow> after_wait E events)
        ?Q thrown s2" if "srv_inv L None X s2" for s2 timeout
      using after [OF that] by (auto simp: wp_throw split: sum.split)
    then show ?thesis
      using i srv_inv_tick [OF i] by (auto simp: wait_timeout_def wp_simps)
  qed
  show ?thesis
    unfolding run_round_def wp_then wp_bind wp_get
    by (rule wp_mono [OF interleave_inv [OF inv]]) (use wait in \<open>auto simp: wp_simps\<close>)
qed

text \<open>Whatever the kernel answers: a running server satisfies the invariant.\<close>

lemma run_loop_inv:
  assumes "srv_inv L None X s" and "run_loop E kqs s = (r, s')"
  shows "(r = None \<longrightarrow> srv_inv L None X s') \<and> (\<forall>fd. r \<noteq> Some (Inl (Dangling fd)))"
  using assms
proof (induction kqs arbitrary: s)
  case (Cons kq kqs)
  obtain q s1 where q: "run_round E kq s = (q, s1)" by fastforce
  note w = run_round_inv [OF Cons.prems(1), of kq]
  show ?case
  proof (cases q)
    case (Inl x)
    then show ?thesis using wp_result(2) [OF w] q Cons.prems(2) by (auto simp: thrown_def)
  next
    case (Inr b)
    then have i: "srv_inv L None X s1" using wp_result(1) [OF w] q by simp
    show ?thesis
    proof (cases b)
      case True
      then show ?thesis using Cons.IH [OF i] Cons.prems(2) q Inr by simp
    next
      case False
      then have e: "run_end E s1 = (r, s')" using Cons.prems(2) q Inr by simp
      obtain p s2 where p: "close_all E (map fst (connections s1)) s1 = (p, s2)" by fastforce
      show ?thesis
      proof (cases p)
        case (Inl x)
        then show ?thesis
          using wp_result(2) [OF close_all_inv [OF i]] p e by (auto simp: run_end_def thrown_def)
      next
        case (Inr u)
        have i2: "srv_inv L None X s2" using wp_result(1) [OF close_all_inv [OF i]] p Inr by simp
        have i3: "srv_inv L None X (s2\<lparr>srv_workers := snd (begin_shutdown (srv_workers s2))\<rparr>)"
          using i2 by (simp add: srv_inv_def open_jobs_def begin_shutdown_def)
        show ?thesis
          using e p Inr wp_result [OF interleave_inv [OF i3]]
          by (auto simp: run_end_def join_workers_def thrown_def split: prod.splits sum.splits bool.splits if_splits)
      qed
    qed
  qed
qed simp

end

section \<open>The constructor\<close>

lemma new_server_inv:
  assumes "new_server u cfg = Inr s" and "length (setup_accepts u) < 2 ^ 64 - 1"
    and "L cfg 0 (srv_store s) (srv_persistence s) []"
  shows "srv_inv L None {#} s"
proof -
  have "running_jobs (replicate n (Waiting :: job worker)) = []" for n by (induction n) auto
  then show ?thesis
    using assms
    by (auto simp: new_server_def new_thread_pool_def srv_inv_def core_inv_def conns_inv_def open_jobs_def
        new_stats_def split: if_splits)
qed

end
