(* ===== verification/Snapshot_Spec.thy ===== *)
theory Snapshot_Spec
  imports Snapshot Store_Spec
begin

text \<open>
  Laws of snapshots: values and entries are strict codecs, a written snapshot reads back, a
  damaged one is rejected as a whole, and writing replaces the old snapshot in one step.
\<close>

section \<open>Codecs\<close>

lemma foldl_append_enc:
  "(\<And>out x. f out x = out @ f [] x) \<Longrightarrow> foldl f out xs = out @ concat (map (f []) xs)"
proof (induction xs arbitrary: out)
  case Nil
  show ?case by simp
next
  case (Cons x xs)
  have "foldl f (f out x) xs = f out x @ concat (map (f []) xs)"
    by (rule Cons.IH) (rule Cons.prems)
  then show ?case using Cons.prems [of out x] by simp
qed

lemma append_items_bytes_out:
  "append_items_bytes out items =
     out @ append_u32 [] (of_nat (length items)) @ concat (map (append_bytes []) items)"
  unfolding append_items_bytes_def
  by (subst foldl_append_enc) (simp_all add: append_out(6) [of "_ # _"] append_defs)

definition items_ok :: "string list \<Rightarrow> bool" where
  "items_ok items \<longleftrightarrow> fits_u32 items \<and> list_all fits_u32 items"

interpretation items: strict_codec "append_items_bytes []" read_items items_ok
proof
  fix x :: "string list" and r
  assume "items_ok x"
  then show "read_items (append_items_bytes [] x @ r) = Inr (x, r)"
    by (simp add: append_items_bytes_out read_items_def u32.dec_enc items_ok_def unat_length_u32
        bytes.read_times_enc)
next
  fix x :: "string list" and p
  assume ok: "items_ok x" and "strict_prefix p (append_items_bytes [] x)"
  then have "strict_prefix p (append_u32 [] (of_nat (length x)) @ concat (map (append_bytes []) x))"
    by (simp add: append_items_bytes_out)
  then show "\<exists>e. read_items p = Inl e"
  proof (cases rule: strict_prefix_append_cases)
    case 1
    then show ?thesis using u32.dec_truncated by (fastforce simp: read_items_def)
  next
    case (2 q)
    then obtain e where "read_times read_bytes (length x) q = Inl e"
      using bytes.read_times_truncated ok items_ok_def by blast
    then show ?thesis
      using ok by (simp add: read_items_def 2(1) u32.dec_enc items_ok_def unat_length_u32)
  qed
qed

text \<open>A value is a type byte and a payload.\<close>

fun type_byte :: "cell \<Rightarrow> u8" where
  "type_byte (VString _) = 0"
| "type_byte (VInt _) = 1"
| "type_byte (VList _) = 2"
| "type_byte (VSet _) = 3"

fun value_payload :: "cell \<Rightarrow> string" where
  "value_payload (VString s) = append_bytes [] s"
| "value_payload (VInt i) = append_i64 [] i"
| "value_payload (VList items) = append_items_bytes [] items"
| "value_payload (VSet items) = append_items_bytes [] items"

fun value_ok :: "cell \<Rightarrow> bool" where
  "value_ok (VString s) = fits_u32 s"
| "value_ok (VInt _) = True"
| "value_ok (VList items) = items_ok items"
| "value_ok (VSet items) = (items_ok items \<and> distinct items)"

lemma append_value_out: "append_value out v = out @ append_u8 [] (type_byte v) @ value_payload v"
  by (cases v) (simp_all add: append_items_bytes_out append_defs)

lemma set_insert_distinct:
  "distinct (acc @ items) \<Longrightarrow> foldl set_insert acc items = acc @ items"
  by (induction items arbitrary: acc) (simp_all add: set_insert_def)

interpretation vals: strict_codec "append_value []" read_value value_ok
proof
  fix x r
  assume "value_ok x"
  then show "read_value (append_value [] x @ r) = Inr (x, r)"
    by (cases x) (simp_all add: append_value_out read_value_def u8.dec_enc bytes.dec_enc i64.dec_enc
        items.dec_enc set_insert_distinct del: append_value.simps)
next
  fix x p
  assume ok: "value_ok x" and "strict_prefix p (append_value [] x)"
  then have "strict_prefix p (append_u8 [] (type_byte x) @ value_payload x)"
    by (simp only: append_value_out append_Nil)
  then show "\<exists>e. read_value p = Inl e"
  proof (cases rule: strict_prefix_append_cases)
    case 1
    then show ?thesis using u8.dec_truncated by (fastforce simp: read_value_def)
  next
    case (2 q)
    then show ?thesis
      using ok bytes.dec_truncated i64.dec_truncated items.dec_truncated
      by (cases x) (fastforce simp: read_value_def u8.dec_enc)+
  qed
qed

section \<open>Times and entries\<close>

text \<open>What the C++ implementation guarantees: a tick is a whole part of a millisecond.\<close>

definition platform_ok :: "abi \<Rightarrow> bool" where
  "platform_ok A \<longleftrightarrow> 0 < tick_ns A \<and> tick_ns A dvd 1000000"

lemma to_from_unix_ms:
  assumes "platform_ok A"
  shows "to_unix_ms A (from_unix_ms A ms) = ms"
proof -
  have t1: "1000000 div tick_ns A * tick_ns A = 1000000" and "0 < tick_ns A"
    using assms by (simp_all add: platform_ok_def)
  then have t2: "0 < 1000000 div tick_ns A"
    by (metis zero_less_mult_pos2 zero_less_numeral)
  note t = t1 t2
  have "sgn (sint ms * (1000000 div tick_ns A)) = sgn (sint ms)"
    using t(2) by (simp add: sgn_mult)
  moreover have "\<bar>sint ms * (1000000 div tick_ns A)\<bar> * tick_ns A = \<bar>sint ms\<bar> * 1000000"
    using t by (simp add: abs_mult mult.assoc)
  ultimately show ?thesis
    by (simp add: to_unix_ms_def from_unix_ms_def mult.commute [of "sgn _"] abs_mult_sgn)
qed

definition round_ms :: "abi \<Rightarrow> int \<Rightarrow> int" where
  "round_ms A t = from_unix_ms A (to_unix_ms A t)"

definition round_entry :: "abi \<Rightarrow> persisted_entry \<Rightarrow> persisted_entry" where
  "round_entry A pe = pe\<lparr>pe_expiry_wall := map_option (round_ms A) (pe_expiry_wall pe)\<rparr>"

text \<open>Entries whose sizes fit, and those whose expiry is a whole number of milliseconds.\<close>

definition entry_fits :: "persisted_entry \<Rightarrow> bool" where
  "entry_fits pe \<longleftrightarrow> fits_u32 (pe_key pe) \<and> value_ok (pe_value pe)"

definition entry_aligned :: "abi \<Rightarrow> persisted_entry \<Rightarrow> bool" where
  "entry_aligned A pe \<longleftrightarrow> entry_fits pe \<and> round_entry A pe = pe"

definition expiry_bytes :: "abi \<Rightarrow> int option \<Rightarrow> string" where
  "expiry_bytes A x =
     (case x of None \<Rightarrow> append_u8 [] 0 | Some t \<Rightarrow> append_u8 [] 1 @ append_i64 [] (to_unix_ms A t))"

lemma append_entry_out:
  "append_entry A out pe =
     out @ append_bytes [] (pe_key pe) @ append_value [] (pe_value pe) @ expiry_bytes A (pe_expiry_wall pe)"
  by (simp add: append_entry_def expiry_bytes_def Let_def append_value_out append_defs
      del: append_value.simps split: option.split)

lemma round_entry_idem:
  "platform_ok A \<Longrightarrow> round_entry A (round_entry A pe) = round_entry A pe"
  by (cases "pe_expiry_wall pe") (simp_all add: round_entry_def round_ms_def to_from_unix_ms)

lemma append_entry_round:
  "platform_ok A \<Longrightarrow> append_entry A out (round_entry A pe) = append_entry A out pe"
  by (cases "pe_expiry_wall pe")
    (simp_all add: append_entry_out expiry_bytes_def round_entry_def round_ms_def to_from_unix_ms)

lemma round_entry_aligned:
  "platform_ok A \<Longrightarrow> entry_fits pe \<Longrightarrow> entry_aligned A (round_entry A pe)"
  by (simp add: entry_aligned_def round_entry_idem) (simp add: entry_fits_def round_entry_def)

lemma aligned_expiry:
  assumes "entry_aligned A pe" and "pe_expiry_wall pe = Some t"
  shows "from_unix_ms A (to_unix_ms A t) = t"
proof -
  have "pe_expiry_wall (round_entry A pe) = pe_expiry_wall pe"
    using assms(1) by (simp add: entry_aligned_def)
  then show ?thesis using assms(2) by (simp add: round_entry_def round_ms_def)
qed

interpretation entries: strict_codec "append_entry A []" "read_entry A" "entry_aligned A" for A
proof
  fix x r
  assume ok: "entry_aligned A x"
  then have fits: "fits_u32 (pe_key x)" "value_ok (pe_value x)"
    by (simp_all add: entry_aligned_def entry_fits_def)
  show "read_entry A (append_entry A [] x @ r) = Inr (x, r)"
  proof (cases "pe_expiry_wall x")
    case None
    then show ?thesis
      by (simp add: append_entry_out read_entry_def bytes.dec_enc vals.dec_enc u8.dec_enc fits
          expiry_bytes_def)
  next
    case (Some t)
    then show ?thesis
      using aligned_expiry [OF ok Some]
      by (simp add: append_entry_out read_entry_def bytes.dec_enc vals.dec_enc u8.dec_enc
          i64.dec_enc fits expiry_bytes_def)
  qed
next
  fix x p
  assume ok: "entry_aligned A x" and "strict_prefix p (append_entry A [] x)"
  then have p: "strict_prefix p (append_bytes [] (pe_key x) @ append_value [] (pe_value x) @
      expiry_bytes A (pe_expiry_wall x))"
    by (simp add: append_entry_out)
  have fits: "fits_u32 (pe_key x)" "value_ok (pe_value x)"
    using ok by (simp_all add: entry_aligned_def entry_fits_def)
  from p show "\<exists>e. read_entry A p = Inl e"
  proof (cases rule: strict_prefix_append_cases)
    case 1
    then show ?thesis using bytes.dec_truncated fits by (fastforce simp: read_entry_def)
  next
    case (2 q)
    from 2(2) show ?thesis
    proof (cases rule: strict_prefix_append_cases)
      case 1
      then show ?thesis
        using vals.dec_truncated fits by (fastforce simp: read_entry_def 2(1) bytes.dec_enc)
    next
      case q: (2 q')
      have "\<exists>e. bindE (read_u8 q') (\<lambda>(flag, r3). if flag \<noteq> 0
          then bindE (read_i64 r3) (\<lambda>(ms, r4). Inr (\<lparr>pe_key = pe_key x, pe_value = pe_value x,
            pe_expiry_wall = Some (from_unix_ms A ms)\<rparr>, r4))
          else Inr (\<lparr>pe_key = pe_key x, pe_value = pe_value x, pe_expiry_wall = None\<rparr>, r3)) = Inl e"
        using q(2) [unfolded expiry_bytes_def] u8.dec_truncated i64.dec_truncated
        by (cases "pe_expiry_wall x")
          (fastforce simp: u8.dec_enc elim: strict_prefix_append_cases)+
      then show ?thesis
        by (simp add: read_entry_def 2(1) q(1) bytes.dec_enc vals.dec_enc fits)
    qed
  qed
qed

section \<open>The file\<close>

definition snapshot_head :: "u64 \<Rightarrow> nat \<Rightarrow> string" where
  "snapshot_head wal_offset n =
     snapshot_magic @ append_u32 [] snapshot_version @ append_u64 [] wal_offset @ append_u64 [] (of_nat n)"

lemma snapshot_body_out:
  "snapshot_body A wal_offset es =
     snapshot_head wal_offset (length es) @ concat (map (append_entry A []) es)"
  unfolding snapshot_body_def snapshot_head_def
  by (subst foldl_append_enc) (simp_all add: append_entry_out append_defs)

lemma length_snapshot_magic [simp]: "length snapshot_magic = 8"
  by (simp add: snapshot_magic_def zero_bytes_def)

lemma length_snapshot_head [simp]: "length (snapshot_head wal_offset n) = 28"
  by (simp add: snapshot_head_def append_defs)

lemma snapshot_bytes_out:
  "snapshot_bytes A wal_offset es =
     snapshot_body A wal_offset es @ append_u32 [] (crc32 (snapshot_body A wal_offset es))"
  by (simp add: snapshot_bytes_def append_u32_def Let_def)

lemma snapshot_bytes_round:
  "platform_ok A \<Longrightarrow>
   snapshot_bytes A wal_offset (map (round_entry A) es) = snapshot_bytes A wal_offset es"
  by (simp add: snapshot_bytes_def snapshot_body_out append_entry_round comp_def)

text \<open>
  Decoding compares the checksum; after the header it reads the announced number of entries and
  nothing more.
\<close>

lemma decode_head:
  assumes "n < 2 ^ 64" and "take (length file - 4) file = snapshot_head wal_offset n @ rest"
    and "read_u32 (drop (length file - 4) file) = Inr (v, r)"
  shows "decode_snapshot A file =
    (if crc32 (take (length file - 4) file) \<noteq> v then Inr None
     else bindE (read_times (read_entry A) n rest) (\<lambda>(es, cursor).
       if cursor \<noteq> [] then Inr None
       else Inr (Some (\<lparr>snap_wal_offset = wal_offset, snap_entry_count = of_nat n\<rparr>, es))))"
proof -
  have "drop 8 (snapshot_head wal_offset n @ rest) = append_u32 [] snapshot_version @
      append_u64 [] wal_offset @ append_u64 [] (of_nat n) @ rest"
    by (simp add: snapshot_head_def)
  moreover have "unat (of_nat n :: u64) = n" using assms(1) by (intro unat_of_nat_small) simp
  ultimately show ?thesis
    by (simp add: decode_snapshot_def Let_def assms(2,3) u32.dec_enc u64.dec_enc
        del: drop_append)
qed

lemma split_trailer:
  "take (length (content @ append_u32 [] c) - 4) (content @ append_u32 [] c) = content"
  "drop (length (content @ append_u32 [] c) - 4) (content @ append_u32 [] c) = append_u32 [] c"
  by (simp_all add: append_u32_def)

lemma read_trailer:
  "read_u32 (drop (length (content @ append_u32 [] c) - 4) (content @ append_u32 [] c)) = Inr (c, [])"
  unfolding split_trailer by (rule u32.dec_enc_nil) simp

lemma decode_encoded:
  assumes "list_all (entry_aligned A) es" and "length es < 2 ^ 64"
  shows "decode_snapshot A (snapshot_bytes A wal_offset es) =
    Inr (Some (\<lparr>snap_wal_offset = wal_offset, snap_entry_count = of_nat (length es)\<rparr>, es))"
  using entries.read_times_enc [OF assms(1), of "[]"]
  unfolding snapshot_bytes_out
  by (subst decode_head [OF assms(2) _ read_trailer]) (simp_all only: split_trailer snapshot_body_out,
      simp_all)

lemma snapshot_prefix: "prefix snapshot_magic (snapshot_head wal_offset n @ rest)"
  by (simp add: snapshot_head_def)

lemma snapshot_read_good:
  "os_good os \<Longrightarrow> dump d = Some file \<Longrightarrow>
   snapshot_read os A d =
     (if length file < 32 \<or> \<not> prefix snapshot_magic file then None
      else case decode_snapshot A file of Inl _ \<Rightarrow> None | Inr r \<Rightarrow> r)"
  by (simp add: snapshot_read_def os_good_def read_all_good)

lemma snapshot_read_encoded:
  assumes "os_good os" and "platform_ok A" and "list_all entry_fits es" and "length es < 2 ^ 64"
    and "dump d = Some (snapshot_bytes A wal_offset es)"
  shows "snapshot_read os A d =
    Some (\<lparr>snap_wal_offset = wal_offset, snap_entry_count = of_nat (length es)\<rparr>, map (round_entry A) es)"
proof -
  have "list_all (entry_aligned A) (map (round_entry A) es)"
    using assms(2,3) by (auto simp: list_all_iff round_entry_aligned)
  then have "decode_snapshot A (snapshot_bytes A wal_offset es) =
      Inr (Some (\<lparr>snap_wal_offset = wal_offset, snap_entry_count = of_nat (length es)\<rparr>,
        map (round_entry A) es))"
    using decode_encoded [of A "map (round_entry A) es" wal_offset] assms(2,4)
    by (simp add: snapshot_bytes_round)
  moreover have "32 \<le> length (snapshot_bytes A wal_offset es)"
    "prefix snapshot_magic (snapshot_bytes A wal_offset es)"
    by (simp_all add: snapshot_bytes_out snapshot_body_out snapshot_prefix append_u32_def)
  ultimately show ?thesis
    using assms(1,5) by (simp add: snapshot_read_good)
qed


text \<open>Writing, whatever the environment does.\<close>

lemma snapshot_write_outcome:
  "case snapshot_write os A wal_offset es d of
     (Inr _, d') \<Rightarrow> dump d' = Some (snapshot_bytes A wal_offset es) \<and> dump_tmp d' = None
   | (Inl _, d') \<Rightarrow> dump d' = dump d"
proof -
  obtain q st where q: "write_all ''short write to snapshot'' (io_writes os)
      (snapshot_bytes A wal_offset es) (0, []) = (q, st)"
    by (rule prod.exhaust)
  then obtain w where "st = (length w, w)"
      "case q of Inr _ \<Rightarrow> w = snapshot_bytes A wal_offset es
        | Inl _ \<Rightarrow> strict_prefix w (snapshot_bytes A wal_offset es)"
    using write_all_appends [of _ _ _ "[]" q st] by fastforce
  then show ?thesis by (cases q) (simp_all add: snapshot_write_def q Let_def)
qed

lemma snapshot_write_good:
  "os_good os \<Longrightarrow> snapshot_write os A wal_offset es d =
     (Inr (), d\<lparr>dump := Some (snapshot_bytes A wal_offset es), dump_tmp := None\<rparr>)"
  using write_all_good [of "io_writes os" _ "snapshot_bytes A wal_offset es" "[]"]
  by (simp add: snapshot_write_def os_good_def Let_def)

section \<open>Properties of snapshots\<close>

text \<open>
  C14: A snapshot reads back. Whatever way the writes are split, when \<^verbatim>\<open>SnapshotStore::write\<close>
  returns, \<^verbatim>\<open>SnapshotStore::read\<close> gives the offset it was given and the same entries in the same
  order, with every expiry truncated to whole milliseconds.
\<close>

theorem snapshot_roundtrip:
  assumes "snapshot_write os A wal_offset es d = (Inr (), d')"
    and "platform_ok A" and "list_all entry_fits es" and "length es < 2 ^ 64" and "os_good os'"
  shows "snapshot_read os' A d' =
    Some (\<lparr>snap_wal_offset = wal_offset, snap_entry_count = of_nat (length es)\<rparr>, map (round_entry A) es)"
  using snapshot_write_outcome [where os = os and A = A and es = es and d = d and wal_offset = wal_offset]
    assms(1)
  by (intro snapshot_read_encoded [OF assms(5,2,3,4)]) simp

definition sample_entries :: "persisted_entry list" where
  "sample_entries =
     [\<lparr>pe_key = ''a'', pe_value = VList [''x'', ''y''], pe_expiry_wall = None\<rparr>,
      \<lparr>pe_key = ''b'', pe_value = VString ''v'', pe_expiry_wall = Some 2500\<rparr>]"

definition empty_dir :: data_dir where
  "empty_dir = \<lparr>dump = None, dump_tmp = None\<rparr>"

lemma sample_entries_fit: "list_all entry_fits sample_entries" "length sample_entries < 2 ^ 64"
  by (simp_all add: sample_entries_def entry_fits_def items_ok_def fits_u32_def)

lemma sample_platform: "platform_ok sample_abi"
  by (simp add: platform_ok_def sample_abi_def)

theorem snapshot_roundtrip_witness:
  "\<exists>d'. snapshot_write (calm\<lparr>io_writes := [Bytes 5, Interrupted]\<rparr>) sample_abi 3 sample_entries empty_dir
       = (Inr (), d') \<and>
     snapshot_read calm sample_abi d' =
       Some (\<lparr>snap_wal_offset = 3, snap_entry_count = 2\<rparr>,
             [\<lparr>pe_key = ''a'', pe_value = VList [''x'', ''y''], pe_expiry_wall = None\<rparr>,
              \<lparr>pe_key = ''b'', pe_value = VString ''v'', pe_expiry_wall = Some 2000\<rparr>])"
proof -
  have good: "os_good (calm\<lparr>io_writes := [Bytes 5, Interrupted]\<rparr>)"
    by (simp add: os_good_def calm_def transfers_def)
  have "map (round_entry sample_abi) sample_entries =
      [\<lparr>pe_key = ''a'', pe_value = VList [''x'', ''y''], pe_expiry_wall = None\<rparr>,
       \<lparr>pe_key = ''b'', pe_value = VString ''v'', pe_expiry_wall = Some 2000\<rparr>]"
    by (simp add: sample_entries_def round_entry_def round_ms_def to_unix_ms_def from_unix_ms_def
        sample_abi_def)
  then show ?thesis
    using snapshot_roundtrip [OF snapshot_write_good [OF good] sample_platform sample_entries_fit
        calm_good, of 3 empty_dir] snapshot_write_good [OF good]
    by (simp add: sample_entries_def)
qed



text \<open>
  C29: Writing a snapshot is atomic. However the system calls and the partial writes turn out,
  the snapshot file afterwards is untouched when the function throws and is the complete new
  snapshot when it returns.
\<close>

theorem snapshot_write_atomic:
  "case snapshot_write os A wal_offset es d of
     (Inr _, d') \<Rightarrow> dump d' = Some (snapshot_bytes A wal_offset es) \<and> dump_tmp d' = None
   | (Inl _, d') \<Rightarrow> dump d' = dump d"
  by (rule snapshot_write_outcome)

end
