(* ===== verification/Wall_View.thy ===== *)
theory Wall_View
  imports Store_Spec Snapshot_Spec Engine
begin

text \<open>
  The contents of a store in terms of wall-clock time, which outlives the process: a map from
  keys to values with an optional wall-clock expiry. The mutations that are logged are functions
  on such maps, and the store operations follow them as long as the two clocks run in step.
\<close>

section \<open>Maps with wall-clock expiry\<close>

type_synonym wall_map = "string \<Rightarrow> (cell \<times> int option) option"

definition due_at :: "int \<Rightarrow> int option \<Rightarrow> bool" where
  "due_at T w = (case w of None \<Rightarrow> False | Some x \<Rightarrow> x \<le> T)"

definition wlive :: "int \<Rightarrow> wall_map \<Rightarrow> wall_map" where
  "wlive T db k =
     (case db k of None \<Rightarrow> None | Some x \<Rightarrow> if due_at T (snd x) then None else Some x)"

definition wall_db :: "abi \<Rightarrow> store \<Rightarrow> wall_map" where
  "wall_db A st k = map_option (\<lambda>e. (entry_value e, expires_at_wall e)) (lookup A st k)"

lemma due_at_later: "due_at T w \<Longrightarrow> T \<le> T' \<Longrightarrow> due_at T' w"
  by (auto simp: due_at_def split: option.splits)

lemma wlive_wlive: "T \<le> T' \<Longrightarrow> wlive T' (wlive T db) = wlive T' db"
  by (auto simp: wlive_def fun_eq_iff due_at_later split: option.split)

lemma wlive_idem [simp]: "wlive T (wlive T db) = wlive T db"
  by (simp add: wlive_wlive)

lemma wlive_None: "db k = None \<Longrightarrow> wlive T db k = None"
  by (simp add: wlive_def)

lemma wlive_later: "wlive T db = wlive T db' \<Longrightarrow> T \<le> T' \<Longrightarrow> wlive T' db = wlive T' db'"
  by (metis wlive_wlive)

lemma wlive_mono: "wlive T db \<subseteq>\<^sub>m wlive T db' \<Longrightarrow> T \<le> T' \<Longrightarrow> wlive T' db \<subseteq>\<^sub>m wlive T' db'"
proof -
  assume sub: "wlive T db \<subseteq>\<^sub>m wlive T db'" and "T \<le> T'"
  have "wlive T' (wlive T db) \<subseteq>\<^sub>m wlive T' (wlive T db')"
    using sub by (fastforce simp: map_le_def wlive_def dom_def split: option.splits if_splits)
  then show ?thesis using \<open>T \<le> T'\<close> by (simp add: wlive_wlive)
qed

lemma wlive_update: "wlive T (db(k := x)) = (wlive T db)(k := wlive T (\<lambda>_. x) k)"
  by (auto simp: wlive_def fun_eq_iff)

lemma wlive_restrict: "wlive T (db |` K) = wlive T db |` K"
  by (auto simp: wlive_def restrict_map_def fun_eq_iff)

section \<open>Mutations\<close>

text \<open>What a log record says. Expiries are Unix milliseconds, as in the record.\<close>

datatype mutation =
    M_set string string "i64 option"
  | M_del "string list"
  | M_expire string i64

fun mutate :: "abi \<Rightarrow> int \<Rightarrow> mutation \<Rightarrow> wall_map \<Rightarrow> wall_map" where
  "mutate A T (M_set k v w) db = db(k := Some (VString v, map_option (from_unix_ms A) w))"
| "mutate A T (M_del ks) db = db |` (- set ks)"
| "mutate A T (M_expire k ms) db =
     (case wlive T db k of
        None \<Rightarrow> db
      | Some (v, _) \<Rightarrow> db(k := Some (v, Some (from_unix_ms A ms))))"

fun store_mutation :: "abi \<Rightarrow> clock_reading \<Rightarrow> clock_reading \<Rightarrow> mutation \<Rightarrow> store \<Rightarrow> store" where
  "store_mutation A c c' (M_set k v w) st =
     store_set_expiry A c k (VString v) (map_option (from_unix_ms A) w) st"
| "store_mutation A c c' (M_del ks) st = snd (store_del_many A c ks st)"
| "store_mutation A c c' (M_expire k ms) st =
     snd (store_expire_at A c c' k (Some (from_unix_ms A ms)) st)"

text \<open>Maps that agree on what is alive are changed alike.\<close>

lemma mutate_cong:
  "wlive T db = wlive T db' \<Longrightarrow> wlive T (mutate A T m db) = wlive T (mutate A T m db')"
  by (cases m) (simp_all add: wlive_update wlive_restrict split: option.split prod.split)

text \<open>
  Replaying a mutation later than it was made never yields more than the mutation did then. It
  yields the same unless it prolongs an expiry that has passed in the meantime.
\<close>

definition lapses :: "abi \<Rightarrow> int \<Rightarrow> int \<Rightarrow> mutation \<Rightarrow> wall_map \<Rightarrow> bool" where
  "lapses A T T' m db =
     (case m of
        M_expire k ms \<Rightarrow>
          (case wlive T db k of None \<Rightarrow> False | Some (_, w) \<Rightarrow> due_at T' w)
      | _ \<Rightarrow> False)"

lemma replay_sound:
  assumes "wlive T' db' \<subseteq>\<^sub>m wlive T' db" and "T \<le> T'"
  shows "wlive T' (mutate A T' m db') \<subseteq>\<^sub>m wlive T' (mutate A T m db)"
proof (cases m)
  case (M_set k v w)
  then show ?thesis using assms(1) by (auto simp: wlive_update map_le_def)
next
  case (M_del ks)
  have "m1 |` K \<subseteq>\<^sub>m m2 |` K" if "m1 \<subseteq>\<^sub>m m2" for m1 m2 :: wall_map and K
    using that by (auto simp: map_le_def restrict_map_def)
  then show ?thesis using assms(1) M_del by (simp add: wlive_restrict)
next
  case (M_expire k ms)
  have later: "wlive T' db k = Some x \<Longrightarrow> wlive T db k = Some x" for x
    using assms(2) by (auto simp: wlive_def due_at_later split: option.splits if_splits)
  show ?thesis
  proof (cases "wlive T' db' k")
    case None
    then show ?thesis
      using assms(1) M_expire
      by (auto simp: wlive_update map_le_def dom_def split: option.split)
  next
    case (Some x)
    then have "wlive T db k = Some x"
      using assms(1) by (intro later) (auto simp: map_le_def dom_def)
    then show ?thesis
      using assms(1) M_expire Some
      by (auto simp: wlive_update map_le_def split: prod.splits)
  qed
qed

lemma replay_exact:
  assumes "wlive T' db' = wlive T' db" and "T \<le> T'" and "\<not> lapses A T T' m db"
  shows "wlive T' (mutate A T' m db') = wlive T' (mutate A T m db)"
proof (cases m)
  case (M_expire k ms)
  have "wlive T' db k = wlive T db k"
    using assms(2,3) M_expire
    by (auto simp: lapses_def wlive_def due_at_later split: option.splits if_splits prod.splits)
  then show ?thesis
    using assms(1) M_expire by (auto simp: wlive_update split: option.split prod.split)
qed (use assms(1) in \<open>simp_all add: wlive_update wlive_restrict\<close>)

section \<open>Stores that follow a map\<close>

text \<open>
  The clocks run in step: the steady clock of a process and the wall clock differ by a constant
  \<open>base\<close>. Then a deadline passes exactly when its wall-clock expiry does.
\<close>

definition coherent :: "abi \<Rightarrow> int \<Rightarrow> clock_reading \<Rightarrow> bool" where
  "coherent A base c \<longleftrightarrow> now c = base + wall_now c * tick_ns A"

definition expiry_good :: "abi \<Rightarrow> int option \<Rightarrow> bool" where
  "expiry_good A w = (case w of None \<Rightarrow> True | Some x \<Rightarrow> round_ms A x = x)"

definition entry_good :: "abi \<Rightarrow> int \<Rightarrow> string \<Rightarrow> entry \<Rightarrow> bool" where
  "entry_good A base k e \<longleftrightarrow>
     expires_at e = map_option (\<lambda>w. base + w * tick_ns A) (expires_at_wall e) \<and>
     fits_u32 k \<and> value_ok (entry_value e) \<and> expiry_good A (expires_at_wall e)"

definition follows :: "abi \<Rightarrow> int \<Rightarrow> int \<Rightarrow> store \<Rightarrow> wall_map \<Rightarrow> bool" where
  "follows A base T st db \<longleftrightarrow> store_ok A st \<and>
     (\<forall>k e. lookup A st k = Some e \<longrightarrow> entry_good A base k e) \<and> wlive T (wall_db A st) = wlive T db"

lemma followsD:
  "follows A base T st db \<Longrightarrow> store_ok A st"
  "follows A base T st db \<Longrightarrow> lookup A st k = Some e \<Longrightarrow> entry_good A base k e"
  by (simp_all add: follows_def)

lemma follows_cong: "wlive T db = wlive T db' \<Longrightarrow> follows A base T st db = follows A base T st db'"
  by (simp add: follows_def)

lemma follows_later: "follows A base T st db \<Longrightarrow> T \<le> T' \<Longrightarrow> follows A base T' st db"
  using wlive_later [of T "wall_db A st" db T'] by (simp add: follows_def)

lemma expired_iff:
  assumes "platform_ok A" and "coherent A base c" and "entry_good A base k e"
  shows "is_expired e (now c) = due_at (wall_now c) (expires_at_wall e)"
  using assms
  by (cases "expires_at_wall e")
    (auto simp: is_expired_def due_at_def entry_good_def coherent_def platform_ok_def)

lemma wlive_live_entry:
  assumes "platform_ok A" and "coherent A base c" and "follows A base T st db"
  shows "wlive (wall_now c) (wall_db A st) k =
    map_option (\<lambda>e. (entry_value e, expires_at_wall e)) (live_entry A (now c) st k)"
  using expired_iff [OF assms(1,2) followsD(2) [OF assms(3)], of k]
  by (cases "lookup A st k") (auto simp: wlive_def wall_db_def live_entry_def)

text \<open>
  A store whose bindings change at one key only follows the map changed there.
\<close>

lemma follows_update:
  assumes "follows A base T st db" and "store_ok A st'"
    and "\<And>j. lookup A st' j = (if j = k then x else lookup A st j)"
    and "\<And>e. x = Some e \<Longrightarrow> entry_good A base k e"
    and "wlive T (\<lambda>_. map_option (\<lambda>e. (entry_value e, expires_at_wall e)) x) k = wlive T (\<lambda>_. y) k"
  shows "follows A base T st' (db(k := y))"
proof -
  have "wall_db A st' = (wall_db A st)(k := map_option (\<lambda>e. (entry_value e, expires_at_wall e)) x)"
    by (auto simp: wall_db_def assms(3) fun_eq_iff)
  then show ?thesis
    using assms(1,2,4,5) by (auto simp: follows_def assms(3) wlive_update split: if_splits)
qed

lemma follows_set:
  assumes "follows A base T st db" and "coherent A base c" and "wall_now c = T"
    and "fits_u32 k" and "value_ok v" and "expiry_good A w"
  shows "follows A base T (store_set_expiry A c k v w st) (db(k := Some (v, w)))"
proof (rule follows_update [OF assms(1) store_set_expiry_ok lookup_store_set_expiry])
  show "store_ok A st" "store_ok A st" using assms(1) by (simp_all add: follows_def)
  have "deadline A c = (\<lambda>x. base + x * tick_ns A)"
    using assms(2) by (simp add: deadline_def coherent_def fun_eq_iff algebra_simps)
  then show "entry_good A base k e"
    if "(if \<exists>wall. w = Some wall \<and> wall \<le> wall_now c then None
         else Some \<lparr>entry_value = v, expires_at = map_option (deadline A c) w, expires_at_wall = w,
                    stored_bytes = estimate_bytes A k v\<rparr>) = Some e" for e
    using that assms(4-6) by (auto simp: entry_good_def split: if_splits)
qed (use assms(3) in \<open>cases w; simp add: wlive_def due_at_def\<close>)

lemma lookup_del_keys:
  "store_ok A st \<Longrightarrow>
   lookup A (snd (del_keys A t ks n st)) j = (if j \<in> set ks then None else lookup A st j)"
proof (induction ks arbitrary: n st)
  case Nil
  then show ?case by simp
next
  case (Cons k ks)
  then show ?case by (simp only: del_keys_Cons) (simp add: remove_ok lookup_remove)
qed

lemma follows_del_many:
  assumes "follows A base T st db"
  shows "follows A base T (snd (store_del_many A c ks st)) (db |` (- set ks))"
proof (cases "ks = []")
  case True
  then show ?thesis using assms by (simp add: store_del_many_def restrict_map_def)
next
  case False
  have ok: "store_ok A st" using assms by (simp add: follows_def)
  have "wall_db A (snd (store_del_many A c ks st)) = wall_db A st |` (- set ks)"
    using False
    by (auto simp: wall_db_def store_del_many_def lookup_del_keys [OF ok] restrict_map_def fun_eq_iff)
  then show ?thesis
    using assms False store_del_many_spec [OF ok, of c ks]
    by (auto simp: follows_def wlive_restrict store_del_many_def lookup_del_keys split: if_splits)
qed

lemma follows_purge:
  assumes "platform_ok A" and "follows A base T st db" and "coherent A base c" and "wall_now c = T"
  shows "follows A base T (purge A (now c) k st) db"
proof -
  have ok: "store_ok A st" using assms(2) by (simp add: follows_def)
  have "wlive T (wall_db A (purge A (now c) k st)) = wlive T (wall_db A st)"
    using wlive_live_entry [OF assms(1,3,2), of k] assms(4)
    by (auto simp: wlive_def wall_db_def lookup_purge [OF ok] fun_eq_iff live_entry_def
        split: option.splits)
  then show ?thesis
    using assms(2) purge_ok [OF ok]
    by (auto simp: follows_def lookup_purge live_entry_Some split: if_splits)
qed

lemma follows_purged:
  assumes "platform_ok A" and "coherent A base c" and "wall_now c = T"
  shows "purged A (now c) st st' \<Longrightarrow> follows A base T st db \<Longrightarrow> follows A base T st' db"
  by (induction rule: purged.induct) (auto intro: follows_purge [OF assms(1) _ assms(2,3)])

lemma follows_expire_at:
  assumes "platform_ok A" and "follows A base T st db"
    and "coherent A base c" and "wall_now c = T" and "coherent A base c'" and "expiry_good A (Some w)"
  shows "follows A base T (snd (store_expire_at A c c' k (Some w) st))
    (case wlive T db k of None \<Rightarrow> db | Some (v, _) \<Rightarrow> db(k := Some (v, Some w)))"
proof (cases "live_entry A (now c) st k")
  case None
  then have "wlive T db k = None"
    using wlive_live_entry [OF assms(1,3,2), of k] assms(2,4) by (simp add: follows_def)
  then show ?thesis
    using follows_purge [OF assms(1-4)] None by (simp add: store_expire_at_eq)
next
  case (Some e)
  have ok: "store_ok A st" and e: "entry_good A base k e"
    using assms(2) Some by (auto simp: follows_def live_entry_Some)
  have "wlive T db k = Some (entry_value e, expires_at_wall e)"
    using wlive_live_entry [OF assms(1,3,2), of k] assms(2,4) Some by (simp add: follows_def)
  moreover have "follows A base T (snd (store_expire_at A c c' k (Some w) st))
      (db(k := Some (entry_value e, Some w)))"
  proof (rule follows_update [OF assms(2) store_expire_at_ok [OF ok]])
    show "lookup A (snd (store_expire_at A c c' k (Some w) st)) j =
        (if j = k then if due c (Some w) then None
           else Some (e\<lparr>expires_at_wall := Some w, expires_at := Some (deadline A c' w)\<rparr>)
         else lookup A st j)" for j
      by (simp add: lookup_store_expire_at [OF ok] Some)
    have "deadline A c' w = base + w * tick_ns A"
      using assms(5) by (simp add: deadline_def coherent_def algebra_simps)
    then show "entry_good A base k x" if "(if due c (Some w) then None
        else Some (e\<lparr>expires_at_wall := Some w, expires_at := Some (deadline A c' w)\<rparr>)) = Some x" for x
      using that e assms(6) by (auto simp: entry_good_def split: if_splits)
  qed (use assms(4) in \<open>simp add: wlive_def due_at_def due_def\<close>)
  ultimately show ?thesis by simp
qed

lemma follows_sweep:
  assumes "platform_ok A" and "follows A base T st db" and "coherent A base c" and "wall_now c = T"
  shows "follows A base T (sweep (now c) st) db"
proof -
  have ok: "store_ok A st" using assms(2) by (simp add: follows_def)
  have "is_expired e (now c) = due_at T (expires_at_wall e)" if "lookup A st k = Some e" for k e
    using expired_iff [OF assms(1,3) followsD(2) [OF assms(2) that]] assms(4) by simp
  then have "wlive T (wall_db A (sweep (now c) st)) = wlive T (wall_db A st)"
    by (auto simp: wlive_def wall_db_def lookup_sweep [OF ok] fun_eq_iff live_entry_def
        split: option.splits)
  then show ?thesis
    using assms(2) sweep_ok [OF ok] by (auto simp: follows_def lookup_sweep live_entry_Some)
qed

end
