(* ===== verification/Wal_Spec.thy ===== *)
theory Wal_Spec
  imports Wal_Laws
begin

text \<open>
  The contract of the log: whatever part of it reaches the disk, recovery returns the appended
  records up to the first one that is not there whole, and nothing else.
\<close>

section \<open>Histories of appends\<close>

fun numbered :: "u64 \<Rightarrow> (wal_opcode \<times> string) list \<Rightarrow> wal_record list" where
  "numbered l [] = []"
| "numbered l ((opcode, payload) # calls) =
     \<lparr>rec_offset = l + 1, rec_opcode = opcode_code opcode, rec_payload = payload\<rparr>
       # numbered (l + 1) calls"

definition append_call :: "wal \<Rightarrow> os \<times> wal_opcode \<times> string \<Rightarrow> u64 result \<times> wal" where
  "append_call w call = wal_append (fst call) (fst (snd call)) (snd (snd call)) w"

definition call_ok :: "os \<times> wal_opcode \<times> string \<Rightarrow> bool" where
  "call_ok call \<longleftrightarrow> os_good (fst call) \<and> length (snd (snd call)) + 18 < 2 ^ 32"

lemma length_numbered [simp]: "length (numbered l calls) = length calls"
  by (induction l calls rule: numbered.induct) auto

lemma appends_good:
  "log_holds b rs w \<Longrightarrow> list_all call_ok calls \<Longrightarrow> unat (wal_last_offset w) + length calls < 2 ^ 64 \<Longrightarrow>
   fst (replies append_call w calls) =
     map (Inr \<circ> rec_offset) (numbered (wal_last_offset w) (map snd calls)) \<and>
   log_holds b (rs @ numbered (wal_last_offset w) (map snd calls)) (snd (replies append_call w calls))"
proof (induction calls arbitrary: rs w)
  case Nil
  then show ?case by simp
next
  case (Cons call calls)
  obtain os opcode payload where c: "call = (os, opcode, payload)" by (cases call)
  let ?r = "next_record w opcode payload"
  have inc: "unat (wal_last_offset w + 1) = unat (wal_last_offset w) + 1"
    using Cons.prems(3) by (intro unat_inc) simp
  then have ne: "wal_last_offset w \<noteq> - 1" by auto
  obtain w' where w': "wal_append os opcode payload w = (Inr (wal_last_offset w + 1), w')"
      "log_holds b (rs @ [?r]) w'"
    using wal_append_good [OF Cons.prems(1), of os payload opcode] Cons.prems(2) ne
    by (auto simp: c call_ok_def)
  have l: "wal_last_offset w' = wal_last_offset w + 1"
    using w'(2) by (simp add: log_holds_def next_record_def)
  have "unat (wal_last_offset w') + length calls < 2 ^ 64"
    using Cons.prems(3) l inc by simp
  from Cons.IH [OF w'(2) _ this] Cons.prems(2) show ?case
    by (simp add: c append_call_def w'(1) l next_record_def replies_Cons del: replies.simps)
qed

text \<open>Opening a prefix of a log.\<close>

lemma open_prefix:
  assumes "os_good os" and "chain 0 recs" and "prefix f (wal_header @ log_bytes recs)"
  shows "\<exists>k w'. open_and_recover os (new_wal f) = (Inr (take k recs), w') \<and>
    log_holds 0 (take k recs) w' \<and>
    (k < length recs \<longrightarrow> \<not> prefix (wal_header @ log_bytes (take (Suc k) recs)) f)"
proof (cases "length f < 16")
  case True
  then obtain w' where "open_and_recover os (new_wal f) = (Inr [], w')" "log_holds 0 [] w'"
    using open_short [OF assms(1), of "new_wal f"] by (auto simp: new_wal_def)
  moreover have "\<not> prefix (wal_header @ x) f" for x
    using True prefix_length_le [of "wal_header @ x" f] by auto
  ultimately show ?thesis by (intro exI [of _ 0] exI [of _ w']) simp
next
  case False
  define g where "g = take (length f - 16) (log_bytes recs)"
  have "f = take (length f) (wal_header @ log_bytes recs)"
    using assms(3) by (metis append_eq_conv_conj prefixE)
  then have g: "f = wal_header @ g" "prefix g (log_bytes recs)"
    using False by (simp_all add: g_def take_is_prefix)
  then obtain k torn where k: "k \<le> length recs" "g = log_bytes (take k recs) @ torn"
      "if k = length recs then torn = [] else strict_prefix torn (record_bytes (recs ! k))"
    unfolding log_bytes_def using prefix_chunks by blast
  have sp: "chain 0 (take k recs)" "k < length recs \<Longrightarrow> record_ok (recs ! k)"
    using chain_take [OF assms(2)] chain_record_ok [OF assms(2)] by simp_all
  have st: "stops torn" using k(1,3) sp(2) by (auto simp: stops_torn split: if_splits)
  obtain w' where w': "open_and_recover os (new_wal f) = (Inr (take k recs), w')"
      "log_holds 0 (take k recs) w'"
    using open_log [OF assms(1) sp(1) st, of "new_wal f"] g(1) k(2) by (auto simp: new_wal_def)
  have "\<not> prefix (wal_header @ log_bytes (take (Suc k) recs)) f" if "k < length recs"
    using that k g(1) proper_prefix_length [of torn "record_bytes (recs ! k)"]
      prefix_length_le [of "record_bytes (recs ! k)" torn]
    by (auto simp: take_Suc_conv_app_nth)
  with w' show ?thesis by blast
qed

section \<open>Properties of the log\<close>

text \<open>
  C9: Crash recovery of the log. Open a new log and append any records, each append in an
  environment that may split its writes arbitrarily. Let the process crash so that any prefix \<open>f\<close>
  of the file is left. Opening \<open>f\<close> returns exactly the appended records, numbered from 1, up to
  the first one that is not wholly in \<open>f\<close>, and cuts the file back to them; the offsets the
  appends returned are these numbers.
\<close>

theorem wal_crash_recovery:
  assumes "os_good os0" and "open_and_recover os0 (new_wal []) = (Inr [], w0)"
    and "list_all call_ok calls" and "length calls < 2 ^ 64"
    and "recs = numbered 0 (map snd calls)"
    and "prefix f (wal_file (snd (replies append_call w0 calls)))" and "os_good os1"
  shows "fst (replies append_call w0 calls) = map (Inr \<circ> rec_offset) recs \<and>
    (\<exists>k w'. open_and_recover os1 (new_wal f) = (Inr (take k recs), w') \<and>
       wal_file w' = wal_header @ log_bytes (take k recs) \<and>
       (k < length recs \<longrightarrow> \<not> prefix (wal_header @ log_bytes (take (Suc k) recs)) f))"
proof -
  have "log_holds 0 [] w0"
    using open_short [OF assms(1), of "new_wal []"] assms(2) by (simp add: new_wal_def)
  then have l0: "log_holds 0 [] w0" "wal_last_offset w0 = 0" by (simp_all add: log_holds_def)
  then have r: "fst (replies append_call w0 calls) = map (Inr \<circ> rec_offset) recs"
    and h: "log_holds 0 recs (snd (replies append_call w0 calls))"
    using appends_good [OF l0(1) assms(3)] assms(4,5) by simp_all
  have f: "prefix f (wal_header @ log_bytes recs)" and ch: "chain 0 recs"
    using assms(6) h by (simp_all add: log_holds_def)
  from open_prefix [OF assms(7) ch f] r show ?thesis by (auto simp: log_holds_def)
qed

text \<open>Two appends, the second written in several pieces.\<close>

definition sample_calls :: "(os \<times> wal_opcode \<times> string) list" where
  "sample_calls =
     [(calm, Op_set, encode_set_payload ''k'' ''v'' None),
      (calm\<lparr>io_writes := [Bytes 3, Interrupted, Bytes 7]\<rparr>, Op_del, encode_del_payload [''k''])]"

lemma sample_calls_ok: "list_all call_ok sample_calls"
  by (simp add: sample_calls_def call_ok_def os_good_def calm_def transfers_def
      encode_set_payload_def encode_del_payload_def append_defs)

theorem wal_crash_recovery_witness:
  "\<exists>w0. open_and_recover calm (new_wal []) = (Inr [], w0) \<and>
     (\<exists>k w'. open_and_recover calm (new_wal (take 40 (wal_file (snd (replies append_call w0 sample_calls)))))
        = (Inr (take k (numbered 0 (map snd sample_calls))), w'))"
proof -
  obtain w0 where w0: "open_and_recover calm (new_wal []) = (Inr [], w0)"
    using open_short [of calm "new_wal []"] by (auto simp: new_wal_def)
  show ?thesis
    using w0 wal_crash_recovery [OF calm_good w0 sample_calls_ok _ refl take_is_prefix calm_good,
        of 40]
    by (auto simp: sample_calls_def)
qed




text \<open>
  C26: A corrupt length field is not always cut off. When the four bytes after the last intact
  record read as a length of at least \<open>0xFFFFFFFC\<close>, the 32-bit sum \<^verbatim>\<open>length + 4U\<close> wraps to less
  than 4, the check for an incomplete tail passes, and \<^verbatim>\<open>remove_prefix(length)\<close> runs past the end
  of the file: undefined behaviour instead of a truncated tail.
\<close>

theorem wal_length_wraps:
  assumes "os_good os" and "chain 0 rs" and "0xFFFFFFFC \<le> len"
    and "4 \<le> length rest" and "length rest < unat len"
  shows "fst (open_and_recover os (new_wal (wal_header @ log_bytes rs @ append_u32 [] len @ rest))) =
    Inl (Undefined_behaviour ''remove_prefix past the end'')"
proof -
  have l: "4294967292 \<le> unat len" "unat len < 4294967296"
    using assms(3) unsigned_less [of len] by (simp_all add: word_le_nat_alt)
  have "unat (len + 4) = (unat len + 4) mod 4294967296"
    by (simp add: unat_word_ariths)
  also have "\<dots> = unat len - 4294967292"
    using l by (simp add: le_mod_geq)
  finally have "unat (len + 4) \<le> length rest" using l assms(4) by simp
  moreover have "\<not> len < 10" using l by (simp add: word_less_nat_alt)
  ultimately have "scan_records (append_u32 [] len @ rest) v l' =
      (Inl (Undefined_behaviour ''remove_prefix past the end''), l')" for v l'
    using assms(5) by (subst scan_records.simps) (simp add: u32.dec_enc)
  then show ?thesis
    using assms(1,2) by (simp add: open_reads_file new_wal_def load_log_scan scan_chain)
qed

theorem wal_length_wraps_witness:
  "fst (open_and_recover calm (new_wal (wal_header @ log_bytes [] @ append_u32 [] 0xFFFFFFFF @
     ''abcd''))) = Inl (Undefined_behaviour ''remove_prefix past the end'')"
  by (rule wal_length_wraps [OF calm_good]) simp_all



end
