(* ===== verification/Engine_Laws.thy ===== *)
theory Engine_Laws
  imports Engine Wall_View Wal_Spec
begin

text \<open>
  Laws of the engine: log records read back as the mutations they were written for, replaying a
  history of mutations over a snapshot, and the invariant that ties the two files to the store.
\<close>

section \<open>Mutations as records\<close>

fun mutation_record :: "mutation \<Rightarrow> wal_opcode \<times> string" where
  "mutation_record (M_set k v w) = (Op_set, encode_set_payload k v w)"
| "mutation_record (M_del ks) = (Op_del, encode_del_payload ks)"
| "mutation_record (M_expire k ms) = (Op_expire, encode_expire_payload k ms)"

fun mutation_sizes :: "mutation \<Rightarrow> bool" where
  "mutation_sizes (M_set k v w) = (fits_u32 k \<and> fits_u32 v)"
| "mutation_sizes (M_del ks) = items_ok ks"
| "mutation_sizes (M_expire k ms) = fits_u32 k"

definition mutation_ok :: "mutation \<Rightarrow> bool" where
  "mutation_ok m \<longleftrightarrow> mutation_sizes m \<and> length (snd (mutation_record m)) + 18 < 2 ^ 32"

lemma encode_payloads:
  "encode_set_payload k v w =
     append_bytes [] k @ append_bytes [] v @
       (case w of None \<Rightarrow> append_u8 [] 0 | Some ms \<Rightarrow> append_u8 [] 1 @ append_i64 [] ms)"
  "encode_del_payload ks = append_items_bytes [] ks"
  "encode_expire_payload k ms = append_bytes [] k @ append_i64 [] ms"
  by (simp_all add: encode_set_payload_def encode_del_payload_def encode_expire_payload_def
      append_items_bytes_def append_defs Let_def split: option.split)

lemma apply_mutation_record:
  assumes "mutation_sizes m" and "rec_opcode r = opcode_code (fst (mutation_record m))"
    and "rec_payload r = snd (mutation_record m)"
  shows "apply_record A c c' r st = Inr (store_mutation A c c' m st)"
proof (cases m)
  case (M_set k v w)
  then show ?thesis
    using assms by (cases w) (simp_all add: apply_record_def encode_payloads bytes.dec_enc u8.dec_enc
        u8.dec_enc_nil i64.dec_enc_nil)
next
  case (M_del ks)
  then show ?thesis
    using assms by (simp add: apply_record_def encode_payloads items.dec_enc_nil)
next
  case (M_expire k ms)
  then show ?thesis
    using assms by (simp add: apply_record_def encode_payloads bytes.dec_enc i64.dec_enc_nil)
qed

lemma expiry_good_from: "platform_ok A \<Longrightarrow> expiry_good A (map_option (from_unix_ms A) w)"
  by (simp add: expiry_good_def round_ms_def to_from_unix_ms split: option.split)

lemma follows_mutation:
  assumes "platform_ok A" and "follows A base T st db" and "coherent A base c" and "wall_now c = T"
    and "coherent A base c'" and "mutation_sizes m"
  shows "follows A base T (store_mutation A c c' m st) (mutate A T m db)"
proof (cases m)
  case (M_set k v w)
  then show ?thesis
    using follows_set [OF assms(2-4), of k "VString v" "map_option (from_unix_ms A) w"]
      expiry_good_from [OF assms(1)] assms(6) by simp
next
  case (M_del ks)
  then show ?thesis using follows_del_many [OF assms(2)] by simp
next
  case (M_expire k ms)
  then show ?thesis
    using follows_expire_at [OF assms(1-5), of "from_unix_ms A ms" k]
      expiry_good_from [OF assms(1), of "Some ms"] by simp
qed

section \<open>Histories\<close>

type_synonym history = "(int \<times> mutation) list"

fun run_spec :: "abi \<Rightarrow> wall_map \<Rightarrow> history \<Rightarrow> wall_map" where
  "run_spec A db [] = db"
| "run_spec A db ((T, m) # h) = run_spec A (mutate A T m db) h"

fun lapse_free :: "abi \<Rightarrow> int \<Rightarrow> wall_map \<Rightarrow> history \<Rightarrow> bool" where
  "lapse_free A T' db [] = True"
| "lapse_free A T' db ((T, m) # h) = (\<not> lapses A T T' m db \<and> lapse_free A T' (mutate A T m db) h)"

lemma run_spec_append: "run_spec A db (h @ h') = run_spec A (run_spec A db h) h'"
  by (induction A db h rule: run_spec.induct) auto

lemma lapse_free_append:
  "lapse_free A T' db (h @ h') \<longleftrightarrow> lapse_free A T' db h \<and> lapse_free A T' (run_spec A db h) h'"
  by (induction A T' db h rule: lapse_free.induct) auto

lemma lapses_later: "lapses A T T' m db \<Longrightarrow> T' \<le> T'' \<Longrightarrow> lapses A T T'' m db"
  by (auto simp: lapses_def due_at_later split: mutation.splits option.splits)

abbreviation records_of :: "u64 \<Rightarrow> history \<Rightarrow> wal_record list" where
  "records_of b h \<equiv> numbered b (map (\<lambda>x. mutation_record (snd x)) h)"

lemma take_numbered: "take k (numbered b ms) = numbered b (take k ms)"
proof (induction b ms arbitrary: k rule: numbered.induct)
  case (2 l opcode payload calls)
  then show ?case by (cases k) simp_all
qed simp

lemma offset_above: "unat (l :: u64) + 1 < 2 ^ 64 \<Longrightarrow> s \<le> l \<Longrightarrow> s < l + 1"
proof -
  assume "unat l + 1 < 2 ^ 64" and "s \<le> l"
  then have "unat (l + 1) = unat l + 1" by (intro unat_inc) simp
  then have "l < l + 1" by (simp add: word_less_nat_alt)
  with \<open>s \<le> l\<close> show ?thesis by (rule le_less_trans)
qed

text \<open>The clock of a recovery: in step, forward, not before \<open>T\<close> and not after \<open>T'\<close>.\<close>

definition recovery_clock :: "abi \<Rightarrow> int \<Rightarrow> int \<Rightarrow> int \<Rightarrow> (nat \<Rightarrow> clock_reading) \<Rightarrow> bool" where
  "recovery_clock A base T T' cl \<longleftrightarrow>
     (\<forall>n. coherent A base (cl n) \<and> T \<le> wall_now (cl n) \<and> wall_now (cl n) \<le> T' \<and>
          wall_now (cl n) \<le> wall_now (cl (Suc n)))"

text \<open>
  Replaying a history over a store: the outcome is contained in the outcome of the history, and
  it is the same when no expiry has lapsed.
\<close>

definition agrees :: "bool \<Rightarrow> int \<Rightarrow> wall_map \<Rightarrow> wall_map \<Rightarrow> bool" where
  "agrees exact T db' db \<longleftrightarrow> wlive T db' \<subseteq>\<^sub>m wlive T db \<and> (exact \<longrightarrow> wlive T db' = wlive T db)"

lemma agrees_later: "agrees exact T db' db \<Longrightarrow> T \<le> T' \<Longrightarrow> agrees exact T' db' db"
  unfolding agrees_def using wlive_mono wlive_later by blast

lemma agrees_step:
  assumes "agrees exact T' db' db" and "T \<le> T'" and "exact \<Longrightarrow> \<not> lapses A T T' m db"
  shows "agrees exact T' (mutate A T' m db') (mutate A T m db)"
  using assms replay_sound [OF _ assms(2)] replay_exact [OF _ assms(2)]
  unfolding agrees_def by blast

lemma apply_records_replay:
  assumes "platform_ok A" and "recovery_clock A base T T' cl"
  shows "follows A base t st db' \<Longrightarrow> agrees exact t db' db \<Longrightarrow> t \<le> wall_now (cl n) \<Longrightarrow>
    list_all (\<lambda>(u, m). u \<le> T \<and> mutation_sizes m) h \<Longrightarrow> (exact \<Longrightarrow> lapse_free A T' db h) \<Longrightarrow>
    s \<le> l \<Longrightarrow> unat l + length h < 2 ^ 64 \<Longrightarrow>
    \<exists>st' t' db''. apply_records A cl n s (records_of l h) st = (Inr (), st') \<and>
      follows A base t' st' db'' \<and> t' \<le> max t T' \<and> agrees exact t' db'' (run_spec A db h)"
proof (induction h arbitrary: t st db' db n l)
  case Nil
  then show ?case by (intro exI [of _ st] exI [of _ t] exI [of _ db']) simp
next
  case (Cons x h)
  obtain u m where x: "x = (u, m)" by (cases x)
  let ?c = "cl n"
  have c: "coherent A base ?c" "T \<le> wall_now ?c" "wall_now ?c \<le> T'" "coherent A base (cl (Suc n))"
    "wall_now ?c \<le> wall_now (cl (Suc (Suc n)))"
    using assms(2) unfolding recovery_clock_def by (blast intro: order_trans)+
  have m: "u \<le> wall_now ?c" "mutation_sizes m" using Cons.prems(4) c(2) by (auto simp: x)
  have f: "follows A base (wall_now ?c) st db'" and a: "agrees exact (wall_now ?c) db' db"
    using Cons.prems(1-3) follows_later agrees_later by blast+
  have f': "follows A base (wall_now ?c) (store_mutation A ?c (cl (Suc n)) m st)
      (mutate A (wall_now ?c) m db')"
    by (rule follows_mutation [OF assms(1) f c(1) refl c(4) m(2)])
  have a': "agrees exact (wall_now ?c) (mutate A (wall_now ?c) m db') (mutate A u m db)"
    using Cons.prems(5) c(3) lapses_later by (intro agrees_step [OF a m(1)]) (auto simp: x)
  have s: "s < l + 1" "unat (l + 1) = unat l + 1"
    using offset_above [OF _ Cons.prems(6)] unat_inc [of l] Cons.prems(7) by simp_all
  obtain st' t' db'' where "apply_records A cl (Suc (Suc n)) s (records_of (l + 1) h)
        (store_mutation A ?c (cl (Suc n)) m st) = (Inr (), st')"
      "follows A base t' st' db''" "t' \<le> max (wall_now ?c) T'"
      "agrees exact t' db'' (run_spec A (mutate A u m db) h)"
    using Cons.IH [OF f' a' c(5), of "l + 1"] Cons.prems(4,5,7) s less_imp_le [OF s(1)]
    by (auto simp: x)
  moreover have "apply_record A ?c (cl (Suc n)) \<lparr>rec_offset = l + 1,
      rec_opcode = opcode_code (fst (mutation_record m)), rec_payload = snd (mutation_record m)\<rparr> st =
        Inr (store_mutation A ?c (cl (Suc n)) m st)"
    using m(2) by (intro apply_mutation_record) simp_all
  ultimately have "apply_records A cl n s (records_of l (x # h)) st = (Inr (), st')"
      "run_spec A db (x # h) = run_spec A (mutate A u m db) h" "t' \<le> max t T'"
    using s(1) [folded not_le] c(3) by (cases "mutation_record m", simp_all add: x)
  with \<open>follows A base t' st' db''\<close> \<open>agrees exact t' db'' _\<close> show ?case by auto
qed

section \<open>Recovery from the two files\<close>

text \<open>The map a list of snapshot entries stands for.\<close>

fun entries_db :: "wall_map \<Rightarrow> persisted_entry list \<Rightarrow> wall_map" where
  "entries_db db [] = db"
| "entries_db db (pe # pes) = entries_db (db(pe_key pe := Some (pe_value pe, pe_expiry_wall pe))) pes"

lemma import_follows:
  assumes "platform_ok A" and "recovery_clock A base T T' cl"
  shows "follows A base t st db \<Longrightarrow> t \<le> wall_now (cl n) \<Longrightarrow> list_all (entry_aligned A) es \<Longrightarrow>
    \<exists>t' \<ge> t. follows A base t' (import_entries A cl n es st) (entries_db db es) \<and>
      t' \<le> wall_now (cl (n + length es))"
proof (induction es arbitrary: t st db n)
  case Nil
  then show ?case by auto
next
  case (Cons pe es)
  have c: "coherent A base (cl n)" "wall_now (cl n) \<le> wall_now (cl (Suc n))"
    using assms(2) by (simp_all add: recovery_clock_def)
  have al: "entry_aligned A pe" using Cons.prems(3) by simp
  then have "expiry_good A (pe_expiry_wall pe)"
    by (auto simp: expiry_good_def round_ms_def aligned_expiry split: option.split)
  then have "follows A base (wall_now (cl n)) (import_snapshot_entry A (cl n) pe st)
      (db(pe_key pe := Some (pe_value pe, pe_expiry_wall pe)))"
    using al Cons.prems(1,2) unfolding import_snapshot_entry_def
    by (intro follows_set [OF follows_later c(1) refl]) (auto simp: entry_aligned_def entry_fits_def)
  from Cons.IH [OF this c(2)] Cons.prems(3) obtain t' where "wall_now (cl n) \<le> t'"
      "follows A base t' (import_entries A cl n (pe # es) st) (entries_db db (pe # es))"
      "t' \<le> wall_now (cl (n + length (pe # es)))"
    unfolding import_entries.simps entries_db.simps list.pred_inject(2) list.size add_Suc_right
      add_0_right add_Suc by blast
  then show ?case using Cons.prems(2) order_trans by blast
qed

lemma apply_records_skip:
  "list_all (\<lambda>r. rec_offset r \<le> s) old \<Longrightarrow>
   apply_records A cl n s (old @ rs) st = apply_records A cl n s rs st"
  by (induction old) simp_all

text \<open>What the data directory holds of a snapshot: the offset it covers and its entries.\<close>

definition snapshot_holds :: "abi \<Rightarrow> data_dir \<Rightarrow> u64 \<Rightarrow> persisted_entry list \<Rightarrow> bool" where
  "snapshot_holds A d s es \<longleftrightarrow> dump d = None \<and> s = 0 \<and> es = [] \<or>
     dump d = Some (snapshot_bytes A s es) \<and> list_all (entry_aligned A) es \<and> length es < 2 ^ 64"

lemma snapshot_holds_aligned: "snapshot_holds A d s es \<Longrightarrow> list_all (entry_aligned A) es"
  by (auto simp: snapshot_holds_def)

lemma snapshot_holds_read:
  assumes "platform_ok A" and "os_good os" and "snapshot_holds A d s es"
  shows "(case snapshot_read os A d of None \<Rightarrow> (0, [])
          | Some (header, pes) \<Rightarrow> (snap_wal_offset header, pes)) = (s, es)"
proof (cases "dump d")
  case None
  then show ?thesis using assms(3) by (auto simp: snapshot_holds_def snapshot_read_def)
next
  case (Some f)
  with assms(3) have h: "dump d = Some (snapshot_bytes A s es)" "list_all (entry_aligned A) es"
    "length es < 2 ^ 64" by (auto simp: snapshot_holds_def)
  then have "list_all entry_fits es" "map (round_entry A) es = es"
    by (auto simp: list_all_iff entry_aligned_def intro: map_idI)
  then show ?thesis
    using snapshot_read_encoded [OF assms(2,1) _ h(3,1)] by simp
qed

lemma follows_clear: "store_ok A st \<Longrightarrow> follows A base t (store_clear st) Map.empty"
  by (simp add: follows_def store_clear_ok lookup_store_clear wall_db_def [abs_def] wlive_def [abs_def])

text \<open>
  Recovery: whatever snapshot and log are on disk, the store afterwards is the replay of the
  records beyond the snapshot over the entries of the snapshot.
\<close>

lemma recover_replays:
  assumes pl: "platform_ok A" and cl: "recovery_clock A base T T' cl"
    and good: "os_good os" "os_good os'"
    and st: "store_ok A st" and e: "has_wal e" "snapshot_holds A (eng_dir e) s es"
    and log: "open_and_recover os (eng_wal e) = (Inr (old @ records_of l h), w)"
    and old: "list_all (\<lambda>r. rec_offset r \<le> s) old" "s \<le> l" "unat l + length h < 2 ^ 64"
    and h: "list_all (\<lambda>(u, m). u \<le> T \<and> mutation_sizes m) h"
    and db: "agrees exact T (entries_db Map.empty es) db" "exact \<Longrightarrow> lapse_free A T' db h"
  shows "\<exists>e' st' t db'. recover_into os os' A cl e st = (Inr (), e', st') \<and>
    eng_wal e' = w \<and> eng_dir e' = eng_dir e \<and> has_wal e' \<and> config e' = config e \<and>
    follows A base t st' db' \<and> t \<le> T' \<and> agrees exact t db' (run_spec A db h)"
proof -
  have c0: "T \<le> wall_now (cl 0)" and cT: "\<And>n. wall_now (cl n) \<le> T'"
    using cl by (simp_all add: recovery_clock_def)
  obtain t1 where t1: "T \<le> t1" "t1 \<le> wall_now (cl (length es))"
      "follows A base t1 (import_entries A cl 0 es (store_clear st)) (entries_db Map.empty es)"
    using import_follows [OF pl cl follows_clear [OF st] c0 snapshot_holds_aligned [OF e(2)]] by auto
  obtain st' t db' where r: "apply_records A cl (length es) s (records_of l h)
        (import_entries A cl 0 es (store_clear st)) = (Inr (), st')"
      "follows A base t st' db'" "t \<le> max t1 T'" "agrees exact t db' (run_spec A db h)"
    using apply_records_replay [OF pl cl t1(3) agrees_later [OF db(1) t1(1)] t1(2) h db(2) old(2,3)]
    by blast
  have "t \<le> T'" using r(3) t1(2) cT by (metis max.absorb2 order_trans)
  moreover have "recover_into os os' A cl e st =
      (Inr (), if fsync_mode (config e) = Fsync_everysec
               then start_fsync_thread (e\<lparr>eng_wal := w\<rparr>) else e\<lparr>eng_wal := w\<rparr>, st')"
    using snapshot_holds_read [OF pl good(2) e(2)] r(1) e(1) log
    by (simp add: recover_into_def Let_def apply_records_skip [OF old(1)])
  ultimately show ?thesis
    using r(2,4) e(1) by (auto simp: start_fsync_thread_def)
qed

end
