(* ===== verification/Engine_Spec.thy ===== *)
theory Engine_Spec
  imports Engine_Laws
begin

text \<open>
  Durability: what a store holds after a crash and a recovery, compared with the history of the
  mutations that were acknowledged before the crash.
\<close>

section \<open>Sessions\<close>

text \<open>
  The states a process reaches that starts on an empty data directory: the wall-clock time of the
  last operation, the history of the acknowledged mutations, the engine and the store. The two
  clocks run in step and do not go back, and no system call fails; how writes are split is
  arbitrary.
\<close>

inductive session :: "abi \<Rightarrow> int \<Rightarrow> int \<Rightarrow> history \<Rightarrow> engine \<Rightarrow> store \<Rightarrow> bool"
  for A base where
  start: "open_database os os' A cfg n c t cl [] empty_dir = Inr (e, st) \<Longrightarrow>
    os_good os \<Longrightarrow> os_good os' \<Longrightarrow> recovery_clock A base T0 T cl \<Longrightarrow> session A base T [] e st"
| set: "session A base T h e st \<Longrightarrow> os_good os \<Longrightarrow> coherent A base c \<Longrightarrow> T \<le> wall_now c \<Longrightarrow>
    mutation_ok (M_set k v None) \<Longrightarrow> length h + 1 < 2 ^ 64 \<Longrightarrow>
    durable_set os A c k v e st = (Inr (), e', st') \<Longrightarrow>
    session A base (wall_now c) (h @ [(wall_now c, M_set k v None)]) e' st'"
| del: "session A base T h e st \<Longrightarrow> os_good os \<Longrightarrow> coherent A base c \<Longrightarrow> T \<le> wall_now c \<Longrightarrow>
    mutation_ok (M_del ks) \<Longrightarrow> length h + 1 < 2 ^ 64 \<Longrightarrow>
    durable_del os A c ks e st = (Inr n, e', st') \<Longrightarrow>
    session A base (wall_now c) (h @ [(wall_now c, M_del ks)]) e' st'"
| expire: "session A base T h e st \<Longrightarrow> os_good os \<Longrightarrow> coherent A base c \<Longrightarrow> T \<le> wall_now c \<Longrightarrow>
    coherent A base c' \<Longrightarrow> mutation_ok (M_expire k (expiry_ms A c0 ttl)) \<Longrightarrow> length h + 1 < 2 ^ 64 \<Longrightarrow>
    durable_expire os A c0 c c' k ttl e st = (Inr found, e', st') \<Longrightarrow>
    session A base (wall_now c) (h @ [(wall_now c, M_expire k (expiry_ms A c0 ttl))]) e' st'"
| snapshot: "session A base T h e st \<Longrightarrow> os_good os \<Longrightarrow> os_good os' \<Longrightarrow> coherent A base c \<Longrightarrow>
    T \<le> wall_now c \<Longrightarrow> snapshot_now os os' A c t e st = (Inr (), e', st') \<Longrightarrow> session A base (wall_now c) h e' st'"
| get: "session A base T h e st \<Longrightarrow> coherent A base c \<Longrightarrow> T \<le> wall_now c \<Longrightarrow>
    store_get A c k st = (r, st') \<Longrightarrow> session A base (wall_now c) h e st'"
| exists: "session A base T h e st \<Longrightarrow> coherent A base c \<Longrightarrow> T \<le> wall_now c \<Longrightarrow>
    store_exists_many A c ks st = (n, st') \<Longrightarrow> session A base (wall_now c) h e st'"
| ttl: "session A base T h e st \<Longrightarrow> coherent A base c \<Longrightarrow> T \<le> wall_now c \<Longrightarrow>
    store_ttl A c k st = (i, st') \<Longrightarrow> session A base (wall_now c) h e st'"
| keys: "session A base T h e st \<Longrightarrow> coherent A base c \<Longrightarrow> T \<le> wall_now c \<Longrightarrow>
    store_keys c pattern st = (ks, st') \<Longrightarrow> session A base (wall_now c) h e st'"
| active_expire: "session A base T h e st \<Longrightarrow> coherent A base c \<Longrightarrow> T \<le> wall_now c \<Longrightarrow>
    in_range (dist :: nat distribution) \<Longrightarrow>
    active_expire_cycle dist c samples g st = Inr (n, g', st') \<Longrightarrow> session A base (wall_now c) h e st'"
| background: "session A base T h e st \<Longrightarrow> session A base T h (fsync_round os e) st"

section \<open>The invariant of a session\<close>

text \<open>
  The snapshot stands for the first part \<open>h1\<close> of the history, the log holds the rest \<open>h2\<close>, and the
  store follows the whole.
\<close>

definition engine_inv ::
    "abi \<Rightarrow> int \<Rightarrow> int \<Rightarrow> history \<Rightarrow> history \<Rightarrow> u64 \<Rightarrow> persisted_entry list \<Rightarrow> engine \<Rightarrow> store \<Rightarrow> bool" where
  "engine_inv A base T h1 h2 b es e st \<longleftrightarrow>
     length (h1 @ h2) < 2 ^ 64 \<and> unat b = length h1 \<and>
     list_all (\<lambda>(u, m). u \<le> T \<and> mutation_sizes m) (h1 @ h2) \<and>
     has_wal e \<and> log_holds b (records_of b h2) (eng_wal e) \<and>
     prefix (wal_synced (eng_wal e)) (wal_file (eng_wal e)) \<and>
     (fsync_mode (config e) = Fsync_always \<longrightarrow>
        h2 = [] \<or> wal_synced (eng_wal e) = wal_file (eng_wal e)) \<and>
     snapshot_holds A (eng_dir e) b es \<and>
     wlive T (entries_db Map.empty es) = wlive T (run_spec A Map.empty h1) \<and>
     follows A base T st (run_spec A Map.empty (h1 @ h2))"

lemma numbered_snoc:
  "numbered l (calls @ [(opcode, payload)]) =
     numbered l calls @ [\<lparr>rec_offset = l + of_nat (length calls) + 1, rec_opcode = opcode_code opcode,
                          rec_payload = payload\<rparr>]"
  by (induction l calls rule: numbered.induct) (simp_all add: algebra_simps)

lemma last_of_numbered: "last_of l (numbered l calls) = l + of_nat (length calls)"
  by (induction l calls rule: numbered.induct) (simp_all add: algebra_simps)

lemma log_record_good:
  assumes "has_wal e" and "log_holds b rs (eng_wal e)" and "os_good os"
    and "length payload + 18 < 2 ^ 32" and "wal_last_offset (eng_wal e) \<noteq> - 1"
  shows "\<exists>w. log_record os opcode payload e = (Inr (), e\<lparr>eng_wal := w\<rparr>) \<and>
    log_holds b (rs @ [next_record (eng_wal e) opcode payload]) w \<and>
    (prefix (wal_synced (eng_wal e)) (wal_file (eng_wal e)) \<longrightarrow> prefix (wal_synced w) (wal_file w)) \<and>
    (fsync_mode (config e) = Fsync_always \<longrightarrow> wal_synced w = wal_file w)"
proof -
  obtain w where w: "wal_append os opcode payload (eng_wal e) = (Inr (wal_last_offset (eng_wal e) + 1), w)"
      "log_holds b (rs @ [next_record (eng_wal e) opcode payload]) w"
      "wal_synced w = wal_synced (eng_wal e)"
    using wal_append_good [OF assms(2,3,4,5)] by blast
  then have "wal_sync os w = (Inr (), w\<lparr>wal_synced := wal_file w\<rparr>)"
    using wal_sync_good assms(3) by blast
  moreover have "prefix (wal_synced w) (wal_file w)"
    if "prefix (wal_synced (eng_wal e)) (wal_file (eng_wal e))"
  proof -
    have "prefix (wal_file (eng_wal e)) (wal_file w)"
      using w(2) assms(2) by (simp add: log_holds_def)
    with that w(3) show ?thesis by (auto intro: prefix_order.trans)
  qed
  ultimately show ?thesis
    using w assms(1) by (cases "fsync_mode (config e) = Fsync_always")
      (auto simp: log_record_def durability_action_def log_holds_def)
qed

text \<open>The offset of the last record is the length of the history.\<close>

lemma engine_inv_offset:
  assumes "engine_inv A base T h1 h2 b es e st"
  shows "wal_last_offset (eng_wal e) = b + of_nat (length h2)"
    and "unat (wal_last_offset (eng_wal e)) = length (h1 @ h2)"
proof -
  show o: "wal_last_offset (eng_wal e) = b + of_nat (length h2)"
    using assms by (simp add: engine_inv_def log_holds_def last_of_numbered)
  have "b + of_nat (length h2) = of_nat (length (h1 @ h2))"
    using assms by (simp add: engine_inv_def) (metis of_nat_unat ucast_id)
  then show "unat (wal_last_offset (eng_wal e)) = length (h1 @ h2)"
    using o assms by (simp only: o) (simp add: engine_inv_def unat_of_nat_small del: of_nat_add)
qed

lemma engine_inv_mutation:
  assumes pl: "platform_ok A" and inv: "engine_inv A base T h1 h2 b es e st"
    and good: "os_good os" and c: "coherent A base c" "T \<le> wall_now c" "coherent A base c'"
    and m: "mutation_ok m" and len: "length (h1 @ h2) + 1 < 2 ^ 64"
    and log: "log_record os (fst (mutation_record m)) (snd (mutation_record m)) e = (Inr (), e')"
  shows "engine_inv A base (wall_now c) h1 (h2 @ [(wall_now c, m)]) b es e'
    (store_mutation A c c' m st)"
proof -
  note off = engine_inv_offset [OF inv]
  have "unat (wal_last_offset (eng_wal e) + 1) = unat (wal_last_offset (eng_wal e)) + 1"
    using off(2) len by (intro unat_inc) simp
  then have ne: "wal_last_offset (eng_wal e) \<noteq> - 1" by auto
  obtain w where w: "e' = e\<lparr>eng_wal := w\<rparr>"
      "log_holds b (records_of b h2 @ [next_record (eng_wal e) (fst (mutation_record m))
        (snd (mutation_record m))]) w" "prefix (wal_synced w) (wal_file w)"
      "fsync_mode (config e) = Fsync_always \<longrightarrow> wal_synced w = wal_file w"
    using log_record_good [of e b "records_of b h2" os "snd (mutation_record m)"
        "fst (mutation_record m)"] inv good m ne log
    by (auto simp: engine_inv_def mutation_ok_def)
  have "records_of b (h2 @ [(wall_now c, m)]) =
      records_of b h2 @ [next_record (eng_wal e) (fst (mutation_record m)) (snd (mutation_record m))]"
    by (cases "mutation_record m") (simp add: numbered_snoc next_record_def off(1))
  moreover have "follows A base (wall_now c) (store_mutation A c c' m st)
      (mutate A (wall_now c) m (run_spec A Map.empty (h1 @ h2)))"
    using inv m follows_mutation [OF pl follows_later [OF _ c(2)] c(1) refl c(3)]
    by (simp add: engine_inv_def mutation_ok_def)
  moreover have "wlive (wall_now c) (entries_db Map.empty es) =
      wlive (wall_now c) (run_spec A Map.empty h1)"
    using inv by (intro wlive_later [OF _ c(2)]) (simp add: engine_inv_def)
  ultimately show ?thesis
    using inv w m len c(2)
    by (auto simp: engine_inv_def mutation_ok_def run_spec_append list_all_iff split: prod.splits
        intro: order_trans)
qed

text \<open>The durable operations are a log record followed by the mutation of the store.\<close>

lemma durable_steps:
  "durable_set os A c k v e st = (Inr (), e', st') \<Longrightarrow>
   log_record os (fst (mutation_record (M_set k v None))) (snd (mutation_record (M_set k v None))) e
     = (Inr (), e') \<and> st' = store_mutation A c c' (M_set k v None) st"
  "durable_del os A c ks e st = (Inr n, e', st') \<Longrightarrow>
   log_record os (fst (mutation_record (M_del ks))) (snd (mutation_record (M_del ks))) e = (Inr (), e')
     \<and> st' = store_mutation A c c' (M_del ks) st"
  "durable_expire os A c0 c c' k ttl e st = (Inr found, e', st') \<Longrightarrow>
   log_record os (fst (mutation_record (M_expire k (expiry_ms A c0 ttl))))
     (snd (mutation_record (M_expire k (expiry_ms A c0 ttl)))) e = (Inr (), e')
     \<and> st' = store_mutation A c c' (M_expire k (expiry_ms A c0 ttl)) st"
  by (auto simp: durable_set_def durable_del_def durable_expire_def store_set_def Let_def
      split: prod.splits sum.splits)

text \<open>The entries of a snapshot stand for the live part of the store.\<close>

lemma entries_db_persisted:
  "um_wf bs \<Longrightarrow> entries_db db (map persisted bs) k =
     (case um_find k bs of None \<Rightarrow> db k | Some e \<Rightarrow> Some (entry_value e, expires_at_wall e))"
proof (induction bs arbitrary: db)
  case Nil
  then show ?case by simp
next
  case (Cons b bs)
  then show ?case by (cases b) (auto simp: persisted_def um_wf_Cons split: option.split)
qed

lemma entries_db_store:
  assumes "store_ok A st"
  shows "entries_db Map.empty (map persisted (concat (shards st))) = wall_db A st"
proof
  fix k
  have wf: "um_wf (concat (shards st))" using distinct_keys [OF assms] by (simp add: um_wf_def)
  have "um_find k (concat (shards st)) = Some e \<longleftrightarrow> lookup A st k = Some e" for e
    using um.find_entries [OF wf] binding_lookup [OF assms, of "(k, e)"] by simp
  then have "um_find k (concat (shards st)) = lookup A st k"
    by (metis not_None_eq)
  then show "entries_db Map.empty (map persisted (concat (shards st))) k = wall_db A st k"
    by (simp add: entries_db_persisted [OF wf] wall_db_def split: option.split)
qed

text \<open>A history binds at most as many keys as it has mutations.\<close>

lemma mutate_keys:
  assumes "finite (dom db)"
  shows "finite (dom (mutate A T m db)) \<and> card (dom (mutate A T m db)) \<le> Suc (card (dom db))"
proof -
  have "\<exists>k. dom (mutate A T m db) \<subseteq> insert k (dom db)"
    by (cases m) (auto split: option.split)
  then obtain k where k: "dom (mutate A T m db) \<subseteq> insert k (dom db)" by blast
  show ?thesis
    using assms k card_mono [OF _ k] card_insert_le_m1 [of "Suc (card (dom db))" "dom db" k]
    by (auto intro: finite_subset order_trans)
qed

lemma run_spec_keys:
  "finite (dom db) \<Longrightarrow> finite (dom (run_spec A db h)) \<and> card (dom (run_spec A db h)) \<le> card (dom db) + length h"
proof (induction A db h rule: run_spec.induct)
  case (2 A db T m h)
  then show ?case using mutate_keys [of db A T m] by fastforce
qed simp

lemma export_entries:
  assumes "platform_ok A" and "follows A base T st db" and "coherent A base c" and "wall_now c = T"
    and "finite (dom db)" and "card (dom db) < 2 ^ 64"
  shows "snd (export_snapshot_entries c st) = sweep (now c) st \<and>
    wlive T (entries_db Map.empty (fst (export_snapshot_entries c st))) = wlive T db \<and>
    list_all (entry_aligned A) (fst (export_snapshot_entries c st)) \<and>
    length (fst (export_snapshot_entries c st)) < 2 ^ 64"
proof -
  let ?st = "sweep (now c) st"
  have f: "follows A base T ?st db" by (rule follows_sweep [OF assms(1-4)])
  then have ok: "store_ok A ?st" by (rule followsD)
  have e: "export_snapshot_entries c st = (map persisted (concat (shards ?st)), ?st)"
    by (simp add: export_snapshot_entries_def Let_def map_concat)
  have "entry_aligned A (persisted b)" if "b \<in> set (concat (shards ?st))" for b
  proof -
    have "entry_good A base (fst b) (snd b)"
      using that f binding_lookup [OF ok] by (simp add: follows_def del: set_concat)
    then show ?thesis
      by (cases "expires_at_wall (snd b)")
        (simp_all add: entry_good_def entry_aligned_def entry_fits_def persisted_def round_entry_def
          expiry_good_def)
  qed
  moreover have "length (concat (shards ?st)) \<le> card (dom db)"
  proof -
    have "wlive T db k \<noteq> None" if "lookup A ?st k = Some x" for k x
      using that wlive_live_entry [OF assms(1,3,2), of k] assms(2,4)
      by (auto simp: lookup_sweep [OF followsD(1) [OF assms(2)]] follows_def)
    then have keys: "set (map fst (concat (shards ?st))) \<subseteq> dom db"
      using binding_lookup [OF ok] wlive_None [of db _ T] by (fastforce simp del: set_concat)
    show ?thesis
      using card_mono [OF assms(5) keys] distinct_card [OF distinct_keys [OF ok]] by simp
  qed
  ultimately show ?thesis
    using f assms(6)
    by (auto simp: e entries_db_store [OF ok] follows_def list_all_iff simp del: set_concat)
qed

text \<open>Rotating the log, whatever the environment does.\<close>

lemma truncate_after_outcome:
  assumes "truncate_after os l w = (r, w')"
  shows "wal_file w' = wal_file w \<or> prefix (wal_file w') wal_header"
proof -
  obtain q st where q: "write_all ''short write to WAL'' (io_writes os) wal_header (0, []) = (q, st)"
    by (rule prod.exhaust)
  then obtain d where d: "st = (length d, d)"
      "case q of Inr _ \<Rightarrow> d = wal_header | Inl _ \<Rightarrow> strict_prefix d wal_header"
    using write_all_appends [of _ _ _ "[]" q st] by fastforce
  then have "prefix d wal_header" by (cases q) (simp_all add: strict_prefix_def)
  then show ?thesis
    using assms d(1) q
    by (cases q) (auto simp: truncate_after_def write_header_unlocked_def write_fd_def ftruncate_def
        zero_bytes_def Let_def split: option.splits if_splits)
qed

lemma wal_sync_file: "wal_file (snd (wal_sync os w)) = wal_file w"
  "wal_last_offset (snd (wal_sync os w)) = wal_last_offset w"
  by (simp_all add: wal_sync_def split: option.split)

text \<open>
  A snapshot that stops anywhere leaves the old snapshot with the old log, or the new snapshot
  with the old log or with at most a header.
\<close>

lemma write_snapshot_outcome:
  assumes "write_snapshot os os' A c e st = (r, e', st')"
  shows "(dump (eng_dir e') = dump (eng_dir e) \<and> wal_file (eng_wal e') = wal_file (eng_wal e)) \<or>
    (dump (eng_dir e') = Some (snapshot_bytes A (wal_last_offset (eng_wal e))
        (fst (export_snapshot_entries c st))) \<and>
      (wal_file (eng_wal e') = wal_file (eng_wal e) \<or> prefix (wal_file (eng_wal e')) wal_header))"
proof -
  obtain q w where s: "(if fsync_mode (config e) \<noteq> Fsync_none then wal_sync os (eng_wal e)
      else (Inr (), eng_wal e)) = (q, w)" by (rule prod.exhaust)
  then have w: "wal_file w = wal_file (eng_wal e)" "wal_last_offset w = wal_last_offset (eng_wal e)"
    using wal_sync_file [of os "eng_wal e"] by (auto split: if_splits)
  obtain es st1 where es: "export_snapshot_entries c st = (es, st1)" by (rule prod.exhaust)
  let ?l = "wal_last_offset (eng_wal e)"
  obtain r1 d where d: "snapshot_write os' A ?l es (eng_dir e) = (r1, d)"
    by (rule prod.exhaust)
  obtain r2 w2 where w2: "truncate_after os ?l w = (r2, w2)" by (rule prod.exhaust)
  have "case (r1, d) of
      (Inr _, d') \<Rightarrow> dump d' = Some (snapshot_bytes A ?l es) \<and> dump_tmp d' = None
    | (Inl _, d') \<Rightarrow> dump d' = dump (eng_dir e)"
    using snapshot_write_outcome [where os = os' and A = A and es = es and d = "eng_dir e"
        and wal_offset = ?l] by (simp only: d)
  then show ?thesis
    using assms truncate_after_outcome [OF w2] w(1)
    by (cases q; cases r1; cases r2) (auto simp: write_snapshot_def s es d w2 w(2) Let_def)
qed

section \<open>Every session keeps the invariant\<close>

lemma engine_inv_later:
  assumes "engine_inv A base T h1 h2 b es e st" and "T \<le> T'"
    and "follows A base T' st' (run_spec A Map.empty (h1 @ h2))"
  shows "engine_inv A base T' h1 h2 b es e st'"
proof -
  have "wlive T' (entries_db Map.empty es) = wlive T' (run_spec A Map.empty h1)"
    using assms(1) by (intro wlive_later [OF _ assms(2)]) (simp add: engine_inv_def)
  then show ?thesis
    using assms by (auto simp: engine_inv_def list_all_iff intro: order_trans)
qed

lemma engine_inv_background:
  assumes "engine_inv A base T h1 h2 b es e st"
  shows "engine_inv A base T h1 h2 b es (fsync_round os e) st"
  using assms
  by (auto simp: engine_inv_def fsync_round_def wal_sync_def log_holds_def split: option.split)

lemma engine_inv_write_snapshot:
  assumes pl: "platform_ok A" and inv: "engine_inv A base T h1 h2 b es e st"
    and good: "os_good os" "os_good os'" and c: "coherent A base c" "T \<le> wall_now c"
  shows "\<exists>b' es' e' st'. write_snapshot os os' A c e st = (Inr (), e', st') \<and>
    engine_inv A base (wall_now c) (h1 @ h2) [] b' es' e' st'"
proof -
  let ?l = "wal_last_offset (eng_wal e)" and ?T = "wall_now c" and ?h = "h1 @ h2"
  have lh: "log_holds b (records_of b h2) (eng_wal e)" "has_wal e" "length ?h < 2 ^ 64"
      "list_all (\<lambda>(u, m). u \<le> ?T \<and> mutation_sizes m) ?h"
    using inv c(2) by (auto simp: engine_inv_def list_all_iff intro: order_trans)
  have f: "follows A base ?T st (run_spec A Map.empty ?h)"
    using inv follows_later [OF _ c(2)] by (simp add: engine_inv_def)
  have k: "finite (dom (run_spec A Map.empty ?h))" "card (dom (run_spec A Map.empty ?h)) < 2 ^ 64"
    using run_spec_keys [of Map.empty A ?h] lh(3) by simp_all
  obtain es' where es: "export_snapshot_entries c st = (es', sweep (now c) st)"
      "wlive ?T (entries_db Map.empty es') = wlive ?T (run_spec A Map.empty ?h)"
      "list_all (entry_aligned A) es'" "length es' < 2 ^ 64"
    using export_entries [OF pl f c(1) refl k] by (metis prod.collapse)
  define w where "w = (if fsync_mode (config e) \<noteq> Fsync_none then
    (eng_wal e)\<lparr>wal_synced := wal_file (eng_wal e)\<rparr> else eng_wal e)"
  have w: "log_holds b (records_of b h2) w" "wal_last_offset w = ?l"
    using lh(1) by (simp_all add: w_def log_holds_def)
  obtain w' where w': "truncate_after os ?l w = (Inr (), w')" "log_holds ?l [] w'" "wal_synced w' = wal_file w'"
    using truncate_after_good [OF w(1) good(1)] by blast
  have s: "(if fsync_mode (config e) \<noteq> Fsync_none then wal_sync os (eng_wal e)
      else (Inr (), eng_wal e)) = (Inr (), w)"
    using wal_sync_good [OF lh(1) good(1)] by (simp add: w_def)
  let ?e = "e\<lparr>eng_wal := w', eng_dir := (eng_dir e)\<lparr>dump := Some (snapshot_bytes A ?l es'), dump_tmp := None\<rparr>\<rparr>"
  have "write_snapshot os os' A c e st = (Inr (), ?e, sweep (now c) st)"
    by (simp add: write_snapshot_def s es(1) w(2) w'(1) Let_def snapshot_write_good [OF good(2)])
  moreover have "engine_inv A base ?T ?h [] ?l es' ?e (sweep (now c) st)"
    using w'(2,3) es(2-4) follows_sweep [OF pl f c(1) refl] lh(2-4) engine_inv_offset(2) [OF inv]
    by (simp add: engine_inv_def snapshot_holds_def)
  ultimately show ?thesis by blast
qed

lemma engine_inv_next_snapshot:
  "engine_inv A base T h1 h2 b es (e\<lparr>next_snapshot_at := x\<rparr>) st = engine_inv A base T h1 h2 b es e st"
  "engine_inv A base T h1 h2 b es (stop_fsync_thread e) st = engine_inv A base T h1 h2 b es e st"
  by (simp_all add: engine_inv_def stop_fsync_thread_def)

lemma engine_inv_snapshot:
  assumes "platform_ok A" and inv: "engine_inv A base T h1 h2 b es e st"
    and "os_good os" "os_good os'" and "coherent A base c" "T \<le> wall_now c"
    and run: "snapshot_now os os' A c t e st = (Inr (), e', st')"
  shows "\<exists>b' es'. engine_inv A base (wall_now c) (h1 @ h2) [] b' es' e' st'"
proof -
  obtain b' es' e1 st1 where "write_snapshot os os' A c e st = (Inr (), e1, st1)"
      "engine_inv A base (wall_now c) (h1 @ h2) [] b' es' e1 st1"
    using engine_inv_write_snapshot [OF assms(1-6)] by blast
  moreover have "has_wal e" using inv by (simp add: engine_inv_def)
  ultimately have "engine_inv A base (wall_now c) (h1 @ h2) [] b' es' e' st'"
    using run by (auto simp: snapshot_now_def engine_inv_next_snapshot split: if_splits)
  then show ?thesis by blast
qed

text \<open>The engine a new process makes of the files \<open>f\<close> and \<open>d\<close>.\<close>

lemma open_database_steps:
  assumes "new_store n (Some c) = Inr st0" and "data_dir_path cfg \<noteq> []" and "os_good os"
  shows "\<exists>e0. has_wal e0 \<and> eng_wal e0 = new_wal f \<and> eng_dir e0 = d \<and> config e0 = cfg \<and>
    open_database os os' A cfg n c t cl f d =
      (case recover_into os os' A cl e0 st0 of (Inl x, _) \<Rightarrow> Inl x | (Inr _, e', st') \<Rightarrow> Inr (e', st'))"
proof -
  obtain e0 where e0: "new_engine os cfg (Some c) t f d = Inr e0"
    using assms(2,3) by (simp add: new_engine_def os_good_def)
  then have "has_wal e0 \<and> eng_wal e0 = new_wal f \<and> eng_dir e0 = d \<and> config e0 = cfg"
    by (auto simp: new_engine_def split: if_splits)
  then show ?thesis
    using assms(1,2) e0 by (intro exI [of _ e0]) (simp add: open_database_def)
qed

lemma open_database_config:
  "open_database os os' A cfg n c t cl f d = Inr r \<Longrightarrow>
   data_dir_path cfg \<noteq> [] \<and> (\<exists>st0. new_store n (Some c) = Inr st0)"
  by (auto simp: open_database_def bindE_def split: sum.splits if_splits)

lemma engine_inv_start:
  assumes pl: "platform_ok A" and run: "open_database os os' A cfg n c t cl [] empty_dir = Inr (e', st')"
    and good: "os_good os" "os_good os'" and cl: "recovery_clock A base T0 T cl"
  shows "engine_inv A base T [] [] 0 [] e' st' \<and> config e' = cfg"
proof -
  obtain st0 where st0: "data_dir_path cfg \<noteq> []" "new_store n (Some c) = Inr st0"
    using open_database_config [OF run] by blast
  from open_database_steps [OF st0(2,1) good(1)] obtain e where e: "has_wal e" "eng_wal e = new_wal []"
      "eng_dir e = empty_dir" "config e = cfg"
      "open_database os os' A cfg n c t cl [] empty_dir = (case recover_into os os' A cl e st0 of
        (Inl x, _) \<Rightarrow> Inl x | (Inr _, e', st') \<Rightarrow> Inr (e', st'))" by blast
  have sn: "snapshot_holds A (eng_dir e) 0 []" by (simp add: snapshot_holds_def empty_dir_def e(3))
  obtain w where w: "open_and_recover os (eng_wal e) = (Inr ([] @ records_of 0 []), w)" "log_holds 0 [] w"
      "wal_synced w = []"
    using open_short [OF good(1), of "new_wal []"] by (auto simp: e(2) new_wal_def)
  have "agrees True T0 (entries_db Map.empty []) Map.empty" by (simp add: agrees_def)
  from recover_replays [OF pl cl good new_store_ok [OF st0(2)] e(1) sn w(1) _ _ _ _ this]
  obtain u db' where r: "eng_wal e' = w" "eng_dir e' = eng_dir e" "has_wal e'" "config e' = cfg"
      "follows A base u st' db'" "u \<le> T" "agrees True u db' Map.empty"
    using run e(4,5) by auto
  have "follows A base u st' Map.empty" using r(5,7) follows_cong [of u db' Map.empty] by (simp add: agrees_def)
  then have "follows A base T st' Map.empty" using r(6) by (rule follows_later)
  then show ?thesis
    using r(1-4) w(2,3) sn by (simp add: engine_inv_def)
qed

lemma engine_inv_mutation_ex:
  assumes "platform_ok A" and "\<exists>h1 h2 b es. h = h1 @ h2 \<and> engine_inv A base T h1 h2 b es e st"
    and "os_good os" and "coherent A base c" and "T \<le> wall_now c" and "coherent A base c'"
    and "mutation_ok m" and "length h + 1 < 2 ^ 64"
    and "log_record os (fst (mutation_record m)) (snd (mutation_record m)) e = (Inr (), e') \<and>
      st' = store_mutation A c c' m st"
  shows "\<exists>h1 h2 b es. h @ [(wall_now c, m)] = h1 @ h2 \<and> engine_inv A base (wall_now c) h1 h2 b es e' st'"
proof -
  obtain h1 h2 b es where h: "h = h1 @ h2" and inv: "engine_inv A base T h1 h2 b es e st"
    using assms(2) by blast
  have "engine_inv A base (wall_now c) h1 (h2 @ [(wall_now c, m)]) b es e' (store_mutation A c c' m st)"
    using assms(8,9) h by (intro engine_inv_mutation [OF assms(1) inv assms(3-7)]) auto
  moreover have "h @ [(wall_now c, m)] = h1 @ h2 @ [(wall_now c, m)]" by (simp add: h)
  ultimately show ?thesis using assms(9) by blast
qed

text \<open>Operations that only remove expired bindings keep the invariant.\<close>

lemma engine_inv_reader:
  assumes "\<exists>h1 h2 b es. h = h1 @ h2 \<and> engine_inv A base T h1 h2 b es e st" and "T \<le> T'"
    and "\<And>db. follows A base T' st db \<Longrightarrow> follows A base T' st' db"
  shows "\<exists>h1 h2 b es. h = h1 @ h2 \<and> engine_inv A base T' h1 h2 b es e st'"
proof -
  obtain h1 h2 b es where i: "h = h1 @ h2" "engine_inv A base T h1 h2 b es e st" using assms(1) by blast
  then have "follows A base T' st' (run_spec A Map.empty (h1 @ h2))"
    using assms(3) follows_later [OF _ assms(2)] by (simp add: engine_inv_def)
  from engine_inv_later [OF i(2) assms(2) this] show ?thesis using i(1) by blast
qed

lemma session_inv:
  assumes "platform_ok A" and "session A base T h e st"
  shows "\<exists>h1 h2 b es. h = h1 @ h2 \<and> engine_inv A base T h1 h2 b es e st"
  using assms(2)
proof induction
  case (start os os' cfg n c t cl e st T0 T)
  have "engine_inv A base T [] [] 0 [] e st" using engine_inv_start [OF assms(1) start] by blast
  then show ?case
    by (intro exI [of _ "[]"] exI [of _ "[]"] exI [of _ 0] exI [of _ "[]"] conjI) (rule append_Nil [symmetric])
next
  case (set T h e st os c k v e' st')
  show ?case
    by (rule engine_inv_mutation_ex [OF assms(1) set.IH set.hyps(2-4,3,5,6) durable_steps(1) [OF set.hyps(7)]])
next
  case (del T h e st os c ks n e' st')
  show ?case
    by (rule engine_inv_mutation_ex [OF assms(1) del.IH del.hyps(2-4,3,5,6) durable_steps(2) [OF del.hyps(7)]])
next
  case (expire T h e st os c c' k c0 ttl found e' st')
  show ?case
    by (rule engine_inv_mutation_ex [OF assms(1) expire.IH expire.hyps(2-7) durable_steps(3) [OF expire.hyps(8)]])
next
  case (snapshot T h e st os os' c t e' st')
  then obtain h1 h2 b es where "h = h1 @ h2" "engine_inv A base T h1 h2 b es e st" by blast
  then obtain b' es' where "engine_inv A base (wall_now c) h [] b' es' e' st'"
    using engine_inv_snapshot [OF assms(1) _ snapshot.hyps(2-6)] by blast
  then show ?case
    by (intro exI [of _ h] exI [of _ "[]"] exI [of _ b'] exI [of _ es'] conjI) (rule append_Nil2 [symmetric])
next
  case (get T h e st c k r st')
  have "follows A base (wall_now c) st' db" if "follows A base (wall_now c) st db" for db
    using follows_purge [OF assms(1) that get.hyps(2) refl, of k] get.hyps(4) by (simp add: store_get_eq)
  then show ?case by (rule engine_inv_reader [OF get.IH get.hyps(3)])
next
  case (exists T h e st c ks n st')
  have "purged A (now c) st st'"
    using purged_exists_keys [of A "now c" st ks 0] exists.hyps(4)
    by (auto simp: store_exists_many_def intro: purged.nothing split: if_splits)
  from follows_purged [OF assms(1) exists.hyps(2) refl this]
  show ?case by (rule engine_inv_reader [OF exists.IH exists.hyps(3)])
next
  case (ttl T h e st c k i st')
  have "follows A base (wall_now c) st' db" if "follows A base (wall_now c) st db" for db
    using follows_purge [OF assms(1) that ttl.hyps(2) refl, of k] ttl.hyps(4) by (simp add: store_ttl_eq)
  then show ?case by (rule engine_inv_reader [OF ttl.IH ttl.hyps(3)])
next
  case (keys T h e st c pattern ks st')
  have "follows A base (wall_now c) st' db" if "follows A base (wall_now c) st db" for db
    using follows_sweep [OF assms(1) that keys.hyps(2) refl] that keys.hyps(4)
    by (auto simp: store_keys_def Let_def split: if_splits)
  then show ?case by (rule engine_inv_reader [OF keys.IH keys.hyps(3)])
next
  case (active_expire T h e st c dist samples g n g' st')
  then obtain h1 h2 b es where "engine_inv A base T h1 h2 b es e st" by blast
  then have "store_ok A st" by (simp add: engine_inv_def follows_def)
  then have "purged A (now c) st st'"
    using active_expire_cycle_spec [OF active_expire.hyps(4), of A st c samples g] active_expire.hyps(5)
    by auto
  from follows_purged [OF assms(1) active_expire.hyps(2) refl this]
  show ?case by (rule engine_inv_reader [OF active_expire.IH active_expire.hyps(3)])
next
  case (background T h e st os)
  then obtain h1 h2 b es where i: "h = h1 @ h2" "engine_inv A base T h1 h2 b es e st" by blast
  from engine_inv_background [OF i(2)] show ?case using i(1) by blast
qed

section \<open>Recovery after a crash\<close>

lemma snapshot_holds_cong: "dump d = dump d' \<Longrightarrow> snapshot_holds A d s es = snapshot_holds A d' s es"
  by (simp add: snapshot_holds_def)

text \<open>What agreement means for the store.\<close>

lemma follows_agrees:
  assumes "follows A base t st db'" and "t \<le> T'" and "agrees exact t db' db"
  shows "agrees exact T' (wall_db A st) db"
proof -
  have "wlive t (wall_db A st) = wlive t db'" using assms(1) by (simp add: follows_def)
  then have "agrees exact t (wall_db A st) db" using assms(3) by (simp add: agrees_def)
  then show ?thesis using assms(2) by (rule agrees_later)
qed

lemma recover_prefix:
  assumes pl: "platform_ok A" and inv: "engine_inv A base T h1 h2 b es e st"
    and f: "prefix f (wal_file (eng_wal e))" and d: "dump d = dump (eng_dir e)"
    and e0: "has_wal e0" "eng_wal e0 = new_wal f" "eng_dir e0 = d" and st0: "store_ok A st0"
    and good: "os_good os" "os_good os'" and cl: "recovery_clock A base' T T' cl"
  shows "\<exists>k e1 st1. recover_into os os' A cl e0 st0 = (Inr (), e1, st1) \<and> k \<le> length h2 \<and>
    agrees (lapse_free A T' Map.empty (h1 @ take k h2)) T' (wall_db A st1)
      (run_spec A Map.empty (h1 @ take k h2)) \<and>
    (f = wal_file (eng_wal e) \<longrightarrow> k = length h2)"
proof -
  let ?rs = "records_of b h2"
  have lh: "wal_file (eng_wal e) = wal_header @ log_bytes ?rs" "chain 0 ?rs"
      "snapshot_holds A d b es" "wlive T (entries_db Map.empty es) = wlive T (run_spec A Map.empty h1)"
    using inv chain_weaken snapshot_holds_cong [OF d]
    by (auto simp: engine_inv_def log_holds_def)
  obtain k w where w: "open_and_recover os (new_wal f) = (Inr (take k ?rs), w)"
      "k < length ?rs \<longrightarrow> \<not> prefix (wal_header @ log_bytes (take (Suc k) ?rs)) f"
    using open_prefix [OF good(1) lh(2)] f lh(1) by metis
  let ?k = "min k (length h2)"
  let ?h = "h1 @ take ?k h2"
  have rs: "take k ?rs = [] @ records_of b (take ?k h2)"
    by (simp add: take_numbered take_map [symmetric] min_def)
  have full: "?k = length h2" if "f = wal_file (eng_wal e)"
  proof (rule ccontr)
    assume "?k \<noteq> length h2"
    moreover have "length ?rs = length h2" by simp
    ultimately have "\<not> prefix (wal_header @ log_bytes (take (Suc k) ?rs)) f" using w(2) by simp
    moreover have "log_bytes ?rs = log_bytes (take (Suc k) ?rs) @ log_bytes (drop (Suc k) ?rs)"
      by (metis append_take_drop_id log_bytes_simps(3))
    ultimately show False using that lh(1) by (simp add: prefix_def)
  qed
  have "list_all (\<lambda>(u, m). u \<le> T \<and> mutation_sizes m) (take ?k h2)" "unat b + length (take ?k h2) < 2 ^ 64"
    using inv by (auto simp: engine_inv_def list_all_iff dest: in_set_takeD)
  moreover have "agrees (lapse_free A T' Map.empty ?h) T (entries_db Map.empty es) (run_spec A Map.empty h1)"
    using lh(4) by (simp add: agrees_def)
  ultimately obtain e1 st1 u db' where "recover_into os os' A cl e0 st0 = (Inr (), e1, st1)"
      "follows A base' u st1 db'" "u \<le> T'"
      "agrees (lapse_free A T' Map.empty ?h) u db' (run_spec A (run_spec A Map.empty h1) (take ?k h2))"
    using recover_replays [OF pl cl good st0, of e0 b es "[]" b "take ?k h2" w
        "lapse_free A T' Map.empty ?h" "run_spec A Map.empty h1"]
      e0 w(1) lh(3) rs by (auto simp: lapse_free_append)
  then show ?thesis
    using full follows_agrees by (intro exI [of _ ?k]) (auto simp: run_spec_append)
qed

end
