(* ===== verification/Durability.thy ===== *)
theory Durability
  imports Engine_Spec
begin

text \<open>
  The durability properties of the persistence engine: which of the acknowledged mutations a
  recovery brings back, after a crash at any point between operations and at any point inside a
  snapshot.
\<close>

section \<open>Recovery of a rotated or shadowed log\<close>


text \<open>Records that a snapshot covers are skipped, whatever part of the log is left.\<close>

lemma recover_shadowed:
  assumes pl: "platform_ok A" and cl: "recovery_clock A base' T T' cl"
    and good: "os_good os" "os_good os'" and st0: "store_ok A st0"
    and e0: "has_wal e0" "eng_wal e0 = new_wal f" "snapshot_holds A (eng_dir e0) s es"
    and f: "chain 0 rs" "prefix f (wal_header @ log_bytes rs)" "list_all (\<lambda>r. rec_offset r \<le> s) rs"
    and db: "wlive T (entries_db Map.empty es) = wlive T db" and s: "unat s < 2 ^ 64"
  shows "\<exists>e1 st1 k u. recover_into os os' A cl e0 st0 = (Inr (), e1, st1) \<and>
    has_wal e1 \<and> eng_dir e1 = eng_dir e0 \<and> config e1 = config e0 \<and>
    log_holds 0 (take k rs) (eng_wal e1) \<and> follows A base' T' st1 db"
proof -
  obtain k w where w: "open_and_recover os (new_wal f) = (Inr (take k rs), w)" "log_holds 0 (take k rs) w"
    using open_prefix [OF good(1) f(1,2)] by blast
  have old: "list_all (\<lambda>r. rec_offset r \<le> s) (take k rs)"
    using f(3) by (auto simp: list_all_iff dest: in_set_takeD)
  have a: "agrees True T (entries_db Map.empty es) db" using db by (simp add: agrees_def)
  have log: "open_and_recover os (eng_wal e0) = (Inr (take k rs @ records_of s []), w)"
    using w(1) e0(2) by simp
  obtain e1 st1 u db' where r: "recover_into os os' A cl e0 st0 = (Inr (), e1, st1)"
      "eng_wal e1 = w" "eng_dir e1 = eng_dir e0" "has_wal e1" "config e1 = config e0"
      "follows A base' u st1 db'" "u \<le> T'" "agrees True u db' (run_spec A db [])"
    using recover_replays [OF pl cl good st0 e0(1,3) log old order_refl _ _ a] s by auto
  have "follows A base' u st1 db" using r(6,8) follows_cong [of u db' db] by (simp add: agrees_def)
  then have "follows A base' T' st1 db" using r(7) by (rule follows_later)
  with r w(2) show ?thesis by blast
qed

lemma open_shadowed:
  assumes pl: "platform_ok A" and cl: "recovery_clock A base' T T' cl"
    and good: "os_good os" "os_good os'" and cfg: "0 < n" "data_dir_path cfg \<noteq> []"
    and d: "snapshot_holds A d s es"
    and f: "chain 0 rs" "prefix f (wal_header @ log_bytes rs)" "list_all (\<lambda>r. rec_offset r \<le> s) rs"
    and db: "wlive T (entries_db Map.empty es) = wlive T db" and s: "unat s < 2 ^ 64"
  shows "\<exists>e1 st1 k. open_database os os' A cfg n c t cl f d = Inr (e1, st1) \<and>
    has_wal e1 \<and> eng_dir e1 = d \<and> log_holds 0 (take k rs) (eng_wal e1) \<and> follows A base' T' st1 db"
proof -
  obtain st0 where st0: "new_store n (Some c) = Inr st0" using cfg(1) by (simp add: new_store_def)
  from open_database_steps [OF st0 cfg(2) good(1)] obtain e0 where e0: "has_wal e0" "eng_wal e0 = new_wal f"
      "eng_dir e0 = d" "open_database os os' A cfg n c t cl f d =
        (case recover_into os os' A cl e0 st0 of (Inl x, _) \<Rightarrow> Inl x | (Inr _, e', st') \<Rightarrow> Inr (e', st'))"
    by blast
  have "snapshot_holds A (eng_dir e0) s es" using d e0(3) by simp
  from recover_shadowed [OF pl cl good new_store_ok [OF st0] e0(1,2) this f db s]
  show ?thesis using e0(3,4) by auto
qed

lemma follows_reads:
  assumes "platform_ok A" and "follows A base T st db" and "coherent A base c" and "T \<le> wall_now c"
  shows "fst (store_get A c k st) = map_option fst (wlive (wall_now c) db k)"
proof -
  have f: "follows A base (wall_now c) st db" by (rule follows_later [OF assms(2,4)])
  then have "wlive (wall_now c) db k = wlive (wall_now c) (wall_db A st) k" by (simp add: follows_def)
  also have "\<dots> = map_option (\<lambda>e. (entry_value e, expires_at_wall e)) (live_entry A (now c) st k)"
    by (rule wlive_live_entry [OF assms(1,3) f])
  finally show ?thesis by (simp add: store_get_eq option.map_comp comp_def)
qed



section \<open>Sessions make progress\<close>

text \<open>As long as no system call fails, every durable operation is acknowledged.\<close>

lemma session_log:
  assumes "platform_ok A" and "session A base T h e st" and "os_good os" and "mutation_ok m"
    and "length h + 1 < 2 ^ 64"
  shows "\<exists>w. log_record os (fst (mutation_record m)) (snd (mutation_record m)) e = (Inr (), e\<lparr>eng_wal := w\<rparr>)"
proof -
  obtain h1 h2 b es where h: "h = h1 @ h2" and inv: "engine_inv A base T h1 h2 b es e st"
    using session_inv [OF assms(1,2)] by blast
  have "unat (wal_last_offset (eng_wal e)) = length h" using engine_inv_offset(2) [OF inv] h by simp
  then have "unat (wal_last_offset (eng_wal e) + 1) = unat (wal_last_offset (eng_wal e)) + 1"
    using assms(5) by (intro unat_inc) simp
  then have "wal_last_offset (eng_wal e) \<noteq> - 1" by auto
  moreover have "has_wal e" "log_holds b (records_of b h2) (eng_wal e)"
    using inv by (simp_all add: engine_inv_def)
  ultimately show ?thesis
    using log_record_good assms(3,4) unfolding mutation_ok_def by blast
qed

lemma session_start_ex:
  assumes "platform_ok A" and "0 < n" and "data_dir_path cfg \<noteq> []" and "os_good os" and "os_good os'"
    and "recovery_clock A base T0 T cl"
  shows "\<exists>e st. open_database os os' A cfg n c t cl [] empty_dir = Inr (e, st) \<and>
    session A base T [] e st \<and> eng_dir e = empty_dir"
proof -
  have "snapshot_holds A empty_dir 0 []" by (simp add: snapshot_holds_def empty_dir_def)
  from open_shadowed [OF assms(1,6,4,5,2,3) this, of "[]" "[]" Map.empty c t]
  obtain e st where "open_database os os' A cfg n c t cl [] empty_dir = Inr (e, st)" "eng_dir e = empty_dir"
    by auto
  with session.start [OF _ assms(4-6)] show ?thesis by blast
qed

lemma session_set_ex:
  assumes "platform_ok A" and "session A base T h e st" and "os_good os" and "coherent A base c"
    and "T \<le> wall_now c" and "mutation_ok (M_set k v None)" and "length h + 1 < 2 ^ 64"
  shows "\<exists>e' st'. durable_set os A c k v e st = (Inr (), e', st') \<and> eng_dir e' = eng_dir e \<and>
    session A base (wall_now c) (h @ [(wall_now c, M_set k v None)]) e' st'"
proof -
  obtain w where "log_record os Op_set (encode_set_payload k v None) e = (Inr (), e\<lparr>eng_wal := w\<rparr>)"
    using session_log [OF assms(1-3,6,7)] by auto
  then have "durable_set os A c k v e st = (Inr (), e\<lparr>eng_wal := w\<rparr>, store_set A c k (VString v) st)"
    by (simp add: durable_set_def)
  with session.set [OF assms(2-7) this] show ?thesis by auto
qed

lemma session_del_ex:
  assumes "platform_ok A" and "session A base T h e st" and "os_good os" and "coherent A base c"
    and "T \<le> wall_now c" and "mutation_ok (M_del ks)" and "length h + 1 < 2 ^ 64"
  shows "\<exists>n e' st'. durable_del os A c ks e st = (Inr n, e', st') \<and> eng_dir e' = eng_dir e \<and>
    session A base (wall_now c) (h @ [(wall_now c, M_del ks)]) e' st'"
proof -
  obtain w where w: "log_record os Op_del (encode_del_payload ks) e = (Inr (), e\<lparr>eng_wal := w\<rparr>)"
    using session_log [OF assms(1-3,6,7)] by auto
  obtain n st' where r: "store_del_many A c ks st = (n, st')" by (rule prod.exhaust)
  have "durable_del os A c ks e st = (Inr n, e\<lparr>eng_wal := w\<rparr>, st')" by (simp add: durable_del_def w r)
  with session.del [OF assms(2-7) this] show ?thesis by auto
qed

lemma session_expire_ex:
  assumes "platform_ok A" and "session A base T h e st" and "os_good os" and "coherent A base c"
    and "T \<le> wall_now c" and "coherent A base c'" and "mutation_ok (M_expire k (expiry_ms A c0 ttl))"
    and "length h + 1 < 2 ^ 64"
  shows "\<exists>b e' st'. durable_expire os A c0 c c' k ttl e st = (Inr b, e', st') \<and> eng_dir e' = eng_dir e \<and>
    session A base (wall_now c) (h @ [(wall_now c, M_expire k (expiry_ms A c0 ttl))]) e' st'"
proof -
  obtain w where w: "log_record os Op_expire (encode_expire_payload k (expiry_ms A c0 ttl)) e =
      (Inr (), e\<lparr>eng_wal := w\<rparr>)"
    using session_log [OF assms(1-3,7,8)] by auto
  obtain b st' where r: "store_expire_at A c c' k (Some (from_unix_ms A (expiry_ms A c0 ttl))) st = (b, st')"
    by (rule prod.exhaust)
  have "durable_expire os A c0 c c' k ttl e st = (Inr b, e\<lparr>eng_wal := w\<rparr>, st')"
    by (simp add: durable_expire_def w r Let_def)
  with session.expire [OF assms(2-8) this] show ?thesis by auto
qed

section \<open>A sample session\<close>

definition sample_config :: persistence_config where
  "sample_config = \<lparr>data_dir_path = ''data'', fsync_mode = Fsync_always, snapshot_interval_seconds = 0\<rparr>"

abbreviation sample_open :: "string \<Rightarrow> data_dir \<Rightarrow> int \<Rightarrow> (engine \<times> store) result" where
  "sample_open f d s \<equiv>
     open_database calm calm sample_abi sample_config 2 (sample_clock s) 0 (\<lambda>_. sample_clock s) f d"

definition sample_set :: "int \<times> mutation" where
  "sample_set = (1000000, M_set ''k'' ''v'' None)"

lemma sample_clock_facts:
  "coherent sample_abi 0 (sample_clock s)" "wall_now (sample_clock s) = s * 1000000"
  "T \<le> s * 1000000 \<Longrightarrow> s * 1000000 \<le> T' \<Longrightarrow> recovery_clock sample_abi 0 T T' (\<lambda>_. sample_clock s)"
  by (simp_all add: coherent_def recovery_clock_def sample_clock_def sample_abi_def)

lemma sample_set_ok: "mutation_ok (M_set ''k'' ''v'' None)" "mutation_ok (M_set ''b'' ''2'' None)"
  "mutation_ok (M_expire ''k'' ms)"
  by (simp_all add: mutation_ok_def fits_u32_def encode_payloads append_u8_def append_i64_def
      append_bytes_def)

lemma sample_session:
  "\<exists>e st. session sample_abi 0 1000000 [sample_set] e st \<and> eng_dir e = empty_dir"
proof -
  have "recovery_clock sample_abi 0 0 0 (\<lambda>_. sample_clock 0)" by (rule sample_clock_facts) simp_all
  then obtain e0 st0 where s0: "sample_open [] empty_dir 0 = Inr (e0, st0)"
      "session sample_abi 0 0 [] e0 st0" "eng_dir e0 = empty_dir"
    using session_start_ex [OF sample_platform, of 2 sample_config calm calm] by (force simp: sample_config_def)
  obtain e st where "durable_set calm sample_abi (sample_clock 1) ''k'' ''v'' e0 st0 = (Inr (), e, st)"
      "eng_dir e = empty_dir" "session sample_abi 0 1000000 [sample_set] e st"
    using session_set_ex [OF sample_platform s0(2) calm_good sample_clock_facts(1) _ sample_set_ok(1), of 1] s0(3)
    by (auto simp: sample_clock_facts(2) sample_set_def)
  then show ?thesis by blast
qed

section \<open>Recovery after a crash\<close>


section \<open>Properties\<close>







text \<open>
  C30: A write after a restart can be lost. After an orderly shutdown of a session with a non-empty
  history and a restart, the log numbers its records from 1 again, while the snapshot says that it
  covers the offsets up to the length of the history. A \<^verbatim>\<open>SET\<close> that is acknowledged then, synced
  or not, is gone after the next crash: recovery takes its record for one that the snapshot
  contains, and the store is what it was before the \<^verbatim>\<open>SET\<close>.
\<close>

theorem restart_loses_write:
  assumes "platform_ok A" and "session A base T h e st" and "h \<noteq> []"
    and "coherent A base c" and "T \<le> wall_now c"
    and "0 < n" and "data_dir_path cfg \<noteq> []" and "os_good os" and "os_good os'"
    and "recovery_clock A base' (wall_now c) T1 cl" and "mutation_ok (M_set k v None)"
    and "recovery_clock A base'' (wall_now c) T' cl'"
  shows "\<exists>e1 st1 e2 st2 e3 st3 e4 st4.
    shutdown os os' A c e st = (Inr (), e1, st1) \<and>
    open_database os os' A cfg n c1 t1 cl (wal_file (eng_wal e1)) (eng_dir e1) = Inr (e2, st2) \<and>
    durable_set os A c2 k v e2 st2 = (Inr (), e3, st3) \<and>
    open_database os os' A cfg n c3 t3 cl' (wal_file (eng_wal e3)) (eng_dir e3) = Inr (e4, st4) \<and>
    wlive T' (wall_db A st4) = wlive T' (run_spec A Map.empty h)"
proof -
  obtain h1 h2 b0 es0 where h: "h = h1 @ h2" and inv0: "engine_inv A base T h1 h2 b0 es0 e st"
    using session_inv [OF assms(1,2)] by blast
  then have inv: "engine_inv A base T h1 h2 b0 es0 (stop_fsync_thread e) st" "has_wal e"
    by (simp_all add: engine_inv_next_snapshot) (simp add: engine_inv_def)
  obtain b es e1 st1 where w1: "write_snapshot os os' A c (stop_fsync_thread e) st = (Inr (), e1, st1)"
      and inv1: "engine_inv A base (wall_now c) h [] b es e1 st1"
    using engine_inv_write_snapshot [OF assms(1) inv(1) assms(8,9,4,5)] h by blast
  then have sd: "shutdown os os' A c e st = (Inr (), e1, st1)"
    using inv(2) by (simp add: shutdown_def stop_fsync_thread_def)
  have f1: "wal_file (eng_wal e1) = wal_header" "snapshot_holds A (eng_dir e1) b es" "1 \<le> b"
      "wlive (wall_now c) (entries_db Map.empty es) = wlive (wall_now c) (run_spec A Map.empty h)"
      "unat b < 2 ^ 64"
    using inv1 assms(3) by (auto simp: engine_inv_def log_holds_def word_le_nat_alt Suc_le_eq)
  obtain e2 st2 where o2: "open_database os os' A cfg n c1 t1 cl wal_header (eng_dir e1) = Inr (e2, st2)"
      "has_wal e2" "eng_dir e2 = eng_dir e1" "log_holds 0 [] (eng_wal e2)"
    using open_shadowed [OF assms(1,10,8,9,6,7) f1(2) _ _ _ f1(4,5), of "[]" wal_header c1 t1] by auto
  let ?r = "next_record (eng_wal e2) Op_set (encode_set_payload k v None)"
  obtain w where w: "log_record os Op_set (encode_set_payload k v None) e2 = (Inr (), e2\<lparr>eng_wal := w\<rparr>)"
      "log_holds 0 [?r] w"
    using log_record_good [OF o2(2,4) assms(8), of "encode_set_payload k v None" Op_set] assms(11) o2(4)
    by (auto simp: mutation_ok_def log_holds_def)
  have r: "rec_offset ?r = 1" "chain 0 [?r]" "wal_file w = wal_header @ log_bytes [?r]"
    using o2(4) w(2) by (simp_all add: next_record_def log_holds_def)
  have "\<exists>e4 st4. open_database os os' A cfg n c3 t3 cl' (wal_file w) (eng_dir e1) = Inr (e4, st4) \<and>
      follows A base'' T' st4 (run_spec A Map.empty h)"
    using open_shadowed [OF assms(1,12,8,9,6,7) f1(2) r(2) _ _ f1(4,5), of "wal_file w" c3 t3] r(1,3) f1(3) by auto
  then show ?thesis
    using sd o2(1,3) w(1) f1(1) by (auto simp: durable_set_def follows_def)
qed

theorem restart_loses_write_witness:
  "\<exists>e st e1 st1 e2 st2 e3 st3 e4 st4. session sample_abi 0 1000000 [sample_set] e st \<and>
    shutdown calm calm sample_abi (sample_clock 2) e st = (Inr (), e1, st1) \<and>
    sample_open (wal_file (eng_wal e1)) (eng_dir e1) 3 = Inr (e2, st2) \<and>
    durable_set calm sample_abi (sample_clock 4) ''b'' ''2'' e2 st2 = (Inr (), e3, st3) \<and>
    sample_open (wal_file (eng_wal e3)) (eng_dir e3) 5 = Inr (e4, st4) \<and>
    wlive 5000000 (wall_db sample_abi st4) ''b'' = None"
proof -
  obtain e st where s: "session sample_abi 0 1000000 [sample_set] e st"
    using sample_session by blast
  have clock: "recovery_clock sample_abi 0 (wall_now (sample_clock 2)) (t * 1000000) (\<lambda>_. sample_clock t)"
    if "2 \<le> t" for t
    using that by (intro sample_clock_facts) (simp_all add: sample_clock_facts(2))
  have "wlive 5000000 (run_spec sample_abi Map.empty [sample_set]) ''b'' = None"
    by (simp add: sample_set_def wlive_def)
  then show ?thesis
    using s restart_loses_write [OF sample_platform s _ sample_clock_facts(1) _ _ _ calm_good calm_good
        clock [of 3] sample_set_ok(2) clock [of 5], of 2 sample_config "sample_clock 3" 0 "sample_clock 4"
        "sample_clock 5" 0]
    by (simp add: sample_config_def sample_clock_facts(2)) metis
qed

text \<open>
  C31: A recovery can delete a live key. \<^verbatim>\<open>EXPIRE\<close> is replayed by the clock of the recovery: when
  the last two mutations of a session without a snapshot set the expiry of a key twice, and the
  recovery starts after the first of the two has passed, the key is gone, however far the second
  one lies in the future.
\<close>

theorem lapsed_expiry_loses_key:
  assumes "platform_ok A" and "session A base T (h @ [(u1, M_expire k m1), (u2, M_expire k m2)]) e st"
    and "dump (eng_dir e) = None" and "T \<le> T0" and "from_unix_ms A m1 \<le> T0"
    and "0 < n" and "data_dir_path cfg \<noteq> []" and "os_good os" and "os_good os'"
    and "recovery_clock A base' T0 T' cl"
  shows "\<exists>e1 st1. open_database os os' A cfg n c t cl (wal_file (eng_wal e)) (eng_dir e) = Inr (e1, st1) \<and>
    wlive T' (wall_db A st1) k = None"
proof -
  let ?h = "h @ [(u1, M_expire k m1), (u2, M_expire k m2)]" and ?f = "wal_file (eng_wal e)"
  define h' where "h' = map (\<lambda>x. (T0, snd x)) ?h"
  obtain h1 h2 b es where "?h = h1 @ h2" and inv: "engine_inv A base T h1 h2 b es e st"
    using session_inv [OF assms(1,2)] by blast
  moreover from inv assms(3) have "b = 0" "h1 = []" "es = []"
    by (auto simp: engine_inv_def snapshot_holds_def)
  ultimately have i: "engine_inv A base T [] ?h 0 [] e st" by simp
  have rec: "records_of 0 ?h = records_of 0 h'" by (simp add: h'_def comp_def)
  then have lh: "?f = wal_header @ log_bytes (records_of 0 h')" "chain 0 (records_of 0 h')"
      "list_all (\<lambda>(u, m). u \<le> T0 \<and> mutation_sizes m) h'" "length h' < 2 ^ 64"
    using i by (auto simp: engine_inv_def log_holds_def h'_def list_all_iff)
  obtain w where w: "open_and_recover os (new_wal ?f) = (Inr ([] @ records_of 0 h'), w)"
    using open_log [OF assms(8) lh(2) stops_Nil, of "new_wal ?f"] lh(1) by (auto simp: new_wal_def)
  obtain st0 where st0: "new_store n (Some c) = Inr st0" using assms(6) by (simp add: new_store_def)
  from open_database_steps [OF st0 assms(7,8)] obtain e0 where e0: "has_wal e0" "eng_wal e0 = new_wal ?f"
      "eng_dir e0 = eng_dir e" "open_database os os' A cfg n c t cl ?f (eng_dir e) =
        (case recover_into os os' A cl e0 st0 of (Inl x, _) \<Rightarrow> Inl x | (Inr _, e', st') \<Rightarrow> Inr (e', st'))"
    by blast
  have "snapshot_holds A (eng_dir e0) 0 []" "agrees False T0 (entries_db Map.empty []) Map.empty"
    using assms(3) e0(3) by (simp_all add: snapshot_holds_def agrees_def)
  from recover_replays [OF assms(1,10,8,9) new_store_ok [OF st0] e0(1) this(1) w [folded e0(2)] _ _ _ lh(3) this(2)]
  obtain e1 st1 x db' where r: "recover_into os os' A cl e0 st0 = (Inr (), e1, st1)"
      "follows A base' x st1 db'" "x \<le> T'" "agrees False x db' (run_spec A Map.empty h')"
    using lh(4) by auto
  have "wlive T' (run_spec A Map.empty h') k = None" (is "?db k = None")
  proof -
    have "T0 \<le> T'" using assms(10) by (auto simp: recovery_clock_def intro: order_trans)
    moreover have "wlive T0 (run_spec A Map.empty h') k = None"
      using assms(5) by (auto simp: h'_def run_spec_append wlive_def due_at_def split: option.split)
    ultimately show ?thesis by (metis (no_types, lifting) wlive_wlive wlive_None)
  qed
  moreover have "wlive T' (wall_db A st1) \<subseteq>\<^sub>m ?db"
    using follows_agrees [OF r(2-4)] by (simp add: agrees_def)
  ultimately have "wlive T' (wall_db A st1) k = None" by (metis domIff map_le_def)
  then show ?thesis using r(1) e0(4) by simp
qed

definition sample_expiries :: history where
  "sample_expiries = [sample_set, (2000000, M_expire ''k'' 12000), (3000000, M_expire ''k'' 1003000)]"

lemma sample_expiries_session:
  "\<exists>e st. session sample_abi 0 3000000 sample_expiries e st \<and> dump (eng_dir e) = None"
proof -
  obtain e st where s: "session sample_abi 0 1000000 [sample_set] e st" "eng_dir e = empty_dir"
    using sample_session by blast
  have ms: "expiry_ms sample_abi (sample_clock 2) 10 = 12000"
      "expiry_ms sample_abi (sample_clock 3) 1000 = 1003000"
    by code_simp+
  obtain e1 st1 where s1: "session sample_abi 0 2000000 [sample_set, (2000000, M_expire ''k'' 12000)] e1 st1"
      "eng_dir e1 = empty_dir"
    using session_expire_ex [OF sample_platform s(1) calm_good sample_clock_facts(1) _ sample_clock_facts(1),
        of 2 "''k''" "sample_clock 2" 10 2]
      s(2) sample_set_ok(3) by (auto simp: sample_clock_facts(2) ms)
  show ?thesis
    using session_expire_ex [OF sample_platform s1(1) calm_good sample_clock_facts(1) _ sample_clock_facts(1),
        of 3 "''k''" "sample_clock 3" 1000 3]
      s1(2) sample_set_ok(3)
    by (auto simp: sample_clock_facts(2) ms sample_expiries_def empty_dir_def)
qed

theorem lapsed_expiry_loses_key_witness:
  "\<exists>e st e1 st1. session sample_abi 0 3000000 sample_expiries e st \<and>
    fst (store_get sample_abi (sample_clock 20) ''k'' st) = Some (VString ''v'') \<and>
    sample_open (wal_file (eng_wal e)) (eng_dir e) 20 = Inr (e1, st1) \<and>
    wlive 20000000 (wall_db sample_abi st1) ''k'' = None"
proof -
  obtain e st where s: "session sample_abi 0 3000000 sample_expiries e st" "dump (eng_dir e) = None"
    using sample_expiries_session by blast
  have clock: "recovery_clock sample_abi 0 20000000 20000000 (\<lambda>_. sample_clock 20)"
    by (rule sample_clock_facts) simp_all
  have ms: "from_unix_ms sample_abi 12000 = 12000000" "from_unix_ms sample_abi 1003000 = 1003000000"
    by code_simp+
  have "follows sample_abi 0 3000000 st (run_spec sample_abi Map.empty sample_expiries)"
    using session_inv [OF sample_platform s(1)] by (auto simp: engine_inv_def)
  then have "fst (store_get sample_abi (sample_clock 20) ''k'' st) = Some (VString ''v'')"
    using follows_reads [OF sample_platform _ sample_clock_facts(1), of 3000000 st _ 20 "''k''"]
    by (simp add: sample_clock_facts(2) sample_expiries_def sample_set_def wlive_def due_at_def ms)
  moreover have s': "session sample_abi 0 3000000 ([sample_set] @
      [(2000000, M_expire ''k'' 12000), (3000000, M_expire ''k'' 1003000)]) e st"
    using s(1) by (simp add: sample_expiries_def)
  have "\<exists>e1 st1. sample_open (wal_file (eng_wal e)) (eng_dir e) 20 = Inr (e1, st1) \<and>
      wlive 20000000 (wall_db sample_abi st1) ''k'' = None"
    by (rule lapsed_expiry_loses_key [OF sample_platform s' s(2) _ _ _ _ calm_good calm_good clock])
      (simp_all add: sample_config_def ms)
  ultimately show ?thesis using s(1) by blast
qed

end
