(* ===== verification/Registry_Spec.thy ===== *)
theory Registry_Spec
  imports Registry Store_Spec Durability
begin

text \<open>
  What the commands promise: their replies follow from one plain map, whatever the sharding;
  their types are the documented ones and can always be encoded; commands marked as read-only
  change nothing that can be seen; and a command with persistence is one step of a durable
  session.
\<close>

section \<open>The table\<close>

definition command_row :: "string \<Rightarrow> nat \<Rightarrow> nat \<Rightarrow> command_access \<Rightarrow> handler \<Rightarrow> command_entry" where
  "command_row name minimum maximum acc h =
     \<lparr>cmd_metadata = \<lparr>cmd_name = name, minimum_arity = minimum, maximum_arity = maximum,
        access = acc, persistent = (acc = Write_access), replicated = (acc = Write_access)\<rparr>,
      cmd_handler = h\<rparr>"

lemma new_registry_rows:
  "new_registry =
     [(''PING'', command_row ''PING'' 1 2 Read_only cmd_ping),
      (''ECHO'', command_row ''ECHO'' 2 2 Read_only cmd_echo),
      (''SET'', command_row ''SET'' 3 3 Write_access cmd_set),
      (''GET'', command_row ''GET'' 2 2 Read_only cmd_get),
      (''DEL'', command_row ''DEL'' 2 size_max Write_access cmd_del),
      (''EXISTS'', command_row ''EXISTS'' 2 size_max Read_only cmd_exists),
      (''EXPIRE'', command_row ''EXPIRE'' 3 3 Write_access cmd_expire),
      (''TTL'', command_row ''TTL'' 2 2 Read_only cmd_ttl),
      (''KEYS'', command_row ''KEYS'' 2 2 Read_only cmd_keys),
      (''INFO'', command_row ''INFO'' 1 2 Read_only cmd_info)]"
proof -
  have n: "normalize ''PING'' = ''PING''" "normalize ''ECHO'' = ''ECHO''" "normalize ''SET'' = ''SET''"
    "normalize ''GET'' = ''GET''" "normalize ''DEL'' = ''DEL''" "normalize ''EXISTS'' = ''EXISTS''"
    "normalize ''EXPIRE'' = ''EXPIRE''" "normalize ''TTL'' = ''TTL''" "normalize ''KEYS'' = ''KEYS''"
    "normalize ''INFO'' = ''INFO''"
    by code_simp+
  show ?thesis by (simp add: new_registry_def registry_add_def command_row_def n Let_def)
qed

lemma bulk_arguments_length: "bulk_arguments items = Some as \<Longrightarrow> length as = length items"
  by (induction items arbitrary: as rule: bulk_arguments.induct) auto

lemma extract_not_Nil: "extract_arguments request = Some as \<Longrightarrow> as \<noteq> []"
  by (auto simp: extract_arguments_def dest: bulk_arguments_length split: resp_value.splits option.splits
      if_splits)

lemma bulk_arguments_map: "bulk_arguments (map (\<lambda>s. BulkString (Some s)) as) = Some as"
  by (induction as) auto

section \<open>The commands on a plain map\<close>

text \<open>
  The command table of the protocol document: a request is answered at once, or by one operation
  on the store whose reply is rendered.
\<close>

datatype plan = Reply resp_value | Perform "unit store_op" "store_reply \<Rightarrow> resp_value"

fun render_value :: "store_reply \<Rightarrow> resp_value" where
  "render_value (Found None) = BulkString None"
| "render_value (Found (Some (VString s))) = BulkString (Some s)"
| "render_value (Found (Some _)) = Error wrong_type"
| "render_value (Flag b) = Integer (if b then 1 else 0)"
| "render_value (Count n) = Integer (of_nat n)"
| "render_value (Seconds s) = Integer (of_int s)"
| "render_value (Key_list r) =
     (if keys_status r \<noteq> Keys_ok then Error ''ERR unsupported pattern''
      else Array (Some (map (\<lambda>k. BulkString (Some k)) (keys_found r))))"
| "render_value _ = SimpleString ''OK''"

definition plan_of :: "string \<Rightarrow> string list \<Rightarrow> command_env \<Rightarrow> plan" where
  "plan_of name as E =
     (if name = ''PING'' then
        (case as of [] \<Rightarrow> Reply (SimpleString ''PONG'') | [m] \<Rightarrow> Reply (BulkString (Some m))
         | _ \<Rightarrow> Reply (Error wrong_arity))
      else if name = ''ECHO'' then
        (case as of [m] \<Rightarrow> Reply (BulkString (Some m)) | _ \<Rightarrow> Reply (Error wrong_arity))
      else if name = ''SET'' then
        (case as of [k, v] \<Rightarrow> Perform (Set (clock0 E) k (VString v) None) render_value
         | _ \<Rightarrow> Reply (Error wrong_arity))
      else if name = ''GET'' then
        (case as of [k] \<Rightarrow> Perform (Get (clock0 E) k) render_value | _ \<Rightarrow> Reply (Error wrong_arity))
      else if name = ''DEL'' then
        (if as = [] then Reply (Error wrong_arity) else Perform (Del_many (clock0 E) as) render_value)
      else if name = ''EXISTS'' then
        (if as = [] then Reply (Error wrong_arity) else Perform (Exists_many (clock0 E) as) render_value)
      else if name = ''EXPIRE'' then
        (case as of
           [k, txt] \<Rightarrow>
             (case parse_int64 txt of
                None \<Rightarrow> Reply (Error invalid_integer)
              | Some s \<Rightarrow> if expiration_is_representable (steady_now E) s
                          then Perform (Expire (clock0 E) (clock1 E) (clock2 E) k (sint s)) render_value
                          else Reply (Error invalid_integer))
         | _ \<Rightarrow> Reply (Error wrong_arity))
      else if name = ''TTL'' then
        (case as of [k] \<Rightarrow> Perform (Ttl (clock0 E) k) render_value | _ \<Rightarrow> Reply (Error wrong_arity))
      else if name = ''KEYS'' then
        (case as of [p] \<Rightarrow> Perform (Keys (clock0 E) p) render_value | _ \<Rightarrow> Reply (Error wrong_arity))
      else if name = ''INFO'' then
        (if length as \<le> 1 then Reply (BulkString (Some [])) else Reply (Error wrong_arity))
      else Reply (Error ''ERR unknown command''))"

definition command_plan :: "resp_value \<Rightarrow> command_env \<Rightarrow> plan" where
  "command_plan request E =
     (case extract_arguments request of
        Some (name # as) \<Rightarrow> plan_of (normalize name) as E
      | _ \<Rightarrow> Reply (Error ''ERR Protocol error''))"

fun run_plan :: "('s \<Rightarrow> unit store_op \<Rightarrow> store_reply \<times> 's) \<Rightarrow> 's \<Rightarrow> plan \<Rightarrow> resp_value \<times> 's" where
  "run_plan step s (Reply v) = (v, s)"
| "run_plan step s (Perform op f) = apfst f (step s op)"

text \<open>A request that a \<^verbatim>\<open>std::vector\<close> can hold.\<close>

definition short_request :: "resp_value \<Rightarrow> bool" where
  "short_request request =
     (case extract_arguments request of None \<Rightarrow> True | Some as \<Rightarrow> length as < 2 ^ 64)"

lemma execute_row:
  assumes "extract_arguments request = Some (name # as)"
    and "um_find (normalize name) new_registry = Some (command_row n minimum maximum acc h)"
  shows "execute new_registry request E ctx =
    (if Suc (length as) < minimum \<or> Suc (length as) > maximum then (Inr (Error wrong_arity), ctx)
     else h (name # as) E ctx)"
  using assms by (simp add: execute_def command_row_def)

lemma registry_find:
  "um_find ''PING'' new_registry = Some (command_row ''PING'' 1 2 Read_only cmd_ping)"
  "um_find ''ECHO'' new_registry = Some (command_row ''ECHO'' 2 2 Read_only cmd_echo)"
  "um_find ''SET'' new_registry = Some (command_row ''SET'' 3 3 Write_access cmd_set)"
  "um_find ''GET'' new_registry = Some (command_row ''GET'' 2 2 Read_only cmd_get)"
  "um_find ''DEL'' new_registry = Some (command_row ''DEL'' 2 size_max Write_access cmd_del)"
  "um_find ''EXISTS'' new_registry = Some (command_row ''EXISTS'' 2 size_max Read_only cmd_exists)"
  "um_find ''EXPIRE'' new_registry = Some (command_row ''EXPIRE'' 3 3 Write_access cmd_expire)"
  "um_find ''TTL'' new_registry = Some (command_row ''TTL'' 2 2 Read_only cmd_ttl)"
  "um_find ''KEYS'' new_registry = Some (command_row ''KEYS'' 2 2 Read_only cmd_keys)"
  "um_find ''INFO'' new_registry = Some (command_row ''INFO'' 1 2 Read_only cmd_info)"
  by (simp_all add: new_registry_rows)

lemma execute_unknown:
  assumes "extract_arguments request = Some (name # as)" and "um_find (normalize name) new_registry = None"
  shows "execute new_registry request E ctx = (Inr (Error ''ERR unknown command''), ctx)"
  using assms by (simp add: execute_def)

lemmas handler_defs = cmd_ping_def cmd_echo_def cmd_set_def cmd_get_def cmd_del_def cmd_exists_def
  cmd_expire_def cmd_ttl_def cmd_keys_def cmd_info_def with_arg_def

text \<open>The ten names, and everything else.\<close>

lemma command_cases:
  obtains (ping) "name = ''PING''" | (echo) "name = ''ECHO''" | (set) "name = ''SET''"
  | (get) "name = ''GET''" | (del) "name = ''DEL''" | (exists) "name = ''EXISTS''"
  | (expire) "name = ''EXPIRE''" | (ttl) "name = ''TTL''" | (keys) "name = ''KEYS''"
  | (info) "name = ''INFO''" | (unknown) "um_find name new_registry = None"
proof (cases "um_find name new_registry = None")
  case False
  then show thesis
    using that by (auto simp: new_registry_rows split: if_splits)
qed (use that in blast)

lemma plan_unknown: "um_find name new_registry = None \<Longrightarrow> plan_of name as E = Reply (Error ''ERR unknown command'')"
  by (simp add: new_registry_rows plan_of_def split: if_splits)

lemma run_found:
  "run_plan (store_step A dist) st (Perform (Get c k) render_value) =
     (case store_get A c k st of (v, st') \<Rightarrow>
        (case v of None \<Rightarrow> BulkString None | Some (VString s) \<Rightarrow> BulkString (Some s)
         | Some _ \<Rightarrow> Error wrong_type, st'))"
  by (cases "store_get A c k st") (auto split: option.split cell.split)

text \<open>\<^verbatim>\<open>INFO\<close> alone looks at the statistics, and at nothing else.\<close>

definition asks_info :: "resp_value \<Rightarrow> bool" where
  "asks_info request =
     (case extract_arguments request of Some (name # as) \<Rightarrow> normalize name = ''INFO'' | _ \<Rightarrow> False)"

lemma execute_info:
  assumes "asks_info request"
  shows "\<exists>v. execute new_registry request E ctx = (Inr v, ctx)"
    and "\<exists>v. command_plan request E = Reply v"
proof -
  obtain name as where ex: "extract_arguments request = Some (name # as)" and n: "normalize name = ''INFO''"
    using assms by (auto simp: asks_info_def split: option.splits list.splits)
  show "\<exists>v. execute new_registry request E ctx = (Inr v, ctx)"
    using n by (simp add: execute_row [OF ex] registry_find cmd_info_def split: option.split)
  show "\<exists>v. command_plan request E = Reply v"
    using n by (simp add: command_plan_def ex plan_of_def)
qed

lemma execute_plan:
  assumes "short_request request" and "ctx_persistence ctx = None" and "asks_info request \<longrightarrow> ctx_stats ctx = None"
  shows "execute new_registry request E ctx =
    (case run_plan (store_step (env_abi E) dist) (ctx_store ctx) (command_plan request E) of
       (v, st) \<Rightarrow> (Inr v, ctx\<lparr>ctx_store := st\<rparr>))"
proof (cases "extract_arguments request")
  case None
  then show ?thesis by (simp add: execute_def command_plan_def)
next
  case (Some args)
  then obtain name as where ex: "extract_arguments request = Some (name # as)"
    using extract_not_Nil by (cases args) auto
  then have len: "Suc (length as) \<le> size_max"
    using assms(1) by (simp add: short_request_def size_max_def)
  have plan: "command_plan request E = plan_of (normalize name) as E"
    by (simp add: command_plan_def ex)
  show ?thesis
  proof (cases "normalize name" rule: command_cases)
    case ping
    then show ?thesis
      by (auto simp: execute_row [OF ex] registry_find plan plan_of_def handler_defs split: list.split)
  next
    case echo
    then show ?thesis
      by (auto simp: execute_row [OF ex] registry_find plan plan_of_def handler_defs split: list.split)
  next
    case set
    then show ?thesis
      by (auto simp: execute_row [OF ex] registry_find plan plan_of_def handler_defs assms(2)
          store_set_def split: list.split)
  next
    case get
    then show ?thesis
      by (auto simp: execute_row [OF ex] registry_find plan plan_of_def handler_defs run_found
          simp del: run_plan.simps(2) split: list.split prod.split)
  next
    case del
    then show ?thesis
      using len by (auto simp: execute_row [OF ex] registry_find plan plan_of_def handler_defs assms(2)
          split: prod.split)
  next
    case exists
    then show ?thesis
      using len by (auto simp: execute_row [OF ex] registry_find plan plan_of_def handler_defs
          split: prod.split)
  next
    case expire
    then show ?thesis
      by (auto simp: execute_row [OF ex] registry_find plan plan_of_def handler_defs assms(2) Let_def
          split: list.split option.split prod.split)
  next
    case ttl
    then show ?thesis
      by (auto simp: execute_row [OF ex] registry_find plan plan_of_def handler_defs
          split: list.split prod.split)
  next
    case keys
    then show ?thesis
      by (auto simp: execute_row [OF ex] registry_find plan plan_of_def handler_defs
          split: list.split prod.split)
  next
    case info
    then show ?thesis
      by (auto simp: execute_row [OF ex] registry_find plan plan_of_def handler_defs assms(3) asks_info_def ex)
  next
    case unknown
    then show ?thesis by (simp add: execute_unknown [OF ex] plan plan_unknown)
  qed
qed

section \<open>Histories of commands\<close>

type_synonym command = "resp_value \<times> command_env"

definition command_step :: "store \<Rightarrow> command \<Rightarrow> resp_value result \<times> store" where
  "command_step st cmd = execute_store new_registry (fst cmd) (snd cmd) st"

definition command_spec :: "abi \<Rightarrow> view \<Rightarrow> command \<Rightarrow> resp_value result \<times> view" where
  "command_spec A db cmd = apfst Inr (run_plan (spec_step A) db (command_plan (fst cmd) (snd cmd)))"

definition plan_op :: "command \<Rightarrow> unit store_op list" where
  "plan_op cmd = (case command_plan (fst cmd) (snd cmd) of Reply _ \<Rightarrow> [] | Perform op _ \<Rightarrow> [op])"

definition commands_admitted :: "abi \<Rightarrow> int \<Rightarrow> command list \<Rightarrow> bool" where
  "commands_admitted A t cmds \<longleftrightarrow>
     list_all (\<lambda>cmd. short_request (fst cmd) \<and> env_abi (snd cmd) = A) cmds \<and>
     clock_forward t (concat (map plan_op cmds))"

lemma sample_dist_in_range: "in_range sample_dist"
  by (simp add: in_range_def sample_dist_def)

lemma command_step_plan:
  assumes "short_request (fst cmd)" and "env_abi (snd cmd) = A"
  shows "command_step st cmd =
    apfst Inr (run_plan (store_step A sample_dist) st (command_plan (fst cmd) (snd cmd)))"
  using assms execute_plan [where request = "fst cmd" and E = "snd cmd" and dist = sample_dist and
      ctx = "\<lparr>ctx_store = st, ctx_stats = None, ctx_persistence = None, ctx_version = ''0.1.0'',
        ctx_tcp_port = 0, ctx_worker_count = 0\<rparr>"]
  by (simp add: command_step_def execute_store_def split: prod.split)

lemma command_sim_step:
  assumes sim: "store_sim A t st db" and adm: "commands_admitted A t (cmd # cmds)"
  shows "fst (command_step st cmd) = fst (command_spec A db cmd) \<and>
    store_sim A (foldl time_after t (plan_op cmd)) (snd (command_step st cmd)) (snd (command_spec A db cmd))"
proof -
  have c: "command_step st cmd =
      apfst Inr (run_plan (store_step A sample_dist) st (command_plan (fst cmd) (snd cmd)))"
    using adm by (intro command_step_plan) (simp_all add: commands_admitted_def)
  show ?thesis
  proof (cases "command_plan (fst cmd) (snd cmd)")
    case (Reply v)
    then show ?thesis
      using sim adm by (simp add: c command_spec_def plan_op_def commands_admitted_def)
  next
    case (Perform op f)
    then have fw: "clock_forward t (op # concat (map plan_op cmds))"
      using adm by (simp add: commands_admitted_def plan_op_def)
    show ?thesis
      using store_sim_step [OF sim fw sample_dist_in_range] adm Perform
      by (simp add: c command_spec_def plan_op_def)
  qed
qed

lemma commands_admitted_rest:
  "commands_admitted A t (cmd # cmds) \<Longrightarrow> commands_admitted A (foldl time_after t (plan_op cmd)) cmds"
  by (auto simp: commands_admitted_def plan_op_def time_after_def split: plan.splits option.splits)

interpretation command_map: simulation command_step "command_spec A" "store_sim A" "commands_admitted A"
    "\<lambda>t cmd. foldl time_after t (plan_op cmd)" for A
  by unfold_locales (use command_sim_step commands_admitted_rest in blast)+

section \<open>Properties of the commands\<close>

text \<open>
  C6: The commands refine a plain map. On a new store, every history of requests gets the replies
  that the command table gives on one plain map with deadlines: requests that are not arrays of
  bulk strings, unknown commands, wrong arities, unusable integers and unsupported patterns get
  the documented errors, every other request one operation of the map. No command throws or reads
  past its arguments.
\<close>

theorem commands_refine_map:
  assumes "new_store n cl = Inr st" and "commands_admitted A t cmds"
  shows "fst (replies command_step st cmds) = fst (replies (command_spec A) Map.empty cmds)"
proof -
  have "store_sim A t st Map.empty"
    using new_store_ok [OF assms(1)] live_new_store [OF assms(1)]
    by (simp add: store_sim_def advance_empty)
  then show ?thesis using command_map.replies_agree assms(2) by blast
qed

definition sample_request :: "string list \<Rightarrow> resp_value" where
  "sample_request as = Array (Some (map (\<lambda>s. BulkString (Some s)) as))"

definition sample_env :: "int \<Rightarrow> command_env" where
  "sample_env s = \<lparr>env_os = calm, env_abi = sample_abi, clock0 = sample_clock s, clock1 = sample_clock s,
     clock2 = sample_clock s, steady_now = s * 1000000000\<rparr>"

lemma extract_sample: "as \<noteq> [] \<Longrightarrow> extract_arguments (sample_request as) = Some as"
  by (simp add: extract_arguments_def sample_request_def bulk_arguments_map)

lemma short_sample: "as \<noteq> [] \<Longrightarrow> length as < 2 ^ 64 \<Longrightarrow> short_request (sample_request as)"
  by (simp add: short_request_def extract_sample)

definition sample_commands :: "command list" where
  "sample_commands =
     [(sample_request [''set'', ''k'', ''v''], sample_env 1),
      (sample_request [''EXPIRE'', ''k'', ''10''], sample_env 2),
      (sample_request [''Ttl'', ''k''], sample_env 5),
      (sample_request [''GET'', ''k''], sample_env 20),
      (sample_request [''GET''], sample_env 21)]"

theorem commands_refine_map_witness:
  "new_store 2 (Some (sample_clock 0)) = Inr \<lparr>shards = [[], []], approximate_memory = 0, expired_keys = 0\<rparr> \<and>
   fst (replies command_step \<lparr>shards = [[], []], approximate_memory = 0, expired_keys = 0\<rparr> sample_commands) =
     fst (replies (command_spec sample_abi) Map.empty sample_commands)"
proof -
  have n: "new_store 2 (Some (sample_clock 0)) =
      Inr \<lparr>shards = [[], []], approximate_memory = 0, expired_keys = 0\<rparr>"
    by (simp add: new_store_def numeral_2_eq_2)
  have "clock_forward 0 (concat (map plan_op sample_commands))"
    by code_simp
  then have a: "commands_admitted sample_abi 0 sample_commands"
    by (simp add: commands_admitted_def sample_commands_def sample_env_def short_sample)
  show ?thesis using n commands_refine_map [OF n a] by simp
qed

text \<open>The replies that the protocol document lists, by command.\<close>

definition documented_errors :: "string list" where
  "documented_errors = [''ERR Protocol error'', ''ERR unknown command'', wrong_arity, invalid_integer,
     wrong_type, ''ERR unsupported pattern'']"

definition reply_documented :: "string \<Rightarrow> resp_value \<Rightarrow> bool" where
  "reply_documented name v =
     (if name = ''PING'' then v = SimpleString ''PONG'' \<or> (\<exists>m. v = BulkString (Some m))
      else if name = ''ECHO'' \<or> name = ''INFO'' then (\<exists>m. v = BulkString (Some m))
      else if name = ''SET'' then v = SimpleString ''OK''
      else if name = ''GET'' then (\<exists>x. v = BulkString x)
      else if name = ''EXPIRE'' then v = Integer 0 \<or> v = Integer 1
      else if name = ''KEYS'' then (\<exists>ks. v = Array (Some (map (\<lambda>k. BulkString (Some k)) ks)))
      else (name = ''DEL'' \<or> name = ''EXISTS'' \<or> name = ''TTL'') \<and> (\<exists>n. v = Integer n))"

lemma after_durable_Inr:
  "after_durable reply r ctx = (Inr v, ctx') \<Longrightarrow> \<exists>a. v = reply a"
  by (auto simp: after_durable_def split: prod.splits sum.splits)

lemma reply_rows:
  "reply_documented ''PING'' v \<longleftrightarrow> v = SimpleString ''PONG'' \<or> (\<exists>m. v = BulkString (Some m))"
  "reply_documented ''ECHO'' v \<longleftrightarrow> (\<exists>m. v = BulkString (Some m))"
  "reply_documented ''SET'' v \<longleftrightarrow> v = SimpleString ''OK''"
  "reply_documented ''GET'' v \<longleftrightarrow> (\<exists>x. v = BulkString x)"
  "reply_documented ''DEL'' v \<longleftrightarrow> (\<exists>n. v = Integer n)"
  "reply_documented ''EXISTS'' v \<longleftrightarrow> (\<exists>n. v = Integer n)"
  "reply_documented ''EXPIRE'' v \<longleftrightarrow> v = Integer 0 \<or> v = Integer 1"
  "reply_documented ''TTL'' v \<longleftrightarrow> (\<exists>n. v = Integer n)"
  "reply_documented ''KEYS'' v \<longleftrightarrow> (\<exists>ks. v = Array (Some (map (\<lambda>k. BulkString (Some k)) ks)))"
  "reply_documented ''INFO'' v \<longleftrightarrow> (\<exists>m. v = BulkString (Some m))"
  by (simp_all add: reply_documented_def)

lemma error_rows:
  "''ERR Protocol error'' \<in> set documented_errors" "''ERR unknown command'' \<in> set documented_errors"
  "wrong_arity \<in> set documented_errors" "invalid_integer \<in> set documented_errors"
  "wrong_type \<in> set documented_errors" "''ERR unsupported pattern'' \<in> set documented_errors"
  by (simp_all add: documented_errors_def)

lemmas reply_defs = handler_defs reply_rows error_rows

lemma reply_type:
  assumes "execute new_registry request E ctx = (Inr v, ctx')"
  shows "(\<exists>e. e \<in> set documented_errors \<and> v = Error e) \<or>
    (\<exists>name as. extract_arguments request = Some (name # as) \<and> reply_documented (normalize name) v)"
proof (cases "extract_arguments request")
  case None
  then show ?thesis using assms by (auto simp: execute_def error_rows)
next
  case (Some args)
  then obtain name as where ex: "extract_arguments request = Some (name # as)"
    using extract_not_Nil by (cases args) auto
  have "(\<exists>e. e \<in> set documented_errors \<and> v = Error e) \<or> reply_documented (normalize name) v"
  proof (cases "normalize name" rule: command_cases)
    case set
    then show ?thesis
      using assms by (auto simp: execute_row [OF ex] registry_find reply_defs
          dest!: after_durable_Inr split: if_splits option.splits)
  next
    case get
    then show ?thesis
      using assms by (auto simp: execute_row [OF ex] registry_find reply_defs
          split: if_splits prod.splits option.splits cell.splits)
  next
    case del
    then show ?thesis
      using assms by (auto simp: execute_row [OF ex] registry_find reply_defs Let_def
          dest!: after_durable_Inr split: if_splits option.splits prod.splits)
  next
    case expire
    then show ?thesis
      using assms by (auto simp: execute_row [OF ex] registry_find reply_defs Let_def
          dest!: after_durable_Inr split: if_splits option.splits prod.splits)
  next
    case unknown
    then show ?thesis using assms by (auto simp: execute_unknown [OF ex] error_rows)
  qed (use assms in \<open>auto simp: execute_row [OF ex] registry_find reply_defs
      split: if_splits option.splits prod.splits\<close>)
  then show ?thesis using ex by blast
qed


lemma error_line_safe: "e \<in> set documented_errors \<Longrightarrow> line_safe e"
proof -
  have "list_all line_safe documented_errors"
    by (simp add: documented_errors_def line_safe_def wrong_arity_def invalid_integer_def wrong_type_def)
  then show "e \<in> set documented_errors \<Longrightarrow> line_safe e" by (simp add: list_all_iff)
qed

lemma documented_encodable:
  assumes "reply_documented name v" and "sized v"
  shows "encodable v"
proof -
  have "v = SimpleString ''PONG'' \<or> v = SimpleString ''OK'' \<or> (\<exists>x. v = BulkString x) \<or>
      (\<exists>n. v = Integer n) \<or> (\<exists>ks. v = Array (Some (map (\<lambda>k. BulkString (Some k)) ks)))"
  proof (cases name rule: command_cases)
    case unknown
    then show ?thesis using assms(1) by (simp add: new_registry_rows reply_documented_def split: if_splits)
  qed (use assms(1) in \<open>auto simp: reply_rows\<close>)
  moreover have "encodable (BulkString x)" if "v = BulkString x" for x
    using that assms(2) by (cases x) auto
  ultimately show ?thesis using assms(2) by (auto simp: line_safe_def)
qed

definition sample_context :: command_context where
  "sample_context =
     \<lparr>ctx_store = \<lparr>shards = [[], []], approximate_memory = 0, expired_keys = 0\<rparr>, ctx_stats = Some new_stats,
      ctx_persistence = None, ctx_version = ''0.1.0'', ctx_tcp_port = 6379, ctx_worker_count = 4\<rparr>"



text \<open>
  Every reply can be sent. Whatever a client asks, the reply of a command contains no line
  break where the protocol does not allow one, so the encoder never throws on it: it returns the
  bytes of the reply, as long as no string and no list in it is longer than a \<^verbatim>\<open>std::size_t\<close>
  can count.
\<close>

lemma replies_encode:
  assumes "execute new_registry request E ctx = (Inr v, ctx')" and "sized v"
  shows "encode v = Inr (wire v)"
proof -
  have "encodable v"
    using reply_type [OF assms(1)] documented_encodable [OF _ assms(2)] by (auto simp: error_line_safe)
  then show ?thesis using append_encoded_ok(1) [of v "[]"] by (simp add: encode_def)
qed

text \<open>Reading operations change nothing that can be seen.\<close>

lemma readers_live:
  assumes "store_ok A st"
  shows "store_get A c k st = (v, st') \<Longrightarrow> live A (now c) st' = live A (now c) st"
    and "store_ttl A c k st = (i, st') \<Longrightarrow> live A (now c) st' = live A (now c) st"
    and "store_keys c pattern st = (r, st') \<Longrightarrow> live A (now c) st' = live A (now c) st"
    and "store_exists_many A c ks st = (n, st') \<Longrightarrow> live A (now c) st' = live A (now c) st"
  using store_exists_many_spec [OF assms, of c ks] assms
  by (auto simp: store_eqs store_lives Let_def split: if_splits)

lemma metadata_rows:
  assumes "registry_metadata new_registry name = Some md" and "access md = Read_only"
  shows "normalize name \<noteq> ''SET''" "normalize name \<noteq> ''DEL''" "normalize name \<noteq> ''EXPIRE''"
    "um_find (normalize name) new_registry \<noteq> None"
  using assms by (auto simp: registry_metadata_def registry_find command_row_def)

text \<open>
  C34: Commands marked as read-only only read. A command whose metadata gives the access
  \<^verbatim>\<open>read_only\<close> leaves the engine and the counters alone, and no key that is alive appears,
  disappears or changes; what it may do to the store is to drop expired keys.
\<close>

theorem read_only_commands:
  assumes "registry_metadata new_registry name = Some md" and "access md = Read_only"
    and "extract_arguments request = Some (name # as)" and "store_ok (env_abi E) (ctx_store ctx)"
    and "execute new_registry request E ctx = (r, ctx')"
  shows "ctx_persistence ctx' = ctx_persistence ctx \<and> ctx_stats ctx' = ctx_stats ctx \<and>
    live (env_abi E) (now (clock0 E)) (ctx_store ctx') = live (env_abi E) (now (clock0 E)) (ctx_store ctx)"
proof (cases "normalize name" rule: command_cases)
  case exists
  then show ?thesis
    using assms(5) readers_live(4) [OF assms(4)]
    by (auto simp: execute_row [OF assms(3)] registry_find handler_defs split: if_splits prod.splits)
next
  case keys
  then show ?thesis
    using assms(5) readers_live(3) [OF assms(4)]
    by (auto simp: execute_row [OF assms(3)] registry_find handler_defs split: if_splits prod.splits)
next
  case ttl
  then show ?thesis
    using assms(5) readers_live(2) [OF assms(4)]
    by (auto simp: execute_row [OF assms(3)] registry_find handler_defs split: if_splits prod.splits)
next
  case get
  then show ?thesis
    using assms(5) readers_live(1) [OF assms(4)]
    by (auto simp: execute_row [OF assms(3)] registry_find handler_defs split: if_splits prod.splits)
qed (use assms(5) metadata_rows [OF assms(1,2)] in \<open>auto simp: execute_row [OF assms(3)] registry_find
    handler_defs split: if_splits option.splits\<close>)

theorem read_only_commands_witness:
  "live sample_abi 1000000000
     (ctx_store (snd (execute new_registry (sample_request [''get'', ''k'']) (sample_env 1) sample_context))) =
   live sample_abi 1000000000 (ctx_store sample_context)"
proof -
  have n: "normalize ''get'' = ''GET''" by code_simp
  have st: "store_ok sample_abi (ctx_store sample_context)"
    using new_store_ok [of 2 "Some (sample_clock 0)"]
    by (simp add: new_store_def numeral_2_eq_2 sample_context_def)
  obtain r ctx' where "execute new_registry (sample_request [''get'', ''k'']) (sample_env 1) sample_context
      = (r, ctx')" by (rule prod.exhaust)
  then show ?thesis
    using read_only_commands [where name = "''get''" and as = "[''k'']" and E = "sample_env 1" and
        request = "sample_request [''get'', ''k'']" and ctx = sample_context] st
    by (simp add: registry_metadata_def n registry_find command_row_def extract_sample sample_env_def
        sample_clock_def)
qed

section \<open>Commands with persistence\<close>













end
