(* ===== verification/Server_Sample.thy ===== *)
theory Server_Sample
  imports Server_Loop Registry_Spec
begin

text \<open>
  A run of the server on concrete input: one client connects and sends \<^verbatim>\<open>SET k v\<close>, a worker executes
  the command, and the reply is sent. The run is evaluated by the simplifier from the definitions
  of the server, and serves as the instance at which the properties of the server are applied.
\<close>

section \<open>The surroundings\<close>

definition sample_socket :: "int \<Rightarrow> recv_outcome list \<Rightarrow> net_socket" where
  "sample_socket d arrivals =
     \<lparr>descriptor = d, nonblocking = False, shut_down = False, inbox = arrivals, outbox = [],
      received = [], sent = []\<rparr>"

definition sample_resolver :: resolver where
  "sample_resolver node service passive =
     Inr [\<lparr>addr_socket = Some (sample_socket 3 []), addr_nosigpipe = True, addr_connect = [],
       addr_reuse = True, addr_bind = True, addr_listen = True\<rparr>]"

definition sample_server_config :: "bool \<Rightarrow> server_config" where
  "sample_server_config persistence =
     default_config\<lparr>cfg_shards := 2, active_expiry_hz := 0, persistence_enabled := persistence,
       cfg_data_dir := ''data'', cfg_fsync := Fsync_always, cfg_snapshot_interval := 0\<rparr>"

definition sample_bytes :: string where
  "sample_bytes = wire (sample_request [''SET'', ''k'', ''v''])"

definition sample_setup_for :: "recv_outcome list \<Rightarrow> server_setup" where
  "sample_setup_for arrivals =
     \<lparr>setup_resolver = sample_resolver, setup_fds = [], setup_sockname = Inet 24 235, setup_hardware = 1,
      setup_os = calm, setup_os' = calm, setup_abi = sample_abi, setup_clock = sample_clock 0,
      setup_steady = 0, setup_clocks = (\<lambda>_. sample_clock 0), setup_wal = [], setup_dir = empty_dir,
      setup_accepts = [Accepted (sample_socket 7 arrivals) True],
      setup_schedule = replicate 7 [] @ [[Wake 0, Work 0, Work 0]]\<rparr>"

abbreviation sample_setup :: server_setup where
  "sample_setup \<equiv> sample_setup_for [Recv_bytes sample_bytes]"

definition sample_server_env :: server_env where
  "sample_server_env =
     \<lparr>version_text = ''0.1.0'', command_at = (\<lambda>n. sample_env (int n)), steady_at = int,
      os_at = (\<lambda>_. calm), draw = (\<lambda>hi g. (0, g))\<rparr>"

text \<open>The listener is ready.\<close>

definition sample_wait :: kevent_wait where
  "sample_wait t n =
     [Fired [\<lparr>kev_ident = 3, kev_filter = Evfilt_read, kev_error = False, kev_eof = False\<rparr>]]"

section \<open>The constructor\<close>

definition sample_server ::
    "recv_outcome list \<Rightarrow> bool \<Rightarrow> engine option \<Rightarrow> store \<Rightarrow> server" where
  "sample_server arrivals persistence e st =
     \<lparr>srv_config = sample_server_config persistence,
      srv_listener = (sample_socket 3 [])\<lparr>nonblocking := True\<rparr>, srv_bound_port = 6379,
      srv_reactor = \<lparr>registered = [(3, interest_read)], kernel = [(3, Evfilt_read), (1, Evfilt_user)]\<rparr>,
      srv_store = st, srv_stats = new_stats, srv_persistence = e,
      srv_workers = \<lparr>max_queue_size = 4096, jobs = [], pool_workers = [Waiting], pool_stopping = False\<rparr>,
      connections = [], completions = [], srv_stopping = False, next_connection_id = 1,
      next_expiry_tick = 0, srv_accepts = setup_accepts (sample_setup_for arrivals), srv_generator = 0,
      srv_schedule = setup_schedule (sample_setup_for arrivals), srv_tick = 0, srv_history = []\<rparr>"

lemma interest_facts [simp]:
  "interest_read \<noteq> interest_none" "interest_none OR interest_read = interest_read"
  by (simp_all add: interest_read_def interest_none_def)

lemmas reactor_eval = reactor_add_def reactor_modify_def reactor_apply_def ensure_def
  registered_interest_def wakeup_ident_def

lemmas socket_eval = address_info_def create_descriptor_def configure_no_sigpipe_def local_port_def
  set_nonblocking_def native_handle_def ntohs_def open_socket_def sample_socket_def fresh_fd_def
  try_receive_def try_send_def ssize_max_def

lemmas config_eval = sample_server_config_def default_config_def

lemma sample_new_server:
  assumes "open_storage (sample_setup_for arrivals) (sample_server_config persistence) = Inr (e, st)"
  shows "new_server (sample_setup_for arrivals) (sample_server_config persistence) =
    Inr (sample_server arrivals persistence e st)"
proof -
  let ?u = "sample_setup_for arrivals" and ?cfg = "sample_server_config persistence"
  have "fst (socket_listen (setup_resolver ?u) (cfg_host ?cfg) (cfg_port ?cfg) (cfg_backlog ?cfg) (setup_fds ?u)) =
      Inr (sample_socket 3 [])"
    by (simp add: sample_setup_for_def socket_listen_def sample_resolver_def config_eval socket_eval Let_def)
  moreover have "local_port calm (setup_sockname ?u) = Inr 6379"
    by (simp add: sample_setup_for_def socket_eval)
  ultimately show ?thesis
    using assms
    by (simp add: new_server_def sample_server_def create_reactor_def new_thread_pool_def
        default_worker_count_def new_store_def set_nonblocking_def native_handle_def reactor_eval Let_def)
      (simp add: sample_setup_for_def config_eval sample_socket_def)
qed

section \<open>The run\<close>

lemma sample_bytes_parse:
  "parse_value sample_bytes 0 default_limits = value_complete (sample_request [''SET'', ''k'', ''v'']) 27"
  "length sample_bytes = 27" "sample_bytes \<noteq> []" "parse_value [] 0 default_limits = value_incomplete"
  "max_buffer_size default_limits = 16777216" "is_command_request (sample_request [''SET'', ''k'', ''v''])"
proof -
  show l: "length sample_bytes = 27" by (simp add: sample_bytes_def sample_request_def show_eval)
  then show "sample_bytes \<noteq> []" by auto
  show "parse_value sample_bytes 0 default_limits = value_complete (sample_request [''SET'', ''k'', ''v'']) 27"
    using parse_value_wire [of default_limits 0 "sample_request [''SET'', ''k'', ''v'']" "[]"] l
    by (simp add: sample_bytes_def sample_request_def default_limits_def)
qed (simp_all add: parse_value.simps default_limits_def is_command_request_def sample_request_def)

lemma sample_reply: "encode (SimpleString ''OK'') = Inr (''+OK'' @ crlf)"
  by (simp add: encode_def append_line_def)

lemma release_one:
  assumes "pending_responses c = [(next_response_seq c, payload)]" and "conn_output c = []"
    and "length payload \<le> limit"
  shows "release_responses limit c =
    c\<lparr>conn_output := payload, pending_responses := [], next_response_seq := next_response_seq c + 1\<rparr>"
  using assms by (simp add: release_responses.simps)

lemma no_snapshot:
  assumes "case e of None \<Rightarrow> True | Some en \<Rightarrow> snapshot_interval_seconds (config en) \<le> 0"
    and "srv_persistence s = e"
  shows "snapshot_if_due E s = (Inr (), s\<lparr>srv_tick := srv_tick s + 3\<rparr>)"
  using assms
  by (cases e) (auto simp: snapshot_if_due_def bindS_def askS_def maybe_snapshot_def numeral_3_eq_3)

lemmas monad_eval = bindS_def thenS_def getS_def returnS_def askS_def modifyS_def throwS_def
  uncaughtS_def with_connection_def on_connection_def on_stats_def on_reactor_def put_connection_def when_connected_def

lemmas loop_eval = run_round_def wait_timeout_def after_wait_def serve_events_def interleave_def
  close_idle_connections_def run_active_expiry_def reactor_wait_def collect_event_def fire_def

lemmas accept_eval = accept_ready.simps accept_round_def accept_call_def admit_connection_def
  register_connection_def new_connection_def

lemmas read_eval = read_connection_def read_loop.simps read_round_def receive_round_def handle_bytes_def
  queue_parsed_commands.simps parse_round_def handle_parsed_def enqueue_command_def queue_command_def
  launch_strand_def submit_job_def queue_saturated_def queued_jobs_def try_submit_def
  new_parser_def parser_feed_def parser_next_def

lemmas work_eval = worker_wake_def set_worker_def publish_def execute_job_def job_context_def
  response_is_error_def

lemmas write_eval = drain_completions.simps drain_round_def apply_completion_def accept_response_def
  find_connection_def um_emplace_def release_one flush_output_def write_connection.simps write_round_def
  handle_sent_def continue_strand_def close_or_update_def update_interest_def resume_reading_def
  set_interest_def compute_interest_def

text \<open>The whole round, for any store and engine on which the command succeeds.\<close>

lemma sample_run:
  assumes "\<And>ctx. ctx_store ctx = st \<Longrightarrow> ctx_persistence ctx = e \<Longrightarrow>
      execute new_registry (sample_request [''SET'', ''k'', ''v'']) (sample_env 4) ctx =
        (Inr (SimpleString ''OK''), ctx\<lparr>ctx_store := st', ctx_persistence := e'\<rparr>)"
    and "case e' of None \<Rightarrow> True | Some en \<Rightarrow> snapshot_interval_seconds (config en) \<le> 0"
  shows "\<exists>s c. run_loop sample_server_env [sample_wait] (sample_server [Recv_bytes sample_bytes] b e st) = (None, s) \<and>
    srv_persistence s = e' \<and> srv_store s = st' \<and> um_find 7 (connections s) = Some c \<and> \<not> closing c \<and>
    conn_id c = 1 \<and> received (conn_socket c) = sample_bytes \<and> sent (conn_socket c) = ''+OK'' @ crlf \<and>
    conn_output c = [] \<and> inflight c = 0 \<and> srv_tick s \<le> 20 \<and>
    srv_history s = [\<lparr>ex_conn = 1, ex_request = sample_request [''SET'', ''k'', ''v''], ex_env = sample_env 4,
      ex_payload = ''+OK'' @ crlf\<rparr>]"
proof -
  have r: "replicate 7 x = [x, x, x, x, x, x, x]" for x :: "thread_step list"
    by (simp add: eval_nat_numeral)
  show ?thesis
    using assms(2)
    by (simp add: sample_server_def sample_setup_for_def r sample_wait_def sample_server_env_def config_eval
        monad_eval loop_eval accept_eval read_eval work_eval write_eval socket_eval reactor_eval Let_def
        sample_bytes_parse sample_reply assms(1) no_snapshot [OF assms(2)])
qed

section \<open>Three corner cases\<close>

lemma sample_executes:
  assumes "ctx_persistence ctx = None"
  shows "execute new_registry (sample_request [''SET'', ''k'', ''v'']) (sample_env t) ctx =
    (Inr (SimpleString ''OK''),
     ctx\<lparr>ctx_store := store_set sample_abi (sample_clock t) ''k'' (VString ''v'') (ctx_store ctx)\<rparr>)"
proof -
  have n: "normalize ''SET'' = ''SET''" by code_simp
  show ?thesis
    using assms by (simp add: execute_row [OF extract_sample] n registry_find handler_defs sample_env_def)
qed

lemma sample_schedule: "replicate 7 x = [x, x, x, x, x, x, x]" for x :: "thread_step list"
  by (simp add: eval_nat_numeral)

lemmas sample_eval = sample_server_def sample_setup_for_def sample_schedule sample_wait_def sample_server_env_def
  config_eval monad_eval loop_eval accept_eval read_eval work_eval write_eval socket_eval reactor_eval
  sample_bytes_parse sample_reply sample_executes

text \<open>A connection whose \<^verbatim>\<open>recv\<close> fails, as after a reset by the peer, ends the event loop.\<close>

lemma reset_ends_server:
  "fst (run_loop sample_server_env [sample_wait] (sample_server [Recv_failed] False None st)) =
     Some (Inl (Thrown (System_error ''recv'')))"
  by (simp add: sample_eval Let_def)

text \<open>
  A client that sends a command and ends its side before the reply: the reply is sent, but the
  connection is never marked as closing, and so stays.
\<close>

lemma half_closed_stays:
  "\<exists>s c. run_loop sample_server_env [sample_wait]
      (sample_server [Recv_bytes sample_bytes, Recv_bytes []] False None st) = (None, s) \<and>
    um_find 7 (connections s) = Some c \<and> sent (conn_socket c) = ''+OK'' @ crlf \<and> conn_output c = [] \<and>
    inflight c = 0 \<and> read_closed c \<and> \<not> closing c"
  by (simp add: sample_eval end_input_def buffered_bytes_def snapshot_if_due_def Let_def)

text \<open>
  A command followed by something that is no command: while the command is with the workers, the
  protocol error is already in the output buffer, in front of the reply to the command.
\<close>

lemma error_overtakes_reply:
  "\<exists>s c. run_loop sample_server_env [sample_wait]
      ((sample_server [Recv_bytes (sample_bytes @ ''!'')] False None st)\<lparr>srv_schedule := []\<rparr>) = (None, s) \<and>
    um_find 7 (connections s) = Some c \<and> conn_output c = protocol_error \<and> inflight c = 1 \<and>
    jobs (srv_workers s) = [Execute 1 0 (sample_request [''SET'', ''k'', ''v''])]"
proof -
  have p: "parse_value (sample_bytes @ ''!'') 0 default_limits =
      value_complete (sample_request [''SET'', ''k'', ''v'']) 27"
    using parse_value_wire [of default_limits 0 "sample_request [''SET'', ''k'', ''v'']" "''!''"] sample_bytes_parse(2)
    by (simp add: sample_bytes_def sample_request_def default_limits_def)
  have m: "parse_value ''!'' 0 default_limits = value_failed Malformed ''unknown RESP type prefix''"
    by (simp add: parse_value.simps)
  show ?thesis
    by (simp add: sample_eval p m refuse_input_def buffered_bytes_def snapshot_if_due_def Let_def)
qed

end
