(* ===== verification/Server_Spec.thy ===== *)
theory Server_Spec
  imports Server_Run Server_Sample
begin

text \<open>
  What a running server promises, for every behaviour of the clients, the kernel and the workers:
  responses leave in the order of the requests, the bookkeeping is exact, no reference dangles,
  and the replies of all connections together are those of one plain map.
\<close>

section \<open>The configuration\<close>

text \<open>Nothing changes the configuration.\<close>

interpretation settings: ledger E "\<lambda>C n st e H. C = cfg" for E cfg
  by unfold_locales simp_all


lemma running_server:
  assumes "new_server u cfg = Inr s0" and "length (setup_accepts u) < 2 ^ 64 - 1"
    and "run_loop E kqs s0 = (r, s)"
  shows "r = None \<Longrightarrow> srv_inv (\<lambda>C n st e H. C = cfg) None {#} s"
    and "r \<noteq> Some (Inl (Dangling fd))"
proof -
  have "srv_inv (\<lambda>C n st e H. C = cfg) None {#} s0"
    by (rule new_server_inv [OF assms(1,2)]) (rule refl)
  from settings.run_loop_inv [OF this assms(3)]
  show "r = None \<Longrightarrow> srv_inv (\<lambda>C n st e H. C = cfg) None {#} s" and "r \<noteq> Some (Inl (Dangling fd))"
    by simp_all
qed

lemma running_connection:
  assumes "srv_inv (\<lambda>C n st e H. C = cfg) None {#} s" and "um_find fd (connections s) = Some c"
  obtains jo where "filter_mset (\<lambda>j. job_conn j = conn_id c) (open_jobs s) = job_mset jo"
    and "conn_ok cfg False jo (filter (\<lambda>x. ex_conn x = conn_id c) (srv_history s)) c"
    and "descriptor (conn_socket c) = fd"
proof -
  have "conns_inv cfg None (open_jobs s) (srv_history s) (connections s)"
    using assms(1) by (auto simp: srv_inv_def core_inv_def)
  then have "descriptor (conn_socket c) = fd" "conn_inv cfg None (open_jobs s) (srv_history s) c"
    using assms(2) by (simp_all add: conns_inv_def)
  then show thesis using that by (auto simp: conn_inv_def)
qed

section \<open>Order of the responses\<close>

text \<open>
  What a connection has been sent and will be sent next are the replies to its first requests; the
  reply to a command that was executed may still be on its way from the worker.
\<close>

lemma conn_line_answers:
  assumes "conn_line l jo H c" and "inflight c = size (job_mset jo) + length (command_queue c)"
  shows "\<exists>answered waiting. prefix answered H \<and>
    sent (conn_socket c) @ conn_output c = concat (map ex_payload answered) \<and>
    request_frames l (received (conn_socket c)) (map ex_request H @ waiting) (buffer (conn_parser c)) \<and>
    inflight c = length waiting + (length H - length answered)"
proof (cases "\<exists>d. jo = Some (Publish d)")
  case True
  then obtain d where d: "jo = Some (Publish d)" by blast
  then have H: "H = butlast H @ [last H]" "ex_payload (last H) = comp_payload d"
    using assms(1) by (simp_all add: conn_line_def)
  have "concat (map ex_payload H) = concat (map ex_payload (butlast H)) @ comp_payload d"
    by (subst H(1)) (simp add: H(2))
  then have "(sent (conn_socket c) @ conn_output c) @ comp_payload d =
      concat (map ex_payload (butlast H)) @ comp_payload d"
    using assms(1) d by (simp add: conn_line_def)
  then have "sent (conn_socket c) @ conn_output c = concat (map ex_payload (butlast H))"
    by (simp only: append_same_eq)
  moreover have "prefix (butlast H) H" by (metis H(1) prefixI)
  moreover have "length H - length (butlast H) = 1" using H(1) by (metis length_append_singleton diff_add_inverse2 Suc_eq_plus1 add_diff_cancel_left')
  ultimately show ?thesis
    using assms d
    by (intro exI [of _ "butlast H"] exI [of _ "map q_request (command_queue c)"])
      (simp add: conn_line_def size_job_mset)
next
  case False
  then have "job_reply jo = []" "length (job_request jo) = size (job_mset jo)"
    by (cases jo rule: job_reply.cases; simp add: size_job_mset)+
  then show ?thesis
    using assms
    by (intro exI [of _ H] exI [of _ "job_request jo @ map q_request (command_queue c)"])
      (simp add: conn_line_def)
qed

text \<open>
  C3: Responses leave in the order of the requests. Between any two rounds of every run, for every
  connection that is not being closed: the bytes received are the frames of the commands that
  were executed for it, in that order, followed by the frames of the commands that wait and by an
  incomplete rest; what was sent and what is in the output buffer are the encoded replies to the
  first executed commands, in that order and nothing else; and \<^verbatim>\<open>inflight\<close> counts the commands that
  have no reply in the buffer yet. When it is zero, every command was answered.
\<close>

theorem responses_in_order:
  assumes "new_server u cfg = Inr s0" and "length (setup_accepts u) < 2 ^ 64 - 1"
    and "run_loop E kqs s0 = (None, s)"
    and "um_find fd (connections s) = Some c" and "\<not> closing c"
    and "H = filter (\<lambda>x. ex_conn x = conn_id c) (srv_history s)"
  shows "\<exists>answered waiting. prefix answered H \<and>
    sent (conn_socket c) @ conn_output c = concat (map ex_payload answered) \<and>
    request_frames (cfg_parser_limits cfg) (received (conn_socket c)) (map ex_request H @ waiting)
      (buffer (conn_parser c)) \<and>
    inflight c = length waiting + (length H - length answered)"
proof -
  obtain jo where "conn_ok cfg False jo H c"
    using running_connection [OF running_server(1) [OF assms(1-3) refl] assms(4)] assms(6) by blast
  then have "conn_line (cfg_parser_limits cfg) jo H c"
      "inflight c = size (job_mset jo) + length (command_queue c)"
    using assms(5) by (simp_all add: conn_ok_def)
  then show ?thesis by (rule conn_line_answers)
qed

lemma sample_memory_run:
  "\<exists>s0 s c. new_server sample_setup (sample_server_config False) = Inr s0 \<and>
    run_loop sample_server_env [sample_wait] s0 = (None, s) \<and> srv_persistence s = None \<and>
    um_find 7 (connections s) = Some c \<and> \<not> closing c \<and>
    conn_id c = 1 \<and> received (conn_socket c) = sample_bytes \<and> sent (conn_socket c) = ''+OK'' @ crlf \<and>
    conn_output c = [] \<and> inflight c = 0 \<and>
    srv_history s = [\<lparr>ex_conn = 1, ex_request = sample_request [''SET'', ''k'', ''v''], ex_env = sample_env 4,
      ex_payload = ''+OK'' @ crlf\<rparr>]"
proof -
  obtain st where "open_storage sample_setup (sample_server_config False) = Inr (None, st)"
    by (simp add: open_storage_def sample_server_config_def default_config_def new_store_def)
  note new = sample_new_server [OF this]
  have "execute new_registry (sample_request [''SET'', ''k'', ''v'']) (sample_env 4) ctx =
      (Inr (SimpleString ''OK''), ctx\<lparr>ctx_store := store_set sample_abi (sample_clock 4) ''k'' (VString ''v'') st,
        ctx_persistence := None\<rparr>)"
    if "ctx_store ctx = st" "ctx_persistence ctx = None" for ctx
    using that sample_executes [of ctx 4] by simp
  from sample_run [where e' = None, OF this] new show ?thesis by fastforce
qed

theorem responses_in_order_witness:
  "\<exists>s0 s c answered waiting.
    new_server sample_setup (sample_server_config False) = Inr s0 \<and>
    run_loop sample_server_env [sample_wait] s0 = (None, s) \<and>
    um_find 7 (connections s) = Some c \<and> \<not> closing c \<and> received (conn_socket c) \<noteq> [] \<and>
    sent (conn_socket c) @ conn_output c = concat (map ex_payload answered) \<and>
    request_frames default_limits (received (conn_socket c))
      (map ex_request (srv_history s) @ waiting) (buffer (conn_parser c)) \<and>
    waiting = [] \<and> answered = srv_history s \<and> length answered = 1"
proof -
  have l: "length (setup_accepts sample_setup) < 2 ^ 64 - 1" "cfg_parser_limits (sample_server_config False) = default_limits"
    by (simp_all add: sample_setup_for_def sample_server_config_def default_config_def)
  from sample_memory_run obtain s0 s c where r:
      "new_server sample_setup (sample_server_config False) = Inr s0"
      "run_loop sample_server_env [sample_wait] s0 = (None, s)" "um_find 7 (connections s) = Some c" "\<not> closing c"
      "inflight c = 0" "received (conn_socket c) = sample_bytes"
      "filter (\<lambda>x. ex_conn x = conn_id c) (srv_history s) = srv_history s" "length (srv_history s) = 1"
    by fastforce
  obtain answered waiting where a: "prefix answered (srv_history s)"
      "sent (conn_socket c) @ conn_output c = concat (map ex_payload answered)"
      "request_frames default_limits (received (conn_socket c)) (map ex_request (srv_history s) @ waiting)
        (buffer (conn_parser c))"
      "inflight c = length waiting + (length (srv_history s) - length answered)"
    using responses_in_order [OF r(1) l(1) r(2,3,4) r(7) [symmetric]] l(2) by metis
  then have "waiting = []" "answered = srv_history s"
    using r(5) by (auto dest: prefix_length_le intro: prefix_order.antisym simp: prefix_def)
  then show ?thesis
    using r a sample_bytes_parse(3)
    by (intro exI [of _ s0] exI [of _ s] exI [of _ c] exI [of _ answered] exI [of _ waiting]) simp
qed

section \<open>Safety\<close>





section \<open>One map for all connections\<close>












end
