(* ===== verification/Server_Durable.thy ===== *)
theory Server_Durable
  imports Server_Spec
begin

text \<open>
  The server with persistence: what is on disk at any moment of any run, and what a server that is
  started on it after a crash holds.
\<close>

section \<open>The configuration of the engine\<close>









section \<open>The history on disk\<close>










section \<open>A crash of the server\<close>









end
