(* ===== verification/Apps.thy ===== *)
theory Apps
  imports Server_Durable
begin

text \<open>
  The programs of \<^verbatim>\<open>apps/\<close>: the command-line client, the server's \<^verbatim>\<open>main\<close> and the benchmark. What a
  program writes to its two streams and its exit code are values; \<open>version\<close> is the string that the
  build defines, and \<open>what\<close> the text that the library gives an exception.
\<close>

datatype run_result = Exited int string string | Aborted | Undefined

definition newline :: string where
  "newline = [CHR 0x0A]"

abbreviation uint_max :: int where "uint_max \<equiv> 2 ^ 32 - 1"

section \<open>The client\<close>




text \<open>Whether an error was shown, and what goes to the two streams.\<close>

fun render :: "resp_value \<Rightarrow> nat \<Rightarrow> bool \<times> string \<times> string"
  and render_items :: "resp_value list \<Rightarrow> nat \<Rightarrow> nat \<Rightarrow> bool \<Rightarrow> bool \<times> string \<times> string" where
  "render (SimpleString v) depth = (False, v @ newline, [])"
| "render (Error v) depth = (True, [], ''(error) '' @ v @ newline)"
| "render (Integer v) depth = (False, show_int (sint v) @ newline, [])"
| "render (BulkString None) depth = (False, ''(nil)'' @ newline, [])"
| "render (BulkString (Some v)) depth = (False, v @ newline, [])"
| "render (Array None) depth = (False, ''(nil)'' @ newline, [])"
| "render (Array (Some items)) depth =
     (if items = [] then (False, ''(empty array)'' @ newline, []) else render_items items 0 depth False)"
| "render_items [] index depth had_error = (had_error, [], [])"
| "render_items (item # items) index depth had_error =
     (case render item (depth + 1) of
        (b, out, err) \<Rightarrow>
          (case render_items items (index + 1) depth (b \<or> had_error) of
             (b', out', err') \<Rightarrow>
               (b', replicate (depth * 2) (CHR '' '') @ show_nat (index + 1) @ '') '' @ out @ out', err @ err')))"


definition cli_failure :: "string \<Rightarrow> run_result" where
  "cli_failure message = Exited 1 [] (''novacache-cli: '' @ message @ newline)"

definition cli_answer :: "resp_value \<Rightarrow> run_result" where
  "cli_answer v = (case render v 0 of (b, out, err) \<Rightarrow> Exited (if b then 1 else 0) out err)"

text \<open>
  The loop that waits for the reply. The socket is a blocking one: when nothing but interrupted
  calls are to come, \<^verbatim>\<open>recv\<close> does not return, and the result is \<open>None\<close>.
\<close>

definition recv_blocks :: "recv_outcome list \<Rightarrow> bool" where
  "recv_blocks outcomes = list_all (\<lambda>x. x = Recv_interrupted) outcomes"

lemma socket_receive_work:
  assumes "socket_receive n s = (Inr bytes, s')" and "bytes \<noteq> []" and "0 < n"
  shows "recv_work (inbox s') < recv_work (inbox s)"
proof -
  obtain st where t: "try_receive n s = (Inr (st, bytes), s')"
    using assms(1) by (auto simp: socket_receive_def split: prod.splits sum.splits if_splits)
  then have "st = Io_ok" using try_receive_work(3) [OF t assms(3) refl] assms(2) by blast
  then show ?thesis using try_receive_work(1) [OF t assms(3)] assms(2) by (cases bytes) simp_all
qed

function cli_exchange ::
    "(exn \<Rightarrow> string) \<Rightarrow> parser \<Rightarrow> net_socket \<Rightarrow> run_result option \<times> net_socket" where
  "cli_exchange what p s =
     (let result = fst (parser_next p) in
      if pr_status result = Complete \<and> pr_value result \<noteq> None
      then (Some (cli_answer (the (pr_value result))), s)
      else if pr_status result \<noteq> Incomplete then (Some (cli_failure ''malformed server response''), s)
      else if recv_blocks (inbox s) then (None, s)
      else case socket_receive 8192 s of
        (Inl x, s') \<Rightarrow> (Some (cli_failure (what x)), s')
      | (Inr bytes, s') \<Rightarrow>
          if bytes = [] then (Some (cli_failure ''server closed the connection''), s')
          else if fst (parser_feed (snd (parser_next p)) bytes) \<noteq> Incomplete
          then (Some (cli_failure ''server response exceeded limits''), s')
          else cli_exchange what (snd (parser_feed (snd (parser_next p)) bytes)) s')"
  by pat_completeness auto
termination
  by (relation "measure (\<lambda>(what, p, s). recv_work (inbox s))") (auto intro: socket_receive_work [OF sym])

declare cli_exchange.simps [simp del]


section \<open>The server\<close>

definition server_parse_port :: "string \<Rightarrow> u16 option" where
  "server_parse_port txt =
     (case from_chars 0 uint_max txt of
        (ec, rest, v) \<Rightarrow>
          if txt = [] \<or> ec \<noteq> Ec_ok \<or> rest \<noteq> [] \<or> v > 65535 then None else Some (of_int v))"

definition parse_size :: "string \<Rightarrow> nat option" where
  "parse_size txt =
     (case from_chars 0 (int size_max) txt of
        (ec, rest, v) \<Rightarrow> if txt = [] \<or> ec \<noteq> Ec_ok \<or> rest \<noteq> [] then None else Some (nat v))"

definition parse_fsync :: "string \<Rightarrow> fsync_mode option" where
  "parse_fsync txt =
     (if txt = ''always'' then Some Fsync_always
      else if txt = ''everysec'' then Some Fsync_everysec
      else if txt = ''none'' then Some Fsync_none
      else None)"

definition server_usage :: run_result where
  "server_usage = Exited 2 []
     (''usage: novacache-server [-h host|--host host] [-p port|--port port] '' @
      ''[--workers N] [--data-dir PATH] [--fsync always|everysec|none] '' @
      ''[--snapshot-interval SECONDS]'' @ newline)"

definition server_invalid :: "string \<Rightarrow> run_result" where
  "server_invalid message = Exited 2 [] (''novacache-server: '' @ message @ newline)"

text \<open>An option with its value: how it changes the configuration.\<close>

definition server_option :: "string \<Rightarrow> string \<Rightarrow> server_config \<Rightarrow> run_result + server_config" where
  "server_option argument v cfg =
     (if argument = ''-h'' \<or> argument = ''--host'' then Inr (cfg\<lparr>cfg_host := v\<rparr>)
      else if argument = ''-p'' \<or> argument = ''--port'' then
        (case server_parse_port v of
           None \<Rightarrow> Inl (server_invalid ''invalid port'')
         | Some port \<Rightarrow> Inr (cfg\<lparr>cfg_port := port\<rparr>))
      else if argument = ''--workers'' then
        (case parse_size v of
           None \<Rightarrow> Inl (server_invalid ''invalid workers'')
         | Some workers \<Rightarrow> Inr (cfg\<lparr>cfg_workers := workers\<rparr>))
      else if argument = ''--data-dir'' then Inr (cfg\<lparr>cfg_data_dir := v, persistence_enabled := True\<rparr>)
      else if argument = ''--fsync'' then
        (case parse_fsync v of
           None \<Rightarrow> Inl (server_invalid ''invalid fsync mode'')
         | Some mode \<Rightarrow> Inr (cfg\<lparr>cfg_fsync := mode\<rparr>))
      else
        (case parse_size v of
           None \<Rightarrow> Inl (server_invalid ''invalid snapshot interval'')
         | Some interval \<Rightarrow>
             if interval > 86400 * 365 then Inl (server_invalid ''invalid snapshot interval'')
             else Inr (cfg\<lparr>cfg_snapshot_interval := int interval\<rparr>)))"

fun server_arguments :: "string \<Rightarrow> string list \<Rightarrow> server_config \<Rightarrow> run_result + server_config" where
  "server_arguments version [] cfg = Inr cfg"
| "server_arguments version (argument # rest) cfg =
     (if argument = ''--version'' then Inl (Exited 0 (''novacache-server '' @ version @ newline) [])
      else if argument \<in> {''-h'', ''--host'', ''-p'', ''--port'', ''--workers'', ''--data-dir'', ''--fsync'',
          ''--snapshot-interval''} then
        (case rest of
           [] \<Rightarrow> Inl server_usage
         | next # rest' \<Rightarrow>
             (case server_option argument next cfg of
                Inl r \<Rightarrow> Inl r
              | Inr cfg' \<Rightarrow> server_arguments version rest' cfg'))
      else Inl server_usage)"

text \<open>The program; \<open>None\<close> while it runs. The destructor runs when the server goes out of scope.\<close>

definition server_main ::
    "string \<Rightarrow> (exn \<Rightarrow> string) \<Rightarrow> server_setup \<Rightarrow> server_env \<Rightarrow> kevent_wait list \<Rightarrow> command_env \<Rightarrow> string list \<Rightarrow>
     run_result option \<times> server option" where
  "server_main version what u E kqs X arguments =
     (case server_arguments version arguments default_config of
        Inl r \<Rightarrow> (Some r, None)
      | Inr cfg \<Rightarrow>
          (case new_server u cfg of
             Inl x \<Rightarrow> (Some (Exited 1 [] (''novacache-server: '' @ what x @ newline)), None)
           | Inr s \<Rightarrow>
               let out = ''NovaCache listening on port '' @ show_nat (unat (srv_bound_port s)) @ newline;
                   leave = (\<lambda>s. Some (destroy_server (env_os X) (env_os X) (env_abi X) (clock0 X) s))
               in (case run_loop E kqs s of
                     (None, s') \<Rightarrow> (None, Some s')
                   | (Some (Inr _), s') \<Rightarrow> (Some (Exited 0 out []), leave s')
                   | (Some (Inl (Thrown x)), s') \<Rightarrow>
                       (Some (Exited 1 out (''novacache-server: '' @ what x @ newline)), leave s')
                   | (Some (Inl (Terminated x)), s') \<Rightarrow> (Some Aborted, Some s')
                   | (Some (Inl (Dangling fd)), s') \<Rightarrow> (Some Undefined, Some s'))))"

section \<open>The benchmark\<close>

definition benchmark_main :: "string \<Rightarrow> string list \<Rightarrow> run_result" where
  "benchmark_main version arguments =
     (if arguments = [''--version''] then Exited 0 (''novacache-benchmark '' @ version @ newline) []
      else Exited 1 [] (''novacache-benchmark: benchmark execution is not implemented yet'' @ newline @
        ''Run with --version to verify this Phase 0 build.'' @ newline))"

section \<open>Laws of the client\<close>






text \<open>
  The limits that protect a server from its clients hold for the replies too: the client cannot
  show an array of more than 1024 elements, as \<^verbatim>\<open>KEYS\<close> returns it from a larger store.
\<close>

lemma cli_refuses_long_arrays:
  assumes "1024 < length items" and "length items < 2 ^ 63"
    and "buffer p = wire (Array (Some items)) @ rest" and "limits p = default_limits" and "\<not> buffer_oversized p"
  shows "cli_exchange what p s = (Some (cli_failure ''malformed server response''), s)"
proof -
  have "vr_status (parse_value (buffer p) 0 default_limits) = Oversized"
    using assms(1,2,3)
      read_line_frame [OF line_safe_show_nat, of "CHR ''*''" "length items" "concat (map wire items) @ rest"]
    by (simp add: parse_value.simps [of _ 0] parse_array.simps Let_def parse_integer_show_nat default_limits_def)
  then show ?thesis
    using assms(4,5) by (simp add: cli_exchange.simps parser_next_def Let_def)
qed



section \<open>Properties\<close>





end
