(* ===== verification/Spec2Isabelle.thy ===== *)
theory Spec2Isabelle
  imports Crc32 Protocol Locks Apps
begin

text \<open>
  \<^bold>\<open>NovaCache: a verification development.\<close>

  NovaCache is an in-memory key-value server that speaks a subset of RESP2 and can keep its data
  across restarts. A request travels through these parts: a client (\<^verbatim>\<open>apps/novacache-cli.cpp\<close>)
  sends it; the event loop of \<^verbatim>\<open>src/server/server.cpp\<close> learns from the reactor
  (\<^verbatim>\<open>src/net/reactor.cpp\<close>) that a socket (\<^verbatim>\<open>src/net/socket.cpp\<close>) is ready and reads bytes, \<^verbatim>\<open>src/protocol/parser.cpp\<close> cuts them into values,
  a worker of \<^verbatim>\<open>src/util/thread_pool.cpp\<close> executes the command
  (\<^verbatim>\<open>src/commands/registry.cpp\<close>) on the sharded store of
  \<^verbatim>\<open>src/store/store.cpp\<close>, directly or through the persistence engine of
  \<^verbatim>\<open>src/persistence/engine.cpp\<close>, which first appends a record to the write-ahead log
  (\<^verbatim>\<open>wal.cpp\<close>), and \<^verbatim>\<open>src/protocol/encoder.cpp\<close> turns the reply into bytes, which the event loop puts in order
  and sends. Snapshots
  (\<^verbatim>\<open>snapshot.cpp\<close>) shorten the log; recovery loads the snapshot and replays the log.

  \<^bold>\<open>How the code is modelled.\<close> Functions are translated one by one into executable HOL functions
  that keep the names of the source. Objects are records and are passed and returned. Exceptions
  are values of the type \<open>exn\<close> on the left of a sum; calls outside the precondition of a library
  function give \<open>Undefined_behaviour\<close>. Bytes are characters, \<^verbatim>\<open>std::uint32_t\<close> and its siblings are
  words of their width with wrap-around; time points are integers. What the program does not decide
  itself is an argument: system calls (\<open>os\<close>: whether each call succeeds and how much each
  \<^verbatim>\<open>read\<close> and \<^verbatim>\<open>write\<close> transfers), the C++ implementation (\<open>abi\<close>: the hash of a key,
  \<^verbatim>\<open>sizeof(Entry)\<close>, the length of a tick of the wall clock), every reading of a clock and the random
  draws. Memory allocation does not fail.

  \<^bold>\<open>Theories.\<close>
  \<^item> \<open>Prelude\<close>: words, bytes, exceptions; the interfaces \<open>codec\<close>, \<open>strict_codec\<close>,
    \<open>run_invariant\<close>, \<open>simulation\<close> and \<open>dictionary\<close> (interpreted on \<^verbatim>\<open>std::unordered_map\<close> as an
    association list).
  \<^item> \<open>Binary\<close> (\<^verbatim>\<open>binary.hpp\<close>): the six writers and readers, each a codec.
  \<^item> \<open>Crc32\<close> (\<^verbatim>\<open>crc32.cpp\<close>): the table-driven checksum equals the bitwise one and detects bursts.
  \<^item> \<open>Charconv\<close>: \<^verbatim>\<open>std::from_chars\<close> and \<^verbatim>\<open>std::to_chars\<close>.
  \<^item> \<open>Encoder\<close>, \<open>Parser\<close>, \<open>Parser_Laws\<close>, \<open>Protocol\<close>: RESP2 values, \<^verbatim>\<open>encoder.cpp\<close> and
    \<^verbatim>\<open>parser.cpp\<close>; round trip, independence of the chunks of the stream, limits.
  \<^item> \<open>Store\<close>, \<open>Store_Laws\<close>, \<open>Store_Spec\<close> (\<^verbatim>\<open>store.cpp\<close>): every member function; the store refines
    one plain map with deadlines; memory accounting; readers that lock twice act atomically.
    \<open>Locks\<close>: the lock order of every member function excludes deadlock, and every schedule ends.
  \<^item> \<open>Files\<close>, \<open>Wal\<close>, \<open>Wal_Laws\<close>, \<open>Wal_Spec\<close> (\<^verbatim>\<open>wal.cpp\<close>): what is read back from any prefix of the
    log, damaged logs, failed appends.
  \<^item> \<open>Snapshot\<close>, \<open>Snapshot_Spec\<close> (\<^verbatim>\<open>snapshot.cpp\<close>): round trip, damage, atomic replacement.
  \<^item> \<open>Engine\<close>, \<open>Wall_View\<close>, \<open>Engine_Laws\<close>, \<open>Engine_Spec\<close>, \<open>Durability\<close> (\<^verbatim>\<open>engine.cpp\<close> and the part of
    the \<^verbatim>\<open>Server\<close> constructor that opens the database): sessions, the invariant that ties store,
    snapshot and log together, recovery after a crash between operations and inside a snapshot, and
    two ways in which acknowledged data is lost.
  \<^item> \<open>Stats\<close>, \<open>Registry\<close>, \<open>Registry_Spec\<close> (\<^verbatim>\<open>stats.cpp\<close>, \<^verbatim>\<open>registry.cpp\<close>): the commands refine the plain
    map, their replies have the documented types and can be encoded, read-only commands only read,
    and with persistence each command is one step of a durable session.

  \<^item> \<open>Thread_Pool\<close> (\<^verbatim>\<open>thread_pool.cpp\<close>): the pool as a step relation of producers, workers and the
    thread that shuts it down; accepted jobs start once and in order, shutdown ends.
  \<^item> \<open>Reactor\<close> (\<^verbatim>\<open>reactor.cpp\<close>): the filters in the kernel are those of the last calls, a wait
    reports each descriptor once. \<open>Socket\<close> (\<^verbatim>\<open>socket.cpp\<close>): every member function; descriptors are
    not leaked.
  \<^item> \<open>Server\<close>, \<open>Server_IO\<close>, \<open>Server_Loop\<close> (\<^verbatim>\<open>server.cpp\<close>): the whole server, from the constructor over
    every function of the event loop to the destructor, as state transformers on the record
    \<open>server\<close>, with weakest preconditions and the measures that end its loops.
  \<^item> \<open>Server_Laws\<close>, \<open>Server_Inv\<close>, \<open>Server_Run\<close>: the invariant of the server. It says of every
    connection how the bytes received, the commands executed, the job under way, the queue and the
    bytes sent fit together, and takes what is to be shown of the store, the engine and the history
    as a parameter, the interface \<open>ledger\<close>; every function of the event loop and every step of the
    other threads keeps it.
  \<^item> \<open>Server_Spec\<close>: the interface is interpreted on the configuration and on a plain map: responses
    leave in the order of the requests, the books are exact, and the commands of all connections
    together get the replies of one map. \<open>Server_Durable\<close>: it is interpreted on the sessions of the
    engine: what a server holds that is started after a crash. \<open>Server_Sample\<close>: a run of the server on
    concrete input, and three corner cases.
  \<^item> \<open>Apps\<close> (\<^verbatim>\<open>apps/\<close>): the client, the server's \<^verbatim>\<open>main\<close> and the benchmark; the client asks the
    command it was given and shows the reply.

  \<^bold>\<open>Threads.\<close> The event loop is one thread. What the workers, the thread that syncs the log and
  callers of \<^verbatim>\<open>stop\<close> do meanwhile is a schedule, an arbitrary list of bursts of their steps; one
  burst is played each time the event loop is about to look at something they share. The properties
  of the server hold for every schedule. A command is executed in one step: that the operations of
  the store act atomically is shown in \<open>Store_Spec\<close> and \<open>Locks\<close>, and the durable operations hold the
  mutex of the engine. A worker publishes its completion in a step of its own. The kernel answers
  each wait, \<^verbatim>\<open>accept\<close>, \<^verbatim>\<open>recv\<close> and \<^verbatim>\<open>send\<close> arbitrarily. A run is the list of answers to the waits;
  its prefixes are the states between two rounds of the loop.

  \<^bold>\<open>Loops.\<close> Every loop is a total function: structural recursion over the input, over the list of
  outcomes of the system calls, or with a measure (\<open>scan_records\<close>: the length of the unread log;
  \<open>write_all\<close>: the outcomes left; the loops of the server: the bytes that are unread, unsent or
  buffered, or the work that is under way). No fuel is used. A blocking call that does not return,
  a server that still runs and a \<^verbatim>\<open>join\<close> that still waits are the value \<open>None\<close>.

  \<^bold>\<open>Assumptions of the durability theorems.\<close> The steady clock and the wall clock run in step
  (\<open>coherent\<close>), a millisecond is a whole number of wall-clock ticks (\<open>platform_ok\<close>), and calls
  succeed where a theorem says \<open>os_good\<close>; the way transfers are split stays arbitrary.

  The theorems on the server assume fewer than \<open>2 ^ 64 - 1\<close> accepted connections, so that the
  64-bit identifiers of connections do not repeat.

  \<^bold>\<open>Not modelled.\<close> The string that \<^verbatim>\<open>version.cpp\<close> returns, which the build defines and which is an
  argument here; the text that the operating system gives an error number; the memory model below
  the mutexes; and the declarations of the headers that only restate signatures.
\<close>

end
